(* ===== verification/Prelude.thy ===== *)
theory Prelude
  imports Main "HOL-Library.Word"
begin

text \<open>
  What every component of the development shares: the collections of rewrite rules that carry
  the component proofs, Go's fixed-width integers (signed 64-bit values as integers with the
  wrap-around written out), Go's truncating division, the outcome of a computation that may
  panic, and a few facts about lists, maps and association lists that the library does not have.
\<close>

section \<open>Collections\<close>

named_theorems go_defs \<open>definitions that the component proofs unfold\<close>
named_theorems store_frame \<open>what an operation leaves unchanged\<close>
named_theorems wf_intros \<open>preservation of a component's invariant\<close>

section \<open>Integers\<close>

text \<open>An \<open>int64\<close> (and \<open>int\<close>, on the 64-bit targets) is an integer in the signed range;
  \<open>i64\<close> is the wrap-around that follows each arithmetic operation.\<close>

definition i64 :: "int \<Rightarrow> int" where
  "i64 x = (x + 2 ^ 63) mod 2 ^ 64 - 2 ^ 63"

definition in_i64 :: "int \<Rightarrow> bool" where
  "in_i64 x \<longleftrightarrow> - (2 ^ 63) \<le> x \<and> x < 2 ^ 63"

abbreviation MaxInt64 :: int where "MaxInt64 \<equiv> 2 ^ 63 - 1"
abbreviation MinInt64 :: int where "MinInt64 \<equiv> - (2 ^ 63)"

lemma i64_id [simp]: "in_i64 x \<Longrightarrow> i64 x = x"
  by (simp add: i64_def in_i64_def)

lemma i64_in_range [simp]: "in_i64 (i64 x)"
proof -
  have "0 \<le> (x + 2 ^ 63) mod 2 ^ 64" and "(x + 2 ^ 63) mod 2 ^ 64 < (2 ^ 64 :: int)"
    by simp_all
  then show ?thesis by (simp add: i64_def in_i64_def)
qed

lemma in_i64_small [intro]: "\<bar>x\<bar> < 2 ^ 62 \<Longrightarrow> in_i64 x"
  by (auto simp: in_i64_def abs_if split: if_splits)

text \<open>Go's integer division truncates towards zero.\<close>

definition go_div :: "int \<Rightarrow> int \<Rightarrow> int" where
  "go_div a b = sgn a * sgn b * (\<bar>a\<bar> div \<bar>b\<bar>)"

lemma go_div_nonneg: "0 \<le> a \<Longrightarrow> 0 < b \<Longrightarrow> go_div a b = a div b"
  by (cases "a = 0") (auto simp: go_div_def)

section \<open>Panics\<close>

text \<open>A run-time panic (index out of range, failed type assertion, negative \<open>make\<close> size) is a
  value of its own: no code of the modelled goroutines recovers from it.\<close>

datatype 'a outcome = Ret 'a | Panic

fun bind_outcome :: "'a outcome \<Rightarrow> ('a \<Rightarrow> 'b outcome) \<Rightarrow> 'b outcome" where
  "bind_outcome (Ret x) f = f x"
| "bind_outcome Panic f = Panic"

lemma bind_outcome_Ret_iff: "bind_outcome m f = Ret y \<longleftrightarrow> (\<exists>x. m = Ret x \<and> f x = Ret y)"
  by (cases m) auto

section \<open>Lists and maps\<close>

lemma set_map_filter_keys:
  "set (List.map_filter (\<lambda>k. map_option (Pair k) (m k)) ks) = {(k, v). k \<in> set ks \<and> m k = Some v}"
  by (induction ks) (auto split: option.splits)

lemma distinct_map_filter_keys:
  "distinct ks \<Longrightarrow> distinct (map fst (List.map_filter (\<lambda>k. map_option (Pair k) (m k)) ks))"
  by (induction ks) (auto simp: set_map_filter_keys split: option.splits)

lemma length_take_last: "length (drop (length xs - n) xs) \<le> n"
  by simp

lemma inj_on_map_upd_fresh:
  assumes "inj_on m (dom m)" and "v \<notin> ran m"
  shows "inj_on (m(k \<mapsto> v)) (dom (m(k \<mapsto> v)))"
  using assms by (fastforce simp: inj_on_def ran_def split: if_splits)

lemma inj_on_map_del:
  "inj_on m (dom m) \<Longrightarrow> inj_on (m(k := None)) (dom (m(k := None)))"
  by (auto simp: inj_on_def)

lemma ran_map_del_inj:
  assumes "inj_on m (dom m)" and "m k = Some p"
  shows "ran (m(k := None)) = ran m - {p}"
  using assms by (force simp: ran_def inj_on_def dom_def)

lemma ran_map_upd_inj:
  assumes "inj_on m (dom m)" and "m k = Some q"
  shows "ran (m(k \<mapsto> p)) = insert p (ran m - {q})"
  using assms by (force simp: ran_def inj_on_def dom_def)

end
