(* ===== verification/Varint.thy ===== *)
theory Varint
  imports Prelude
begin

unbundle bit_operations_syntax

text \<open>
  The variable-length integers of \<^verbatim>\<open>internal/dencoding/int.go\<close>: seven payload bits per byte,
  least significant group first, the top bit marking a continuation. \<open>EncodeUInt\<close> and
  \<open>DecodeUInt\<close> work on \<open>uint64\<close>, \<open>EncodeInt\<close> and \<open>DecodeInt\<close> on zig-zagged \<open>int64\<close>,
  and the \<open>Rev\<close> functions write the bytes backwards into a caller's buffer, so that a reader
  that stands behind the number can walk back to its start. The lemmas show the round trips and
  that \<open>GetEncodeUIntSize\<close> is a sufficient buffer exactly below \<open>2 ^ 35\<close>.
\<close>

type_synonym byte = "8 word"
type_synonym u64 = "64 word"

definition BITMASK :: "byte list" where
  "BITMASK = [0x01, 0x03, 0x07, 0x0F, 0x1F, 0x3F, 0x7F, 0xFF]"

text \<open>The index \<open>n - 1\<close> is a \<open>uint8\<close>: for \<open>n = 0\<close> it is 255, out of the array's range.\<close>

definition getLSB :: "byte \<Rightarrow> nat \<Rightarrow> byte outcome" where
  "getLSB x n = (if 8 < n \<or> n = 0 then Panic else Ret (x AND BITMASK ! (n - 1)))"

definition bitShifts :: "nat list" where
  "bitShifts = [7, 7, 7, 7, 7, 7, 7, 7, 7, 1]"

text \<open>
  The encoding loop over the entries of \<open>bitShifts\<close>. The byte it stops at loses the
  continuation bit; when no entry is left, \<open>i\<close> is 10 and the eleventh, never written, byte of
  the buffer is the terminator.
\<close>

fun EncodeUInt_loop :: "nat list \<Rightarrow> u64 \<Rightarrow> byte list outcome" where
  "EncodeUInt_loop [] x = Ret [0]"
| "EncodeUInt_loop (n # ns) x =
     bind_outcome (getLSB (ucast x) n) (\<lambda>b.
       let x' = drop_bit n x in
       if x' = 0 then Ret [(b OR 0x80) AND 0x7F]
       else bind_outcome (EncodeUInt_loop ns x') (\<lambda>bs. Ret ((b OR 0x80) # bs)))"

definition EncodeUInt :: "u64 \<Rightarrow> byte list outcome" where
  "EncodeUInt x = EncodeUInt_loop bitShifts x"

fun DecodeUInt_loop :: "nat \<Rightarrow> u64 \<Rightarrow> byte list \<Rightarrow> u64 outcome" where
  "DecodeUInt_loop i v [] = Ret v"
| "DecodeUInt_loop i v (b # bs) =
     bind_outcome (getLSB b 7) (\<lambda>c. DecodeUInt_loop (Suc i) (v OR push_bit (7 * i) (ucast c)) bs)"

definition DecodeUInt :: "byte list \<Rightarrow> u64 outcome" where
  "DecodeUInt vint = DecodeUInt_loop 0 0 vint"

text \<open>\<open>int64\<close> values as 64-bit words; \<open>>>\<close> on them is the arithmetic shift.\<close>

definition EncodeInt :: "u64 \<Rightarrow> byte list outcome" where
  "EncodeInt x = EncodeUInt (push_bit 1 x XOR signed_drop_bit 63 x)"

definition DecodeInt :: "byte list \<Rightarrow> u64 outcome" where
  "DecodeInt vint = bind_outcome (DecodeUInt vint)
     (\<lambda>ux. Ret (drop_bit 1 ux XOR signed_drop_bit 63 (push_bit 63 ux)))"

fun EncodeUIntRev_loop :: "nat list \<Rightarrow> nat \<Rightarrow> u64 \<Rightarrow> byte list \<Rightarrow> byte list outcome" where
  "EncodeUIntRev_loop [] i x buf = Ret buf"
| "EncodeUIntRev_loop (n # ns) i x buf =
     (if length buf \<le> i then Panic
      else bind_outcome (getLSB (ucast x) n) (\<lambda>b.
        let buf' = buf[length buf - i - 1 := b OR 0x80]; x' = drop_bit n x in
        if x' = 0 then Ret buf' else EncodeUIntRev_loop ns (Suc i) x' buf'))"

definition EncodeUIntRevInPlace :: "u64 \<Rightarrow> byte list \<Rightarrow> byte list outcome" where
  "EncodeUIntRevInPlace x buf = bind_outcome (EncodeUIntRev_loop bitShifts 0 x buf)
     (\<lambda>buf'. case buf' of [] \<Rightarrow> Panic | b # bs \<Rightarrow> Ret ((b AND 0x7F) # bs))"

definition GetEncodeUIntSize :: "u64 \<Rightarrow> u64" where
  "GetEncodeUIntSize x =
     (if x \<le> 127 then 1 else if x < 16383 then 2 else if x < 2097151 then 3
      else if x < 268435455 then 4 else 5)"

definition DecodeUIntRev :: "byte list \<Rightarrow> u64 outcome" where
  "DecodeUIntRev vint = DecodeUInt_loop 0 0 (rev vint)"

section \<open>The bytes of a number\<close>

lemma getLSB_7 [simp]: "getLSB x 7 = Ret (take_bit 7 x)"
  by (simp add: getLSB_def BITMASK_def take_bit_eq_mask mask_eq_exp_minus_1)

lemma getLSB_1 [simp]: "getLSB x (Suc 0) = Ret (take_bit 1 x)"
  by (simp add: getLSB_def BITMASK_def take_bit_eq_mask mask_eq_exp_minus_1)

lemma bit_0x80: "bit (0x80 :: byte) n \<longleftrightarrow> n = 7"
proof -
  have "(0x80 :: byte) = push_bit 7 (mask 1)" by simp
  then have "bit (0x80 :: byte) n \<longleftrightarrow> 7 \<le> n \<and> n < 8 \<and> n - 7 < 1"
    by (simp only: bit_push_bit_iff bit_mask_iff) auto
  then show ?thesis by auto
qed

lemma bit_0x7F: "bit (0x7F :: byte) n \<longleftrightarrow> n < 7"
proof -
  have "(0x7F :: byte) = mask 7" by (simp add: mask_eq_exp_minus_1)
  then show ?thesis by (simp only: bit_mask_iff) auto
qed

lemma unat_drop_bit: "unat (drop_bit n x) = unat x div 2 ^ n"
proof -
  have "unat (drop_bit n x) = drop_bit n (unat x)" by (rule unat_drop_bit_eq)
  then show ?thesis by (simp only: drop_bit_eq_div)
qed

lemma drop_bit_0_iff: "drop_bit n x = 0 \<longleftrightarrow> unat x < 2 ^ n"
  by (simp only: word_unat_eq_iff unat_drop_bit) (simp add: div_eq_0_iff)

text \<open>The continuation byte of a group, and what decoding reads from it.\<close>

definition cont_byte :: "u64 \<Rightarrow> byte" where
  "cont_byte x = take_bit 7 (ucast x) OR 0x80"

lemma cont_byte_payload: "(ucast (take_bit 7 (cont_byte x)) :: u64) = take_bit 7 x"
  by (rule bit_word_eqI) (auto simp: cont_byte_def bit_simps bit_0x80)

lemma term_byte_payload: "(ucast (take_bit 7 (cont_byte x AND 0x7F)) :: u64) = take_bit 7 x"
  by (rule bit_word_eqI) (simp only: bit_simps cont_byte_def bit_0x80 bit_0x7F, auto)

lemma bit_cont_byte_7: "bit (cont_byte x) 7"
  by (simp add: cont_byte_def bit_simps bit_0x80)

lemma bit_term_byte_7: "\<not> bit (cont_byte x AND 0x7F) 7"
  by (simp add: bit_simps bit_0x7F)

lemma or_split_7: "take_bit 7 x OR push_bit 7 (drop_bit 7 x) = (x :: u64)"
proof (rule bit_word_eqI)
  fix n :: nat
  assume "n < LENGTH(64)"
  then show "bit (take_bit 7 x OR push_bit 7 (drop_bit 7 x)) n = bit x n"
    by (cases "n < 7") (auto simp: bit_simps)
qed

text \<open>All groups of a number as continuation bytes: at least one, then one per further group.\<close>

function cont_bytes :: "u64 \<Rightarrow> byte list" where
  "cont_bytes x = cont_byte x # (if drop_bit 7 x = 0 then [] else cont_bytes (drop_bit 7 x))"
  by pat_completeness auto
termination
proof (relation "measure unat")
  fix x :: u64
  assume "drop_bit 7 x \<noteq> 0"
  then have "x \<noteq> 0" by auto
  then have "0 < unat x" by (simp add: unat_gt_0)
  then have "unat x div 2 ^ 7 < unat x" by simp
  then show "(drop_bit 7 x, x) \<in> measure unat"
    by (simp only: in_measure unat_drop_bit)
qed simp

declare cont_bytes.simps [simp del]

lemma cont_bytes_ne [simp]: "cont_bytes x \<noteq> []"
  by (simp add: cont_bytes.simps [of x])

lemma cont_bytes_bit7: "b \<in> set (cont_bytes x) \<Longrightarrow> bit b 7"
proof (induction x rule: cont_bytes.induct)
  case (1 x)
  then show ?case
    by (auto simp: cont_bytes.simps [of x] bit_cont_byte_7 split: if_splits)
qed

lemma length_cont_bytes:
  "length (cont_bytes x) \<le> Suc k \<longleftrightarrow> unat x < 2 ^ (7 * Suc k)"
proof (induction k arbitrary: x)
  case 0
  show ?case using drop_bit_0_iff [of 7 x] by (simp add: cont_bytes.simps [of x])
next
  case (Suc k)
  note z = drop_bit_0_iff [of 7 x]
  have d: "unat (drop_bit 7 x) < 2 ^ (7 * Suc k) \<longleftrightarrow> unat x < 2 ^ (7 * Suc (Suc k))"
    by (simp only: unat_drop_bit) (simp add: div_less_iff_less_mult power_add)
  have lt: "unat x < 2 ^ 7 \<Longrightarrow> unat x < 2 ^ (7 * Suc (Suc k))"
    by (erule less_le_trans) (rule power_increasing, auto)
  show ?case
    using Suc.IH [of "drop_bit 7 x"] z d lt by (auto simp: cont_bytes.simps [of x])
qed

section \<open>Encoding and decoding\<close>

text \<open>The terminator: the last byte of the groups without its continuation bit.\<close>

definition terminated :: "byte list \<Rightarrow> byte list" where
  "terminated bs = butlast bs @ [last bs AND 0x7F]"

lemma EncodeUInt_loop_eq:
  "unat x < 2 ^ (7 * k + 1) \<Longrightarrow>
   EncodeUInt_loop (replicate k 7 @ [1]) x = Ret (terminated (cont_bytes x))"
proof (induction k arbitrary: x)
  case 0
  have z1: "drop_bit 1 x = 0"
    using 0 by (simp only: drop_bit_0_iff) simp
  have z7: "drop_bit 7 x = 0"
    using 0 by (simp only: drop_bit_0_iff) simp
  have "x = 0 \<or> x = 1" using 0 by (auto simp: word_unat_eq_iff)
  then have t: "take_bit 1 (ucast x :: byte) = take_bit 7 (ucast x)" by auto
  show ?case
    using z1 z7 t by (simp add: cont_bytes.simps [of x] terminated_def cont_byte_def)
next
  case (Suc k)
  show ?case
  proof (cases "drop_bit 7 x = 0")
    case True
    then show ?thesis by (simp add: cont_bytes.simps [of x] terminated_def cont_byte_def)
  next
    case False
    have "unat (drop_bit 7 x) < 2 ^ (7 * k + 1)"
      using Suc.prems
      by (simp only: unat_drop_bit) (simp add: div_less_iff_less_mult power_add)
    from Suc.IH [OF this] False show ?thesis
      by (simp add: cont_bytes.simps [of x] terminated_def cont_byte_def Let_def)
  qed
qed

lemma EncodeUInt_eq: "EncodeUInt x = Ret (terminated (cont_bytes x))"
proof -
  have s: "bitShifts = replicate 9 7 @ [1]" by (simp add: bitShifts_def eval_nat_numeral)
  have "unat x < 2 ^ (7 * 9 + 1)" using unsigned_less [of x] by simp
  then show ?thesis unfolding EncodeUInt_def s by (rule EncodeUInt_loop_eq)
qed

lemma DecodeUInt_loop_append:
  "DecodeUInt_loop i v (xs @ ys) =
   bind_outcome (DecodeUInt_loop i v xs) (\<lambda>w. DecodeUInt_loop (i + length xs) w ys)"
  by (induction xs arbitrary: i v) auto

lemma decode_groups:
  fixes f :: "byte \<Rightarrow> byte"
  assumes f: "\<And>x. (ucast (take_bit 7 (f (cont_byte x))) :: u64) = take_bit 7 x"
  shows "DecodeUInt_loop i v (butlast (cont_bytes x) @ [f (last (cont_bytes x))]) =
    Ret (v OR push_bit (7 * i) x)"
proof (induction x arbitrary: i v rule: cont_bytes.induct)
  case (1 x)
  show ?case
  proof (cases "drop_bit 7 x = 0")
    case True
    then have "take_bit 7 x = x" using or_split_7 [of x] by simp
    with True show ?thesis by (simp add: cont_bytes.simps [of x] f)
  next
    case False
    have "v OR push_bit (7 * i) (take_bit 7 x) OR push_bit (7 * Suc i) (drop_bit 7 x) =
        v OR push_bit (7 * i) (take_bit 7 x OR push_bit 7 (drop_bit 7 x))"
      by (rule bit_word_eqI) (auto simp: bit_simps)
    with 1 [OF False] False show ?thesis
      by (simp add: cont_bytes.simps [of x] cont_byte_payload or_split_7 or.assoc)
  qed
qed

lemma decode_terminated: "DecodeUInt (terminated (cont_bytes x)) = Ret x"
  using decode_groups [where f = "\<lambda>b. b AND 0x7F" and i = 0 and v = 0 and x = x, OF term_byte_payload]
  by (simp add: DecodeUInt_def terminated_def)

lemma decode_unterminated: "DecodeUInt_loop 0 0 (cont_bytes x) = Ret x"
  using decode_groups [where f = id and i = 0 and v = 0 and x = x] cont_byte_payload
  by simp

section \<open>Properties\<close>

lemma zigzag_inverse:
  fixes x :: u64
  defines "u \<equiv> push_bit 1 x XOR signed_drop_bit 63 x"
  shows "drop_bit 1 u XOR signed_drop_bit 63 (push_bit 63 u) = x"
proof (rule bit_word_eqI)
  have hi: "\<not> bit x m" if "64 \<le> m" for m
    using that bit_imp_le_length [of x m] by auto
  have u: "bit u m \<longleftrightarrow> m < 64 \<and> (0 < m \<and> bit x (m - 1)) \<noteq> bit x 63" for m
    using hi [of "63 + m"] hi [of "m - 1"]
    by (simp only: u_def bit_xor_iff bit_push_bit_iff bit_signed_drop_bit_iff) (auto simp: Suc_le_eq)
  fix n :: nat
  assume "n < LENGTH(64)"
  then show "bit (drop_bit 1 u XOR signed_drop_bit 63 (push_bit 63 u)) n = bit x n"
    by (cases "n = 63", simp_all only: bit_xor_iff bit_drop_bit_eq bit_push_bit_iff
        bit_signed_drop_bit_iff o_def u) (auto simp: le_Suc_eq dest: hi)
qed

text \<open>The reversed writer stores the groups backwards from the end of the buffer.\<close>

lemma update_before_suffix:
  "i < length buf \<Longrightarrow>
   (take (length buf - i) buf @ s)[length buf - i - 1 := b] = take (length buf - Suc i) buf @ b # s"
proof -
  assume "i < length buf"
  then have "take (length buf - i) buf =
      take (length buf - Suc i) buf @ [buf ! (length buf - Suc i)]"
    by (metis Suc_diff_Suc take_Suc_conv_app_nth diff_less less_Suc_eq_0_disj
        length_greater_0_conv list.size(3) not_less_zero zero_less_Suc)
  then show ?thesis by (simp add: list_update_append)
qed

lemma EncodeUIntRev_loop_eq:
  assumes "unat x < 2 ^ (7 * k)" and "0 < k" and "length s = i" and "i \<le> length buf"
  shows "EncodeUIntRev_loop (replicate k 7 @ ns) i x (take (length buf - i) buf @ s) =
    (if i + length (cont_bytes x) \<le> length buf
     then Ret (take (length buf - i - length (cont_bytes x)) buf @ rev (cont_bytes x) @ s)
     else Panic)"
  using assms
proof (induction k arbitrary: x i s)
  case 0
  then show ?case by simp
next
  case (Suc k)
  show ?case
  proof (cases "i < length buf")
    case False
    with Suc.prems have "i = length buf" and "length s = length buf" by simp_all
    then show ?thesis by (simp add: cont_bytes.simps [of x])
  next
    case i: True
    have len: "length (take (length buf - i) buf @ s) = length buf"
      using i Suc.prems(3) by simp
    note upd = update_before_suffix [OF i, of s "cont_byte x", unfolded cont_byte_def]
    show ?thesis
    proof (cases "drop_bit 7 x = 0")
      case True
      with i len upd show ?thesis
        by (simp add: cont_bytes.simps [of x] cont_byte_def)
    next
      case False
      have x': "unat (drop_bit 7 x) < 2 ^ (7 * k)"
        using Suc.prems(1) by (simp only: unat_drop_bit) (simp add: div_less_iff_less_mult power_add)
      with False have k: "0 < k" by (cases k) (auto simp: unat_eq_0)
      have "EncodeUIntRev_loop (replicate k 7 @ ns) (Suc i) (drop_bit 7 x)
          (take (length buf - Suc i) buf @ cont_byte x # s) =
        (if Suc i + length (cont_bytes (drop_bit 7 x)) \<le> length buf
         then Ret (take (length buf - Suc i - length (cont_bytes (drop_bit 7 x))) buf @
           rev (cont_bytes (drop_bit 7 x)) @ cont_byte x # s)
         else Panic)"
        using Suc.IH [OF x' k, of "cont_byte x # s" "Suc i"] Suc.prems(3) i by simp
      with i len upd False show ?thesis
        by (simp add: cont_bytes.simps [of x] cont_byte_def)
    qed
  qed
qed

lemma bit_shifts_nine: "bitShifts = replicate 9 7 @ [1]"
  by (simp add: bitShifts_def eval_nat_numeral)

lemma GetEncodeUIntSize_cases:
  defines "n x \<equiv> unat (GetEncodeUIntSize x)"
  assumes "unat x < 2 ^ 35"
  shows "length (cont_bytes x) \<le> n x" and "n x \<le> Suc (length (cont_bytes x))" and "n x \<le> 5"
proof -
  have L1: "length (cont_bytes x) \<le> 1 \<longleftrightarrow> unat x < 128"
    using length_cont_bytes [of x 0] by simp
  have L2: "length (cont_bytes x) \<le> 2 \<longleftrightarrow> unat x < 16384"
    using length_cont_bytes [of x 1] by (simp add: Suc_1 flip: numeral_2_eq_2)
  have L3: "length (cont_bytes x) \<le> 3 \<longleftrightarrow> unat x < 2097152"
    using length_cont_bytes [of x 2] by simp
  have L4: "length (cont_bytes x) \<le> 4 \<longleftrightarrow> unat x < 268435456"
    using length_cont_bytes [of x 3] by simp
  have L5: "length (cont_bytes x) \<le> 5"
    using length_cont_bytes [of x 4] assms(2) by simp
  have N: "n x = (if unat x \<le> 127 then 1 else if unat x < 16383 then 2
      else if unat x < 2097151 then 3 else if unat x < 268435455 then 4 else 5)"
    by (simp add: n_def GetEncodeUIntSize_def word_le_nat_alt word_less_nat_alt)
  have pos: "0 < length (cont_bytes x)" by simp
  show "length (cont_bytes x) \<le> n x" unfolding N using L1 L2 L3 L4 L5 by auto
  show "n x \<le> Suc (length (cont_bytes x))" unfolding N using L1 L2 L3 L4 pos by auto
  show "n x \<le> 5" unfolding N by simp
qed

lemma EncodeUIntRev_loop_overflow:
  "length buf - i < k \<Longrightarrow> i \<le> length buf \<Longrightarrow> length buf - i < length (cont_bytes x) \<Longrightarrow>
   EncodeUIntRev_loop (replicate k 7 @ ns) i x buf = Panic"
proof (induction k arbitrary: i x buf)
  case 0
  then show ?case by simp
next
  case (Suc k)
  show ?case
  proof (cases "i < length buf")
    case True
    with Suc.prems(3) have nz: "drop_bit 7 x \<noteq> 0"
      and len: "length buf - Suc i < length (cont_bytes (drop_bit 7 x))"
      by (auto simp: cont_bytes.simps [of x] split: if_splits)
    with True Suc.IH [of "buf[length buf - i - 1 := cont_byte x]" "Suc i" "drop_bit 7 x"] Suc.prems(1)
    show ?thesis by (simp add: cont_byte_def Let_def)
  qed simp
qed

lemma Rev_too_small:
  assumes "2 ^ 35 \<le> unat x"
  shows "EncodeUIntRevInPlace x (replicate (unat (GetEncodeUIntSize x)) 0) = Panic"
proof -
  have n: "unat (GetEncodeUIntSize x) = 5"
    using assms by (simp add: GetEncodeUIntSize_def word_le_nat_alt word_less_nat_alt)
  have "\<not> length (cont_bytes x) \<le> Suc 4"
    using length_cont_bytes [of x 4] assms by simp
  then have "EncodeUIntRev_loop (replicate 9 7 @ [1]) 0 x (replicate 5 0) = Panic"
    by (intro EncodeUIntRev_loop_overflow) simp_all
  then show ?thesis by (simp only: EncodeUIntRevInPlace_def n bit_shifts_nine bind_outcome.simps)
qed

text \<open>In a big enough buffer only the bytes behind the first padding byte are written.\<close>

lemma EncodeUIntRevInPlace_eq:
  assumes x: "unat x < 2 ^ 35" and len: "length buf = unat (GetEncodeUIntSize x)"
  shows "EncodeUIntRevInPlace x buf = Ret
    (if length (cont_bytes x) = length buf then rev (terminated (cont_bytes x))
     else (hd buf AND 0x7F) # rev (cont_bytes x))"
proof -
  note n = GetEncodeUIntSize_cases [OF x, folded len]
  have "(2::nat) ^ 35 \<le> 2 ^ (7 * 9)" by (rule power_increasing) auto
  with x have x9: "unat x < 2 ^ (7 * 9)" by (rule less_le_trans)
  have loop: "EncodeUIntRev_loop bitShifts 0 x buf =
      Ret (take (length buf - length (cont_bytes x)) buf @ rev (cont_bytes x))"
    using EncodeUIntRev_loop_eq [OF x9, of "[]" 0 buf "[1]"] n(1)
    by (simp add: bit_shifts_nine)
  show ?thesis
  proof (cases "length (cont_bytes x) = length buf")
    case True
    have "rev (cont_bytes x) = last (cont_bytes x) # rev (butlast (cont_bytes x))"
      by (metis append_butlast_last_id cont_bytes_ne rev.simps(2) rev_rev_ident rev_append rev_singleton_conv append_Cons append_Nil)
    with loop True show ?thesis by (simp add: EncodeUIntRevInPlace_def terminated_def)
  next
    case False
    then have "length buf - length (cont_bytes x) = 1" using n(1,2) by simp
    moreover from this have "take 1 buf = [hd buf]" by (cases buf) auto
    ultimately show ?thesis using loop False by (simp add: EncodeUIntRevInPlace_def)
  qed
qed

text \<open>Encoding an unsigned 64-bit integer never panics, yields at most ten bytes of which
  exactly the last has a clear top bit, and decoding the bytes gives the integer back.\<close>

lemma EncodeUInt_roundtrip:
  "\<exists>bs. EncodeUInt x = Ret bs \<and> DecodeUInt bs = Ret x \<and> bs \<noteq> [] \<and> length bs \<le> 10 \<and>
     list_all (\<lambda>b. bit b 7) (butlast bs) \<and> \<not> bit (last bs) 7"
proof -
  have "length (cont_bytes x) \<le> 10"
    using length_cont_bytes [of x 9] unsigned_less [of x, where 'a = nat] by simp
  moreover have "list_all (\<lambda>b. bit b 7) (butlast (cont_bytes x))"
    by (auto simp: list_all_iff dest: in_set_butlastD cont_bytes_bit7)
  moreover have "\<not> bit (last (cont_bytes x) AND 0x7F) 7"
    by (simp only: bit_and_iff bit_0x7F) simp
  ultimately show ?thesis
    using cont_bytes_ne [of x] decode_terminated [of x]
    by (auto simp: EncodeUInt_eq terminated_def)
qed

text \<open>C8. The zig-zag encoding of signed 64-bit integers round-trips on every value, the
  minimum included.\<close>

theorem EncodeInt_roundtrip: "bind_outcome (EncodeInt x) DecodeInt = Ret x"
  by (simp only: EncodeInt_def DecodeInt_def EncodeUInt_eq decode_terminated bind_outcome.simps
      zigzag_inverse)

text \<open>With a zeroed buffer of the size that \<open>GetEncodeUIntSize\<close> announces, the reversed
  in-place encoding of any number below \<open>2 ^ 35\<close> fits, decodes to the number, and is framed so
  that walking back over bytes with a set top bit stops exactly at its first byte; for larger
  numbers the announced size is too small and the encoder indexes out of the buffer.\<close>

lemma EncodeUIntRevInPlace_sized:
  "if unat x < 2 ^ 35
   then \<exists>b bs. EncodeUIntRevInPlace x (replicate (unat (GetEncodeUIntSize x)) 0) = Ret (b # bs) \<and>
     DecodeUIntRev (b # bs) = Ret x \<and> length (b # bs) = unat (GetEncodeUIntSize x) \<and>
     \<not> bit b 7 \<and> list_all (\<lambda>c. bit c 7) bs
   else EncodeUIntRevInPlace x (replicate (unat (GetEncodeUIntSize x)) 0) = Panic"
proof (cases "unat x < 2 ^ 35")
  case True
  let ?n = "unat (GetEncodeUIntSize x)" and ?c = "cont_bytes x"
  note n = GetEncodeUIntSize_cases [OF True]
  have "0 < length ?c" by simp
  with n(1) have pos: "replicate ?n (0 :: byte) \<noteq> []" by (simp del: length_greater_0_conv)
  note eq = EncodeUIntRevInPlace_eq [OF True, of "replicate ?n 0", simplified]
  show ?thesis
  proof (cases "length ?c = ?n")
    case full: True
    have "rev (terminated ?c) = (last ?c AND 0x7F) # rev (butlast ?c)"
      by (simp add: terminated_def)
    moreover have "DecodeUIntRev (rev (terminated ?c)) = Ret x"
      using decode_terminated [of x] by (simp add: DecodeUIntRev_def DecodeUInt_def)
    moreover have "\<not> bit (last ?c AND 0x7F) 7"
      by (simp only: bit_and_iff bit_0x7F) simp
    moreover have "list_all (\<lambda>c. bit c 7) (rev (butlast ?c))"
      by (auto simp: list_all_iff dest: in_set_butlastD cont_bytes_bit7)
    ultimately show ?thesis using True full eq n(1) \<open>0 < length ?c\<close>
      by (simp del: length_greater_0_conv)
  next
    case padded: False
    then have len: "Suc (length ?c) = ?n" using n by linarith
    have "DecodeUIntRev (0 # rev ?c) = Ret x"
      by (simp add: DecodeUIntRev_def DecodeUInt_loop_append decode_unterminated)
    moreover have "list_all (\<lambda>c. bit c 7) (rev ?c)"
      by (auto simp: list_all_iff dest: cont_bytes_bit7)
    ultimately show ?thesis using True padded eq pos len by simp
  qed
next
  case False
  then show ?thesis using Rev_too_small [of x] by simp
qed

text \<open>The announced size of 16383 is one byte too large, and the encoder leaves that byte as it
  finds it (but for its top bit): in a buffer that holds a stale byte \<open>s\<close> the number decodes to
  16383 plus \<open>s mod 128\<close> shifted by fourteen bits.\<close>

lemma EncodeUIntRevInPlace_stale:
  "unat (GetEncodeUIntSize 16383) = 3 \<and>
   bind_outcome (EncodeUIntRevInPlace 16383 [s, t, u]) DecodeUIntRev =
     Ret (16383 OR push_bit 14 (ucast (take_bit 7 s)))"
proof -
  have c: "cont_bytes 16383 = [0xFF, 0xFF]"
    by (simp add: cont_bytes.simps cont_byte_def)
  have "EncodeUIntRevInPlace 16383 [s, t, u] = Ret [s AND 0x7F, 0xFF, 0xFF]"
    using EncodeUIntRevInPlace_eq [of 16383 "[s, t, u]"] by (simp add: c GetEncodeUIntSize_def)
  moreover have "take_bit 7 (s AND 0x7F) = take_bit 7 s"
    by (rule bit_word_eqI) (simp only: bit_simps bit_0x7F, auto)
  moreover have "GetEncodeUIntSize 16383 = 3" by (simp add: GetEncodeUIntSize_def)
  moreover have "(0x7F :: u64) OR 0x3F80 = 0x3FFF" by simp
  ultimately show ?thesis by (simp add: DecodeUIntRev_def or.assoc [symmetric] del: or_numerals)
qed

end
