(* ===== verification/RegMap.thy ===== *)
theory RegMap
  imports Prelude
begin

text \<open>
  The tables of \<^verbatim>\<open>internal/common\<close>. \<open>itable\<close> is the contract of the Go interface \<open>ITable\<close>
  (\<^verbatim>\<open>map.go\<close>); \<open>RegMap\<close> (\<^verbatim>\<open>regmap.go\<close>) is its implementation, a \<^verbatim>\<open>sync.Map\<close> next to an atomic
  counter. \<open>Put\<close> and \<open>Delete\<close> move the counter whether or not the key was present, so \<open>Len\<close>
  is the difference of the numbers of calls, not the number of keys. The order in which
  \<^verbatim>\<open>sync.Map.Range\<close> delivers the entries is unspecified: \<open>RegAll\<close> takes it as the list of keys.
\<close>

record ('k, 'v) RegMap =
  reg_M :: "'k \<rightharpoonup> 'v"
  reg_count :: int

definition NewRegMap :: "('k, 'v) RegMap" where
  "NewRegMap = \<lparr>reg_M = Map.empty, reg_count = 0\<rparr>"

definition RegPut :: "'k \<Rightarrow> 'v \<Rightarrow> ('k, 'v) RegMap \<Rightarrow> ('k, 'v) RegMap" where
  "RegPut k v t = t\<lparr>reg_M := (reg_M t)(k \<mapsto> v), reg_count := reg_count t + 1\<rparr>"

definition RegGet :: "('k, 'v) RegMap \<Rightarrow> 'k \<Rightarrow> 'v option" where
  "RegGet t k = reg_M t k"

definition RegDelete :: "'k \<Rightarrow> ('k, 'v) RegMap \<Rightarrow> ('k, 'v) RegMap" where
  "RegDelete k t = t\<lparr>reg_M := (reg_M t)(k := None), reg_count := reg_count t - 1\<rparr>"

definition RegLen :: "('k, 'v) RegMap \<Rightarrow> int" where
  "RegLen t = reg_count t"

definition RegAll :: "'k list \<Rightarrow> ('k, 'v) RegMap \<Rightarrow> ('k \<times> 'v) list" where
  "RegAll ord t = List.map_filter (\<lambda>k. map_option (Pair k) (reg_M t k)) ord"

section \<open>The interface\<close>

locale itable =
  fixes empty :: 't
    and put :: "'k \<Rightarrow> 'v \<Rightarrow> 't \<Rightarrow> 't"
    and get :: "'t \<Rightarrow> 'k \<Rightarrow> 'v option"
    and del :: "'k \<Rightarrow> 't \<Rightarrow> 't"
    and all :: "'k list \<Rightarrow> 't \<Rightarrow> ('k \<times> 'v) list"
  assumes get_empty: "get empty k = None"
    and get_put: "get (put k v t) k' = (if k' = k then Some v else get t k')"
    and get_del: "get (del k t) k' = (if k' = k then None else get t k')"
    and all_set: "set (all ord t) = {(k, v). k \<in> set ord \<and> get t k = Some v}"
    and all_distinct: "distinct ord \<Longrightarrow> distinct (map fst (all ord t))"
begin

lemma get_put_put: "get (put k v (put k w t)) = get (put k v t)"
  by (rule ext) (simp add: get_put)

lemma get_del_put: "get (del k (put k v t)) = get (del k t)"
  by (rule ext) (simp add: get_put get_del)

lemma dom_put: "dom (get (put k v t)) = insert k (dom (get t))"
  by (auto simp: dom_def get_put)

lemma dom_del: "dom (get (del k t)) = dom (get t) - {k}"
  by (auto simp: dom_def get_del)

text \<open>Deleting every key of a list, and a full enumeration.\<close>

lemma get_fold_del: "get (fold del ks t) k = (if k \<in> set ks then None else get t k)"
  by (induction ks arbitrary: t) (auto simp: get_del)

lemma all_complete: "set ord = dom (get t) \<Longrightarrow> set (all ord t) = {(k, v). get t k = Some v}"
  by (auto simp: all_set)

lemma keys_all: "set ord = dom (get t) \<Longrightarrow> set (map fst (all ord t)) = dom (get t)"
  by (force simp: all_set)

end

lemmas reg_defs = NewRegMap_def RegPut_def RegGet_def RegDelete_def RegLen_def RegAll_def

interpretation reg: itable NewRegMap RegPut RegGet RegDelete RegAll
  by unfold_locales
    (simp_all add: reg_defs set_map_filter_keys distinct_map_filter_keys)

declare reg.get_empty [simp] reg.get_put [simp] reg.get_del [simp]

lemma RegGet_M: "RegGet t = reg_M t"
  by (rule ext) (simp add: RegGet_def)

lemma RegLen_simps [simp]:
  "RegLen NewRegMap = 0" "RegLen (RegPut k v t) = RegLen t + 1" "RegLen (RegDelete k t) = RegLen t - 1"
  by (simp_all add: reg_defs)

text \<open>The counter against the number of keys: what one operation adds to the difference.\<close>

definition reg_excess :: "('k, 'v) RegMap \<Rightarrow> int" where
  "reg_excess t = RegLen t - int (card (dom (RegGet t)))"

lemma reg_excess_put:
  "finite (dom (RegGet t)) \<Longrightarrow>
   reg_excess (RegPut k v t) = reg_excess t + (if RegGet t k = None then 0 else 1)"
  by (auto simp: reg_excess_def reg.dom_put card_insert_if domIff)

lemma reg_excess_delete:
  "finite (dom (RegGet t)) \<Longrightarrow>
   reg_excess (RegDelete k t) = reg_excess t - (if RegGet t k = None then 1 else 0)"
proof -
  assume fin: "finite (dom (RegGet t))"
  show ?thesis
  proof (cases "RegGet t k")
    case None
    then have "dom (RegGet t) - {k} = dom (RegGet t)" by auto
    with None show ?thesis by (simp add: reg_excess_def reg.dom_del)
  next
    case (Some v)
    then have "card (dom (RegGet t)) = Suc (card (dom (RegGet t) - {k}))"
      using card_Suc_Diff1 [OF fin, of k] by (simp add: domI)
    with Some show ?thesis by (simp add: reg_excess_def reg.dom_del)
  qed
qed

end
