(* ===== verification/EvictionHeap.thy ===== *)
theory EvictionHeap
  imports Prelude "HOL-Library.Multiset"
begin

text \<open>
  The bounded heap of \<^verbatim>\<open>internal/store/batchevictionlru.go\<close>: \<open>evictionItemHeap\<close> is a slice
  ordered by \<^verbatim>\<open>container/heap\<close> with the most recently accessed item at the root, and
  \<open>EvictVictims\<close> keeps in it the \<open>toEvict\<close> least recently accessed entries of one pass over
  the store. The sift loops are those of \<^verbatim>\<open>container/heap\<close>; the lemmas show that they keep the
  heap order and the contents, and that the selection is right.
\<close>

record evictionItem =
  ei_key :: string
  ei_lastAccessed :: int

definition Less :: "evictionItem list \<Rightarrow> nat \<Rightarrow> nat \<Rightarrow> bool" where
  "Less h i j \<longleftrightarrow> ei_lastAccessed (h ! i) > ei_lastAccessed (h ! j)"

definition Swap :: "evictionItem list \<Rightarrow> nat \<Rightarrow> nat \<Rightarrow> evictionItem list" where
  "Swap h i j = h[i := h ! j, j := h ! i]"

text \<open>\<^verbatim>\<open>heap.up\<close>: with \<open>j = 0\<close> the parent index \<^verbatim>\<open>(j - 1) / 2\<close> is 0 and the loop stops.\<close>

function heap_up :: "evictionItem list \<Rightarrow> nat \<Rightarrow> evictionItem list" where
  "heap_up h j =
     (let i = (j - 1) div 2 in
      if i = j \<or> \<not> Less h j i then h else heap_up (Swap h i j) i)"
  by pat_completeness auto
termination by (relation "measure snd") auto

declare heap_up.simps [simp del]

text \<open>\<^verbatim>\<open>heap.down\<close>: the child that comes first, and the sift; \<open>n\<close> bounds the part of the slice
  it orders.\<close>

definition first_child :: "evictionItem list \<Rightarrow> nat \<Rightarrow> nat \<Rightarrow> nat" where
  "first_child h i n =
     (let j1 = 2 * i + 1; j2 = j1 + 1 in if j2 < n \<and> Less h j2 j1 then j2 else j1)"

lemma first_child_greater: "i < first_child h i n"
  by (simp add: first_child_def Let_def)

function heap_down :: "evictionItem list \<Rightarrow> nat \<Rightarrow> nat \<Rightarrow> evictionItem list" where
  "heap_down h i n =
     (if 2 * i + 1 \<ge> n then h
      else (let j = first_child h i n in
        if \<not> Less h j i then h else heap_down (Swap h i j) j n))"
  by pat_completeness auto
termination
  by (relation "measure (\<lambda>(h, i, n). n - i)")
    (auto intro: diff_less_mono2 [OF first_child_greater])

declare heap_down.simps [simp del]

definition push :: "evictionItem list \<Rightarrow> evictionItem \<Rightarrow> evictionItem list" where
  "push h item = heap_up (h @ [item]) (length h)"

text \<open>\<^verbatim>\<open>heap.Pop\<close> on a non-empty slice: the popped item and the rest.\<close>

definition pop :: "evictionItem list \<Rightarrow> evictionItem \<times> evictionItem list" where
  "pop h = (let n = length h - 1; h' = heap_down (Swap h 0 n) 0 n in (last h', butlast h'))"

text \<open>The callback of the pass, and the loop that empties the heap.\<close>

definition offer :: "nat \<Rightarrow> evictionItem \<Rightarrow> evictionItem list \<Rightarrow> evictionItem list" where
  "offer toEvict item h =
     (if length h < toEvict then push h item
      else if ei_lastAccessed item < ei_lastAccessed (h ! 0) then push (snd (pop h)) item
      else h)"

fun drain :: "nat \<Rightarrow> evictionItem list \<Rightarrow> evictionItem list" where
  "drain 0 h = []"
| "drain (Suc fuel) h = (if h = [] then [] else let (x, h') = pop h in x # drain fuel h')"

definition select_victims :: "nat \<Rightarrow> evictionItem list \<Rightarrow> evictionItem list" where
  "select_victims toEvict items = (let h = fold (offer toEvict) items [] in drain (length h) h)"

section \<open>Heap order\<close>

abbreviation la :: "evictionItem list \<Rightarrow> nat \<Rightarrow> int" where
  "la h i \<equiv> ei_lastAccessed (h ! i)"

definition parent :: "nat \<Rightarrow> nat" where
  "parent i = (i - 1) div 2"

lemma parent_less: "0 < i \<Longrightarrow> parent i < i"
  by (simp add: parent_def)

lemma child_cases: "0 < k \<Longrightarrow> parent k = i \<longleftrightarrow> k = 2 * i + 1 \<or> k = 2 * i + 2"
  by (auto simp: parent_def)

lemma parent_self: "parent j = j \<longleftrightarrow> j = 0"
  by (auto simp: parent_def)

lemmas heap_up_unfold = heap_up.simps [folded parent_def, unfolded Let_def]

definition is_heap :: "evictionItem list \<Rightarrow> nat \<Rightarrow> bool" where
  "is_heap h n \<longleftrightarrow> (\<forall>i. 0 < i \<and> i < n \<longrightarrow> la h i \<le> la h (parent i))"

definition up_inv :: "evictionItem list \<Rightarrow> nat \<Rightarrow> nat \<Rightarrow> bool" where
  "up_inv h j n \<longleftrightarrow>
     (\<forall>i. 0 < i \<and> i < n \<and> i \<noteq> j \<longrightarrow> la h i \<le> la h (parent i)) \<and>
     (\<forall>i. 0 < i \<and> i < n \<and> parent i = j \<and> 0 < j \<longrightarrow> la h i \<le> la h (parent j))"

definition down_inv :: "evictionItem list \<Rightarrow> nat \<Rightarrow> nat \<Rightarrow> bool" where
  "down_inv h j n \<longleftrightarrow>
     (\<forall>i. 0 < i \<and> i < n \<and> parent i \<noteq> j \<longrightarrow> la h i \<le> la h (parent i)) \<and>
     (\<forall>i. 0 < i \<and> i < n \<and> parent i = j \<and> 0 < j \<longrightarrow> la h i \<le> la h (parent j))"

lemma length_Swap [simp]: "length (Swap h i j) = length h"
  by (simp add: Swap_def)

lemma mset_Swap: "i < length h \<Longrightarrow> j < length h \<Longrightarrow> mset (Swap h i j) = mset h"
  by (simp add: Swap_def mset_swap)

lemma nth_Swap:
  "i < length h \<Longrightarrow> j < length h \<Longrightarrow>
   Swap h i j ! k = (if k = j then h ! i else if k = i then h ! j else h ! k)"
  by (simp add: Swap_def nth_list_update)

lemma heap_up_length_mset:
  "j < length h \<Longrightarrow> length (heap_up h j) = length h \<and> mset (heap_up h j) = mset h"
proof (induction h j rule: heap_up.induct)
  case (1 h j)
  have "parent j < length h" using 1(2) by (simp add: parent_def)
  with 1 show ?case
    by (auto simp: heap_up_unfold [of h j] mset_Swap parent_def Let_def)
qed

lemma heap_up_heap: "j < n \<Longrightarrow> n = length h \<Longrightarrow> up_inv h j n \<Longrightarrow> is_heap (heap_up h j) n"
proof (induction h j rule: heap_up.induct)
  case (1 h j)
  show ?case
  proof (cases "parent j = j \<or> \<not> Less h j (parent j)")
    case True
    then have "is_heap h n"
      using 1(4) by (auto simp: is_heap_def up_inv_def Less_def not_less parent_self)
    with True show ?thesis by (simp add: heap_up_unfold [of h j])
  next
    case False
    then have pj: "parent j < j" "0 < j" and lt: "la h (parent j) < la h j"
      using parent_less [of j] by (auto simp: Less_def parent_self)
    let ?h = "Swap h (parent j) j"
    have nth: "?h ! k = (if k = j then h ! parent j else if k = parent j then h ! j else h ! k)" for k
      using 1(2,3) pj by (simp add: nth_Swap)
    have order: "la h i \<le> la h (parent i)" if "0 < i" "i < n" "i \<noteq> j" for i
      using 1(4) that by (simp add: up_inv_def)
    have below: "la h i \<le> la h (parent j)" if "0 < i" "i < n" "parent i = j" for i
      using 1(4) that pj by (simp add: up_inv_def)
    have "up_inv ?h (parent j) n"
      unfolding up_inv_def
    proof (intro conjI allI impI)
      fix i assume i: "0 < i \<and> i < n \<and> i \<noteq> parent j"
      then show "la ?h i \<le> la ?h (parent i)"
        using order [of i] below [of i] lt parent_less [of i] by (auto simp: nth)
    next
      fix i assume i: "0 < i \<and> i < n \<and> parent i = parent j \<and> 0 < parent j"
      moreover have "la h (parent j) \<le> la h (parent (parent j))"
        using order [of "parent j"] i pj 1(2) by auto
      ultimately show "la ?h i \<le> la ?h (parent (parent j))"
        using order [of i] parent_less [of i] parent_less [of "parent j"] pj by (auto simp: nth)
    qed
    with 1(1) [OF refl] 1(2,3) False pj show ?thesis
      by (simp add: heap_up_unfold [of h j] parent_def)
  qed
qed

lemma first_child_less: "2 * i + 1 < n \<Longrightarrow> first_child h i n < n"
  by (simp add: first_child_def Let_def)

lemma parent_first_child: "parent (first_child h i n) = i"
  by (simp add: first_child_def Let_def parent_def)

lemma first_child_max: "0 < k \<Longrightarrow> k < n \<Longrightarrow> parent k = i \<Longrightarrow> la h k \<le> la h (first_child h i n)"
  by (auto simp: child_cases first_child_def Let_def Less_def)

lemma heap_down_props:
  "i < n \<Longrightarrow> n \<le> length h \<Longrightarrow>
   length (heap_down h i n) = length h \<and> mset (heap_down h i n) = mset h \<and>
   (\<forall>k \<ge> n. heap_down h i n ! k = h ! k)"
proof (induction h i n rule: heap_down.induct)
  case (1 h i n)
  show ?case
  proof (cases "2 * i + 1 \<ge> n \<or> \<not> Less h (first_child h i n) i")
    case True
    then show ?thesis by (auto simp: heap_down.simps [of h i n] Let_def)
  next
    case False
    let ?j = "first_child h i n"
    have e: "heap_down h i n = heap_down (Swap h i ?j) ?j n"
      using False by (subst heap_down.simps) (simp add: Let_def)
    have j: "?j < n" using False by (intro first_child_less) simp
    with 1(1) [OF _ refl] False 1(2,3) show ?thesis by (auto simp: e mset_Swap nth_Swap)
  qed
qed

lemma heap_down_heap:
  "i < n \<Longrightarrow> n \<le> length h \<Longrightarrow> down_inv h i n \<Longrightarrow> is_heap (heap_down h i n) n"
proof (induction h i n rule: heap_down.induct)
  case (1 h i n)
  let ?j = "first_child h i n"
  have order: "la h k \<le> la h (parent k)" if "0 < k" "k < n" "parent k \<noteq> i" for k
    using 1(4) that by (simp add: down_inv_def)
  show ?case
  proof (cases "2 * i + 1 \<ge> n \<or> \<not> Less h ?j i")
    case True
    have "la h k \<le> la h (parent k)" if k: "0 < k" "k < n" for k
    proof (cases "parent k = i")
      case c: True
      with k have "\<not> n \<le> 2 * i + 1" by (auto simp: child_cases)
      with True first_child_max [OF k c, of h] c show ?thesis by (auto simp: Less_def)
    qed (use k order in auto)
    moreover have "heap_down h i n = h" using True by (auto simp: heap_down.simps [of h i n] Let_def)
    ultimately show ?thesis by (simp add: is_heap_def)
  next
    case False
    then have j: "?j < n" "0 < ?j" "i < ?j" and lt: "la h i < la h ?j"
      using first_child_less [of i n h] first_child_greater [of i h n] by (auto simp: Less_def)
    let ?h = "Swap h i ?j"
    have nth: "?h ! k = (if k = ?j then h ! i else if k = i then h ! ?j else h ! k)" for k
      using 1(2,3) j by (simp add: nth_Swap)
    have "down_inv ?h ?j n"
      unfolding down_inv_def
    proof (intro conjI allI impI)
      fix k assume k: "0 < k \<and> k < n \<and> parent k \<noteq> ?j"
      have "la h k \<le> la h (parent i)" if "parent k = i" "0 < i"
        using 1(4) that k by (simp add: down_inv_def)
      moreover have "la h ?j \<le> la h (parent i)" if "0 < i"
        using 1(4) that j parent_first_child [of h i n] by (simp add: down_inv_def)
      ultimately show "la ?h k \<le> la ?h (parent k)"
        using k first_child_max [of k n i h] order [of k] lt parent_less [of k]
          parent_first_child [of h i n] by (auto simp: nth)
    next
      fix k assume k: "0 < k \<and> k < n \<and> parent k = ?j \<and> 0 < ?j"
      then show "la ?h k \<le> la ?h (parent ?j)"
        using order [of k] j parent_less [of k] by (auto simp: nth parent_first_child)
    qed
    moreover have "heap_down h i n = heap_down ?h ?j n"
      using False by (subst heap_down.simps) (simp add: Let_def)
    ultimately show ?thesis using 1(1) [OF _ refl] False 1(2,3) j by simp
  qed
qed

lemma heap_root_max: "is_heap h n \<Longrightarrow> i < n \<Longrightarrow> la h i \<le> la h 0"
proof (induction i rule: less_induct)
  case (less i)
  show ?case
  proof (cases "i = 0")
    case False
    then have "la h (parent i) \<le> la h 0"
      using less.prems parent_less [of i] by (intro less.IH) auto
    moreover have "la h i \<le> la h (parent i)" using False less.prems by (simp add: is_heap_def)
    ultimately show ?thesis by simp
  qed simp
qed

abbreviation heap :: "evictionItem list \<Rightarrow> bool" where
  "heap h \<equiv> is_heap h (length h)"

lemma heap_Nil [simp]: "is_heap h 0"
  by (simp add: is_heap_def)

lemma push_props:
  assumes "heap h"
  shows "heap (push h x)" and "mset (push h x) = add_mset x (mset h)" and "length (push h x) = Suc (length h)"
proof -
  have "up_inv (h @ [x]) (length h) (Suc (length h))"
    unfolding up_inv_def
  proof (intro conjI allI impI)
    fix i assume i: "0 < i \<and> i < Suc (length h) \<and> i \<noteq> length h"
    with assms parent_less [of i] show "la (h @ [x]) i \<le> la (h @ [x]) (parent i)"
      by (simp add: is_heap_def nth_append)
  next
    fix i assume "0 < i \<and> i < Suc (length h) \<and> parent i = length h \<and> 0 < length h"
    with parent_less [of i] show "la (h @ [x]) i \<le> la (h @ [x]) (parent (length h))" by simp
  qed
  then have "is_heap (push h x) (Suc (length h))"
    unfolding push_def by (intro heap_up_heap) auto
  moreover have l: "length (push h x) = Suc (length h) \<and> mset (push h x) = add_mset x (mset h)"
    using heap_up_length_mset [of "length h" "h @ [x]"] by (simp add: push_def)
  ultimately show "heap (push h x)" and "mset (push h x) = add_mset x (mset h)"
    and "length (push h x) = Suc (length h)" by simp_all
qed

lemma pop_props:
  assumes "heap h" and "h \<noteq> []" and "pop h = (x, h')"
  shows "x = h ! 0" and "heap h'" and "mset h = add_mset x (mset h')" and "length h = Suc (length h')"
proof -
  let ?n = "length h - 1"
  let ?s = "Swap h 0 ?n" and ?d = "heap_down (Swap h 0 ?n) 0 ?n"
  have n: "?n < length h" "0 < length h" using assms(2) by simp_all
  have s: "?s ! k = (if k = ?n then h ! 0 else if k = 0 then h ! ?n else h ! k)" for k
    using n by (simp add: nth_Swap)
  have x: "x = last ?d" and h': "h' = butlast ?d" using assms(3) by (simp_all add: pop_def Let_def)
  have d: "length ?d = length h \<and> mset ?d = mset h \<and> ?d ! ?n = h ! 0 \<and> is_heap ?d ?n"
  proof (cases "?n = 0")
    case True
    then have "?d = ?s" by (simp add: heap_down.simps)
    with True n s show ?thesis by (simp add: mset_Swap is_heap_def)
  next
    case False
    have "down_inv ?s 0 ?n"
      unfolding down_inv_def
    proof (intro conjI allI impI)
      fix i assume i: "0 < i \<and> i < ?n \<and> parent i \<noteq> 0"
      with assms(1) parent_less [of i] show "la ?s i \<le> la ?s (parent i)"
        unfolding s by (auto simp: is_heap_def)
    qed simp
    with False heap_down_heap [of 0 ?n ?s] heap_down_props [of 0 ?n ?s] n s
    show ?thesis by (simp add: mset_Swap)
  qed
  then have ne: "?d \<noteq> []" using assms(2) by auto
  show "x = h ! 0" using d ne by (simp add: x last_conv_nth)
  show len: "length h = Suc (length h')" using d n by (simp add: h')
  have "?d = h' @ [x]" using ne by (simp add: x h')
  with d show "mset h = add_mset x (mset h')" by (metis mset_append mset_single_iff add_mset_add_single mset.simps)
  have "h' ! k = ?d ! k" if "k < ?n" for k using that d by (simp add: h' nth_butlast)
  moreover have "parent i < length h'" if "0 < i" "i < length h'" for i
    using that parent_less [of i] by simp
  ultimately show "heap h'" using d len by (simp add: is_heap_def)
qed

section \<open>The selection\<close>

text \<open>After a prefix of the pass the heap holds the smallest items seen, at most \<open>k\<close> of them.\<close>

definition smallest :: "nat \<Rightarrow> evictionItem multiset \<Rightarrow> evictionItem multiset \<Rightarrow> bool" where
  "smallest k items kept \<longleftrightarrow>
     kept \<subseteq># items \<and> size kept = min k (size items) \<and>
     (\<forall>v \<in># kept. \<forall>r \<in># items - kept. ei_lastAccessed v \<le> ei_lastAccessed r)"

lemma root_max_mset: "heap h \<Longrightarrow> v \<in># mset h \<Longrightarrow> ei_lastAccessed v \<le> la h 0"
  using heap_root_max by (fastforce simp: in_set_conv_nth)

lemma smallest_iff:
  "smallest k items kept \<longleftrightarrow>
   (\<exists>rest. items = kept + rest \<and> size kept = min k (size kept + size rest) \<and>
     (\<forall>v \<in># kept. \<forall>r \<in># rest. ei_lastAccessed v \<le> ei_lastAccessed r))"
  by (auto simp: smallest_def mset_subset_eq_exists_conv)

lemma offer_smallest:
  assumes h: "heap h" and sm: "smallest k seen (mset h)" and k: "0 < k"
  shows "heap (offer k x h) \<and> smallest k (add_mset x seen) (mset (offer k x h))"
proof -
  obtain R where seen: "seen = mset h + R" and size: "length h = min k (length h + size R)"
    and le: "\<And>v r. v \<in> set h \<Longrightarrow> r \<in># R \<Longrightarrow> ei_lastAccessed v \<le> ei_lastAccessed r"
    using sm by (auto simp: smallest_iff)
  have root: "ei_lastAccessed v \<le> la h 0" if "v \<in> set h" for v
    using root_max_mset [OF h, of v] that by simp
  consider (room) "length h < k" | (swap) "length h = k" "ei_lastAccessed x < la h 0"
    | (skip) "length h = k" "\<not> ei_lastAccessed x < la h 0"
    using size by linarith
  then show ?thesis
  proof cases
    case room
    then have "size R = 0" using size by linarith
    then have "R = {#}" by simp
    moreover have "offer k x h = push h x" using room by (simp add: offer_def)
    ultimately show ?thesis using push_props [OF h, of x] room by (simp add: smallest_def seen)
  next
    case swap
    then have ne: "h \<noteq> []" using k by auto
    obtain r h' where p: "pop h = (r, h')" by (cases "pop h")
    note pp = pop_props [OF h ne p]
    have r: "r \<in> set h" using pp(1) ne by simp
    have sub: "set h' \<subseteq> set h" using arg_cong [OF pp(3), of set_mset] by auto
    have items: "add_mset x seen = add_mset x (mset h') + add_mset r R"
      using pp(3) by (simp add: seen)
    have "ei_lastAccessed v \<le> ei_lastAccessed w"
      if "v \<in># add_mset x (mset h')" "w \<in># add_mset r R" for v w
      using that swap(2) root [of v] le [of v w] le [OF r, of w] sub pp(1) by fastforce
    moreover have "Suc (length h') = k" using swap(1) pp(4) by simp
    moreover have "offer k x h = push h' x" using swap p by (simp add: offer_def)
    ultimately show ?thesis
      using push_props [OF pp(2), of x] unfolding items smallest_iff
      by (intro conjI exI [of _ "add_mset r R"]) simp_all
  next
    case skip
    have items: "add_mset x seen = mset h + add_mset x R" by (simp add: seen)
    have "ei_lastAccessed v \<le> ei_lastAccessed w" if "v \<in> set h" "w \<in># add_mset x R" for v w
      using that root [of v] le [of v w] skip(2) by auto
    moreover have "offer k x h = h" using skip by (simp add: offer_def)
    ultimately show ?thesis
      using h skip(1) unfolding items smallest_iff
      by (intro conjI exI [of _ "add_mset x R"]) simp_all
  qed
qed

lemma fold_offer_smallest:
  "heap h \<Longrightarrow> smallest k seen (mset h) \<Longrightarrow> 0 < k \<Longrightarrow>
   heap (fold (offer k) items h) \<and> smallest k (seen + mset items) (mset (fold (offer k) items h))"
proof (induction items arbitrary: h seen)
  case (Cons x items)
  then show ?case
    using offer_smallest [of h k seen x] Cons.IH [of "offer k x h" "add_mset x seen"] by simp
qed simp

lemma drain_mset: "heap h \<Longrightarrow> mset (drain (length h) h) = mset h"
proof (induction "length h" arbitrary: h)
  case (Suc n)
  then have ne: "h \<noteq> []" by auto
  obtain x h' where p: "pop h = (x, h')" by (cases "pop h")
  note pp = pop_props [OF Suc.prems ne p]
  from Suc pp show ?case by (metis (no_types, lifting) drain.simps(2) case_prod_conv mset.simps(2) ne nat.inject p)
qed simp

lemma select_victims_smallest:
  assumes "0 < k"
  shows "smallest k (mset items) (mset (select_victims k items))"
proof -
  have "smallest k {#} (mset [])" by (simp add: smallest_def)
  from fold_offer_smallest [OF _ this assms, of items] show ?thesis
    by (simp add: select_victims_def Let_def drain_mset)
qed

end
