(* ===== verification/Errors.thy ===== *)
theory Errors
  imports GoStrings
begin

text \<open>
  The error values of \<^verbatim>\<open>internal/errors/errors.go\<close> as a datatype, with the text that \<open>Error ()\<close>
  prints for each; \<open>ErrorsNew\<close> stands for an ad-hoc \<^verbatim>\<open>errors.New\<close>. The last section holds the
  encoders of the older wire protocol. \<^verbatim>\<open>ErrFormatted\<close> is \<open>ErrGeneral\<close> of an already formatted text.
\<close>

datatype dice_error =
    ErrAuthFailed
  | ErrIntegerOutOfRange
  | ErrInvalidNumberFormat
  | ErrValueOutOfRange
  | ErrOverflow
  | ErrKeyNotFound
  | ErrWrongTypeOperation
  | ErrInvalidHyperLogLogKey
  | ErrCorruptedHyperLogLogObject
  | ErrInvalidJSONPathType
  | ErrHashValueNotInteger
  | ErrInternalServer
  | ErrAuth
  | ErrAborted
  | ErrEmptyCommand
  | ErrInvalidIPAddress
  | ErrInvalidFingerprint
  | ErrKeyDoesNotExist
  | ErrKeyExists
  | ErrUnknownObjectType
  | ErrInvalidValue string string
  | ErrInvalidSyntax string
  | ErrWrongArgumentCount string
  | ErrInvalidExpireTime string
  | ErrInvalidElementPeekCount int
  | ErrGeneral string
  | ErrIOThreadNotFound string
  | ErrJSONPathNotFound string
  | ErrUnsupportedEncoding int
  | ErrUnexpectedType string string
  | ErrUnexpectedJSONPathType string string
  | ErrUnknownCmd string
  | ErrorsNew string

definition quoted :: "string \<Rightarrow> string" where
  "quoted s = [CHR 0x27] @ s @ [CHR 0x27]"

fun Error :: "dice_error \<Rightarrow> string" where
  "Error ErrAuthFailed = ''AUTH failed''"
| "Error ErrIntegerOutOfRange = ''value is not an integer or out of range''"
| "Error ErrInvalidNumberFormat = ''value is not an integer or a float''"
| "Error ErrValueOutOfRange = ''value is out of range''"
| "Error ErrOverflow = ''increment or decrement would overflow''"
| "Error ErrKeyNotFound = ''no such key''"
| "Error ErrWrongTypeOperation =
     ''wrongtype operation against a key holding the wrong kind of value''"
| "Error ErrInvalidHyperLogLogKey = ''WRONGTYPE Key is not a valid HyperLogLog string value''"
| "Error ErrCorruptedHyperLogLogObject = ''INVALIDOBJ Corrupted HLL object detected''"
| "Error ErrInvalidJSONPathType =
     ''WRONGTYPE wrong type of path value - expected string but found integer''"
| "Error ErrHashValueNotInteger = ''hash value is not an integer''"
| "Error ErrInternalServer = ''internal server error, unable to process command''"
| "Error ErrAuth =
     ''AUTH <password> called without any password configured for the default user. '' @
     ''Are you sure your configuration is correct?''"
| "Error ErrAborted = ''server received ABORT command''"
| "Error ErrEmptyCommand = ''empty command''"
| "Error ErrInvalidIPAddress = ''invalid IP address''"
| "Error ErrInvalidFingerprint = ''invalid fingerprint''"
| "Error ErrKeyDoesNotExist =
     ''could not perform this operation on a key that doesn'' @ [CHR 0x27] @ ''t exist''"
| "Error ErrKeyExists = ''key exists''"
| "Error ErrUnknownObjectType = ''unknown object type''"
| "Error (ErrInvalidValue command param) =
     ''invalid value for a parameter in '' @ quoted (ToUpper command) @ '' command for '' @ ToUpper param @
     '' parameter''"
| "Error (ErrInvalidSyntax command) = ''invalid syntax for '' @ quoted (ToUpper command) @ '' command''"
| "Error (ErrWrongArgumentCount command) =
     ''wrong number of arguments for '' @ quoted (ToUpper command) @ '' command''"
| "Error (ErrInvalidExpireTime command) =
     ''invalid expire time in '' @ quoted (ToUpper command) @ '' command''"
| "Error (ErrInvalidElementPeekCount mx) =
     ''number of elements to peek should be a positive number less than '' @ FormatInt mx"
| "Error (ErrGeneral err) = err"
| "Error (ErrIOThreadNotFound tid) = ''io-thread with ID '' @ tid @ '' not found''"
| "Error (ErrJSONPathNotFound path) = ''path '' @ quoted path @ '' does not exist''"
| "Error (ErrUnsupportedEncoding encoding) = ''unsupported encoding: '' @ FormatInt encoding"
| "Error (ErrUnexpectedType expected actual) =
     ''expected '' @ expected @ '' but got another type: '' @ actual"
| "Error (ErrUnexpectedJSONPathType expected actual) =
     ''wrong type of path value - expected '' @ expected @ '' but found '' @ actual"
| "Error (ErrUnknownCmd cmd) = ''ERROR unknown command '' @ quoted cmd"
| "Error (ErrorsNew msg) = msg"

section \<open>The older wire protocol\<close>

definition toEncodedMessage :: "string \<Rightarrow> string" where
  "toEncodedMessage message = message @ [CHR 0x0D, CHR 0x0A]"

definition NewErrWithMessage :: "string \<Rightarrow> string" where
  "NewErrWithMessage errMsg =
     toEncodedMessage (if errMsg = [] \<or> hd errMsg \<noteq> CHR ''-'' then ''-ERR '' @ errMsg else errMsg)"

definition ascii_lower :: "char \<Rightarrow> char" where
  "ascii_lower c = (let n = of_char c :: nat in if 65 \<le> n \<and> n \<le> 90 then char_of (n + 32) else c)"

text \<open>The command names these are called with are ASCII, where \<^verbatim>\<open>strings.ToLower\<close> maps the letters A to Z.\<close>

definition NewErrArity :: "string \<Rightarrow> string" where
  "NewErrArity cmdName =
     NewErrWithMessage (''wrong number of arguments for '' @ quoted (map ascii_lower cmdName) @ '' command'')"

definition NewErrExpireTime :: "string \<Rightarrow> string" where
  "NewErrExpireTime cmdName =
     NewErrWithMessage (''invalid expire time in '' @ quoted (map ascii_lower cmdName) @ '' command'')"

lemma NewErrWithMessage_framed:
  "hd (NewErrWithMessage m) = CHR ''-'' \<and> HasSuffix (NewErrWithMessage m) [CHR 0x0D, CHR 0x0A]"
  by (simp add: NewErrWithMessage_def toEncodedMessage_def hd_append HasSuffix_def)

end
