(* ===== verification/Store.thy ===== *)
theory Store
  imports RegMap EvictionHeap Errors
begin

text \<open>
  The key-value store of a shard: \<^verbatim>\<open>internal/store\<close> over the objects of \<^verbatim>\<open>internal/object\<close>.
  Objects are shared by pointer (a key maps to a pointer, and expiry times are keyed by pointer),
  so the state has an explicit heap. What the outside world answers during one operation is an
  \<open>env\<close>: the clock (one reading per operation), the order in which \<^verbatim>\<open>sync.Map.Range\<close> and a Go map
  deliver their entries (for the maps keyed by a number, a string or a word, which the layers above
  use, too), the pattern matcher of \<^verbatim>\<open>path.Match\<close>, the float conversions of
  \<^verbatim>\<open>strconv\<close> and \<^verbatim>\<open>fmt\<close>, the two hash functions of third-party packages, and the largest timestamp
  \<^verbatim>\<open>EXPIREATMaxAbsTimestamp\<close> that was computed when the process started. Every result holds for
  all of them. The type variable \<open>'z\<close> is the third-party sorted set that an object may hold.
\<close>

section \<open>Objects\<close>

datatype ObjectType =
    ObjTypeString | ObjTypeJSON | ObjTypeByteArray | ObjTypeInt | ObjTypeSet | ObjTypeSSMap
  | ObjTypeSortedSet | ObjTypeCountMinSketch | ObjTypeBF | ObjTypeDequeue | ObjTypeHLL | ObjTypeFloat

fun TypeString :: "ObjectType \<Rightarrow> string" where
  "TypeString ObjTypeString = ''string''"
| "TypeString ObjTypeJSON = ''json''"
| "TypeString ObjTypeByteArray = ''bytes''"
| "TypeString ObjTypeInt = ''int''"
| "TypeString ObjTypeSet = ''set''"
| "TypeString ObjTypeSSMap = ''ssmap''"
| "TypeString ObjTypeSortedSet = ''sortedset''"
| "TypeString ObjTypeCountMinSketch = ''countminsketch''"
| "TypeString ObjTypeBF = ''bf''"
| "TypeString ObjTypeDequeue = ''dequeue''"
| "TypeString ObjTypeHLL = ''hll''"
| "TypeString ObjTypeFloat = ''float''"

text \<open>The dynamic types a value can have. A Go map is an association list with distinct keys.\<close>

datatype 'z Value =
    VInt int
  | VString string
  | VFloat "64 word"
  | VBytes string
  | VSSMap "(string \<times> string) list"
  | VSortedSet 'z

type_synonym ptr = nat

record 'z Obj =
  obj_Type :: ObjectType
  obj_LastAccessedAt :: int
  obj_Value :: "'z Value"

section \<open>State\<close>

record CmdWatchEvent =
  ev_Cmd :: string
  ev_AffectedKey :: string

record EvictionStats =
  totalEvictions :: int
  totalKeysEvicted :: int
  lastEvictionCount :: int
  lastEvictionTimeMs :: int

record PrimitiveEvictionStrategy =
  pes_stats :: EvictionStats
  pes_maxKeys :: int

record 'z Store =
  st_heap :: "ptr \<Rightarrow> 'z Obj"
  st_next :: ptr
  st_store :: "(string, ptr) RegMap"
  st_expires :: "(ptr, int) RegMap"
  st_numKeys :: int
  st_cmdWatchChan :: "CmdWatchEvent list option"
  st_evictionStrategy :: PrimitiveEvictionStrategy
  st_ShardID :: int

record env =
  env_now :: int
  env_range :: "(string \<rightharpoonup> ptr) \<Rightarrow> string list"
  env_rangeSS :: "(string \<times> string) list \<Rightarrow> (string \<times> string) list"
  env_pathMatch :: "string \<Rightarrow> string \<Rightarrow> bool option"
  env_ParseFloat :: "string \<Rightarrow> 64 word option"
  env_FormatFloat :: "64 word \<Rightarrow> string"
  env_xxhash :: "string \<Rightarrow> 64 word"
  env_farm :: "string \<Rightarrow> 64 word"
  env_EXPIREATMax :: int
  env_rangeN :: "nat set \<Rightarrow> nat list"
  env_rangeS :: "string set \<Rightarrow> string list"
  env_rangeW :: "64 word set \<Rightarrow> 64 word list"

definition NewPrimitiveEvictionStrategy :: "int \<Rightarrow> PrimitiveEvictionStrategy" where
  "NewPrimitiveEvictionStrategy maxKeys =
     \<lparr>pes_stats = \<lparr>totalEvictions = 0, totalKeysEvicted = 0, lastEvictionCount = 0,
        lastEvictionTimeMs = 0\<rparr>, pes_maxKeys = maxKeys\<rparr>"

text \<open>The zero object stands for unallocated heap cells; no operation reads one.\<close>

definition zero_obj :: "'z Obj" where
  "zero_obj = \<lparr>obj_Type = ObjTypeString, obj_LastAccessedAt = 0, obj_Value = VString []\<rparr>"

definition NewStore ::
  "CmdWatchEvent list option \<Rightarrow> PrimitiveEvictionStrategy option \<Rightarrow> int \<Rightarrow> 'z Store" where
  "NewStore cmdWatchChan evictionStrategy shardID =
     \<lparr>st_heap = (\<lambda>_. zero_obj), st_next = 0, st_store = NewRegMap, st_expires = NewRegMap,
      st_numKeys = 0, st_cmdWatchChan = cmdWatchChan,
      st_evictionStrategy =
        (case evictionStrategy of Some e \<Rightarrow> e | None \<Rightarrow> NewPrimitiveEvictionStrategy 0),
      st_ShardID = shardID\<rparr>"

definition Reset :: "'z Store \<Rightarrow> 'z Store" where
  "Reset s = s\<lparr>st_numKeys := 0, st_store := NewRegMap, st_expires := NewRegMap\<rparr>"

section \<open>Expiry\<close>

definition hasExpired :: "env \<Rightarrow> ptr \<Rightarrow> 'z Store \<Rightarrow> bool" where
  "hasExpired e obj s =
     (case RegGet (st_expires s) obj of None \<Rightarrow> False | Some exp \<Rightarrow> exp \<le> env_now e)"

definition GetExpiry :: "ptr \<Rightarrow> 'z Store \<Rightarrow> int option" where
  "GetExpiry obj s = RegGet (st_expires s) obj"

definition DelExpiry :: "ptr \<Rightarrow> 'z Store \<Rightarrow> 'z Store" where
  "DelExpiry obj s = s\<lparr>st_expires := RegDelete obj (st_expires s)\<rparr>"

definition SetExpiry :: "env \<Rightarrow> ptr \<Rightarrow> int \<Rightarrow> 'z Store \<Rightarrow> 'z Store" where
  "SetExpiry e obj expDurationMs s =
     s\<lparr>st_expires := RegPut obj (i64 (env_now e + expDurationMs)) (st_expires s)\<rparr>"

definition SetUnixTimeExpiry :: "ptr \<Rightarrow> int \<Rightarrow> 'z Store \<Rightarrow> 'z Store" where
  "SetUnixTimeExpiry obj exUnixTimeMillis s =
     s\<lparr>st_expires := RegPut obj exUnixTimeMillis (st_expires s)\<rparr>"

definition NewObj ::
  "env \<Rightarrow> 'z Value \<Rightarrow> int \<Rightarrow> ObjectType \<Rightarrow> 'z Store \<Rightarrow> ptr \<times> 'z Store" where
  "NewObj e value expDurationMs oType s =
     (let obj = st_next s;
          s1 = s\<lparr>st_heap := (st_heap s)(obj := \<lparr>obj_Type = oType,
                   obj_LastAccessedAt = env_now e, obj_Value = value\<rparr>),
                 st_next := Suc obj\<rparr>
      in (obj, if expDurationMs \<ge> 0 then SetExpiry e obj expDurationMs s1 else s1))"

section \<open>Deletion and eviction\<close>

definition notifyWatchManager :: "string \<Rightarrow> string \<Rightarrow> 'z Store \<Rightarrow> 'z Store" where
  "notifyWatchManager cmd affectedKey s =
     s\<lparr>st_cmdWatchChan := map_option (\<lambda>sent. sent @ [\<lparr>ev_Cmd = cmd, ev_AffectedKey = affectedKey\<rparr>])
         (st_cmdWatchChan s)\<rparr>"

text \<open>The string constants of \<^verbatim>\<open>internal/store/constants.go\<close> used as event names.\<close>

abbreviation "cmdSet \<equiv> ''SET''"
abbreviation "cmdDel \<equiv> ''DEL''"
abbreviation "cmdRename \<equiv> ''RENAME''"
abbreviation "cmdZAdd \<equiv> ''ZADD''"
abbreviation "cmdEvict \<equiv> ''EVICT''"

definition deleteKey :: "string \<Rightarrow> ptr option \<Rightarrow> string \<Rightarrow> 'z Store \<Rightarrow> bool \<times> 'z Store" where
  "deleteKey k obj delCmd s =
     (case obj of
        None \<Rightarrow> (False, s)
      | Some p \<Rightarrow>
          let s1 = s\<lparr>st_store := RegDelete k (st_store s),
                     st_expires := RegDelete p (st_expires s),
                     st_numKeys := st_numKeys s - 1\<rparr>
          in (True, if st_cmdWatchChan s1 \<noteq> None then notifyWatchManager delCmd k s1 else s1))"

definition Del :: "string \<Rightarrow> string \<Rightarrow> 'z Store \<Rightarrow> bool \<times> 'z Store" where
  "Del delCmd k s =
     (case RegGet (st_store s) k of
        Some v \<Rightarrow> deleteKey k (Some v) delCmd s
      | None \<Rightarrow> (False, s))"

definition DelByPtr :: "string \<Rightarrow> string \<Rightarrow> 'z Store \<Rightarrow> bool \<times> 'z Store" where
  "DelByPtr delCmd k s =
     (case RegGet (st_store s) k of
        Some obj \<Rightarrow> deleteKey k (Some obj) delCmd s
      | None \<Rightarrow> (False, s))"

definition GetKeyCount :: "'z Store \<Rightarrow> int" where
  "GetKeyCount s = st_numKeys s"

definition IncrementKeyCount :: "'z Store \<Rightarrow> 'z Store" where
  "IncrementKeyCount s = s\<lparr>st_numKeys := st_numKeys s + 1\<rparr>"

text \<open>
  \<^verbatim>\<open>math.Ceil (float64 (maxKeys) * (1 - EvictionRatio))\<close> with a ratio of 0.9. The float factor is
  below one tenth by less than \<open>2 ^ - 55\<close>, so up to \<open>2 ^ 49\<close> keys the ceiling is that of the
  exact tenth.
\<close>

definition targetKeyCount :: "int \<Rightarrow> int" where
  "targetKeyCount maxKeys = (maxKeys + 9) div 10"

definition ShouldEvict :: "'z Store \<Rightarrow> int" where
  "ShouldEvict s =
     (let currentKeyCount = GetKeyCount s; maxKeys = pes_maxKeys (st_evictionStrategy s) in
      if currentKeyCount < maxKeys then 0
      else
        let toEvict = currentKeyCount - targetKeyCount maxKeys
        in if toEvict < 1 then 1 else toEvict)"

definition recordEviction :: "env \<Rightarrow> int \<Rightarrow> EvictionStats \<Rightarrow> EvictionStats" where
  "recordEviction e cnt st =
     st\<lparr>totalEvictions := (totalEvictions st + 1) mod 2 ^ 64,
        totalKeysEvicted := (totalKeysEvicted st + cnt) mod 2 ^ 64,
        lastEvictionCount := cnt, lastEvictionTimeMs := env_now e\<rparr>"

definition eviction_items :: "env \<Rightarrow> 'z Store \<Rightarrow> evictionItem list" where
  "eviction_items e s =
     map (\<lambda>(k, obj). \<lparr>ei_key = k, ei_lastAccessed = obj_LastAccessedAt (st_heap s obj)\<rparr>)
       (RegAll (env_range e (reg_M (st_store s))) (st_store s))"

definition del_keys :: "string \<Rightarrow> string list \<Rightarrow> 'z Store \<Rightarrow> 'z Store" where
  "del_keys delCmd ks s = fold (\<lambda>k s. snd (Del delCmd k s)) ks s"

definition EvictVictims :: "env \<Rightarrow> int \<Rightarrow> 'z Store \<Rightarrow> 'z Store" where
  "EvictVictims e toEvict s =
     (if toEvict \<le> 0 then s
      else
        let victims = select_victims (nat toEvict) (eviction_items e s);
            s1 = del_keys cmdEvict (map ei_key victims) s;
            strategy = st_evictionStrategy s1
        in s1\<lparr>st_evictionStrategy :=
             strategy\<lparr>pes_stats := recordEviction e toEvict (pes_stats strategy)\<rparr>\<rparr>)"

definition evict :: "env \<Rightarrow> int \<Rightarrow> 'z Store \<Rightarrow> 'z Store" where
  "evict e evictCount s = EvictVictims e evictCount s"

section \<open>Put and get\<close>

record PutOptions =
  KeepTTL :: bool
  PutCmd :: string

definition getDefaultPutOptions :: PutOptions where
  "getDefaultPutOptions = \<lparr>KeepTTL = False, PutCmd = cmdSet\<rparr>"

definition touch :: "env \<Rightarrow> ptr \<Rightarrow> 'z Store \<Rightarrow> 'z Store" where
  "touch e obj s =
     s\<lparr>st_heap := (st_heap s)(obj := (st_heap s obj)\<lparr>obj_LastAccessedAt := env_now e\<rparr>)\<rparr>"

text \<open>Commands on collections change the value inside an object that stays where it is.\<close>

definition setValue :: "ptr \<Rightarrow> 'z Value \<Rightarrow> 'z Store \<Rightarrow> 'z Store" where
  "setValue obj v s = s\<lparr>st_heap := (st_heap s)(obj := (st_heap s obj)\<lparr>obj_Value := v\<rparr>)\<rparr>"

definition putHelper :: "env \<Rightarrow> string \<Rightarrow> ptr \<Rightarrow> PutOptions \<Rightarrow> 'z Store \<Rightarrow> 'z Store" where
  "putHelper e k obj options s =
     (let s0 = touch e obj s;
          s1 = (case RegGet (st_store s0) k of
                  Some currentObject \<Rightarrow>
                    let s' = (case RegGet (st_expires s0) currentObject of
                        Some v \<Rightarrow>
                          if KeepTTL options \<and> v > 0
                          then (case RegGet (st_expires s0) currentObject of
                                  Some v1 \<Rightarrow> s0\<lparr>st_expires := RegPut obj v1 (st_expires s0)\<rparr>
                                | None \<Rightarrow> s0)
                          else s0
                      | None \<Rightarrow> s0)
                    in s'\<lparr>st_expires := RegDelete currentObject (st_expires s')\<rparr>
                | None \<Rightarrow>
                    let evictCount = ShouldEvict s0;
                        s' = (if evictCount > 0 then evict e evictCount s0 else s0)
                    in s'\<lparr>st_numKeys := st_numKeys s' + 1\<rparr>);
          s2 = s1\<lparr>st_store := RegPut k obj (st_store s1)\<rparr>
      in if st_cmdWatchChan s2 \<noteq> None then notifyWatchManager (PutCmd options) k s2 else s2)"

definition Put :: "env \<Rightarrow> string \<Rightarrow> ptr \<Rightarrow> PutOptions \<Rightarrow> 'z Store \<Rightarrow> 'z Store" where
  "Put e k obj options s = putHelper e k obj options s"

text \<open>The pattern \<^verbatim>\<open>s.Put (k, s.NewObj (...), opts)\<close> of the commands.\<close>

definition put_new ::
  "env \<Rightarrow> string \<Rightarrow> 'z Value \<Rightarrow> int \<Rightarrow> ObjectType \<Rightarrow> PutOptions \<Rightarrow> 'z Store \<Rightarrow> 'z Store" where
  "put_new e k v d ty options s = (let (obj, s1) = NewObj e v d ty s in Put e k obj options s1)"

fun PutAll :: "env \<Rightarrow> (string \<times> ptr) list \<Rightarrow> 'z Store \<Rightarrow> 'z Store" where
  "PutAll e [] s = s"
| "PutAll e ((k, obj) # data) s = PutAll e data (putHelper e k obj getDefaultPutOptions s)"

definition getHelper :: "env \<Rightarrow> string \<Rightarrow> bool \<Rightarrow> 'z Store \<Rightarrow> ptr option \<times> 'z Store" where
  "getHelper e k tch s =
     (case RegGet (st_store s) k of
        None \<Rightarrow> (None, s)
      | Some obj \<Rightarrow>
          if hasExpired e obj s then (None, snd (deleteKey k (Some obj) cmdDel s))
          else (Some obj, if tch then touch e obj s else s))"

definition Get :: "env \<Rightarrow> string \<Rightarrow> 'z Store \<Rightarrow> ptr option \<times> 'z Store" where
  "Get e k s = getHelper e k True s"

definition GetNoTouch :: "env \<Rightarrow> string \<Rightarrow> 'z Store \<Rightarrow> ptr option \<times> 'z Store" where
  "GetNoTouch e k s = getHelper e k False s"

fun GetAll :: "env \<Rightarrow> string list \<Rightarrow> 'z Store \<Rightarrow> ptr option list \<times> 'z Store" where
  "GetAll e [] s = ([], s)"
| "GetAll e (k # keys) s =
     (let (v, s1) = (case RegGet (st_store s) k of
             Some v \<Rightarrow> if hasExpired e v s then (None, snd (deleteKey k (Some v) cmdDel s))
                       else (Some v, touch e v s)
           | None \<Rightarrow> (None, s));
          (response, s2) = GetAll e keys s1
      in (v # response, s2))"

definition GetDel :: "env \<Rightarrow> string \<Rightarrow> 'z Store \<Rightarrow> ptr option \<times> 'z Store" where
  "GetDel e k s =
     (case RegGet (st_store s) k of
        None \<Rightarrow> (None, s)
      | Some v \<Rightarrow>
          let expired = hasExpired e v s; s1 = snd (deleteKey k (Some v) cmdDel s)
          in (if expired then None else Some v, s1))"

text \<open>
  \<open>Keys\<close> allocates a slice of capacity \<open>Len\<close>, which panics when it is negative, and stops at the
  first key on which the matcher reports a malformed pattern, keeping what it has collected.
\<close>

fun match_keys :: "(string \<Rightarrow> bool option) \<Rightarrow> string list \<Rightarrow> string list \<times> bool" where
  "match_keys m [] = ([], False)"
| "match_keys m (k # ks) =
     (case m k of
        None \<Rightarrow> ([], True)
      | Some found \<Rightarrow> let (keys, err) = match_keys m ks in (if found then k # keys else keys, err))"

definition Keys :: "env \<Rightarrow> string \<Rightarrow> 'z Store \<Rightarrow> (string list \<times> dice_error option) outcome" where
  "Keys e p s =
     (if RegLen (st_store s) < 0 then Panic
      else
        let (keys, err) = match_keys (env_pathMatch e p)
              (map fst (RegAll (env_range e (reg_M (st_store s))) (st_store s)))
        in Ret (keys, if err then Some (ErrorsNew ''syntax error in pattern'') else None))"

definition GetDBSize :: "'z Store \<Rightarrow> int" where
  "GetDBSize s = RegLen (st_store s) mod 2 ^ 64"

definition Rename :: "env \<Rightarrow> string \<Rightarrow> string \<Rightarrow> 'z Store \<Rightarrow> bool \<times> 'z Store" where
  "Rename e sourceKey destKey s =
     (if sourceKey = destKey then (True, s)
      else
        case RegGet (st_store s) sourceKey of
          None \<Rightarrow> (False, s)
        | Some sourceObj \<Rightarrow>
            if hasExpired e sourceObj s
            then (False, snd (deleteKey sourceKey (Some sourceObj) cmdRename s))
            else
              let s1 = putHelper e destKey sourceObj (getDefaultPutOptions\<lparr>PutCmd := cmdSet\<rparr>) s;
                  s2 = s1\<lparr>st_store := RegDelete sourceKey (st_store s1),
                          st_numKeys := st_numKeys s1 - 1\<rparr>
              in (True, if st_cmdWatchChan s2 \<noteq> None
                        then notifyWatchManager cmdRename sourceKey s2 else s2))"

section \<open>Active expiry and conditional expiry\<close>

definition DeleteExpiredKeys :: "env \<Rightarrow> 'z Store \<Rightarrow> 'z Store" where
  "DeleteExpiredKeys e s =
     fold (\<lambda>(k, obj) s. if hasExpired e obj s then snd (DelByPtr cmdDel k s) else s)
       (RegAll (env_range e (reg_M (st_store s))) (st_store s)) s"

record ttl_flags =
  nxCmd :: bool
  xxCmd :: bool
  gtCmd :: bool
  ltCmd :: bool
  shouldSetExpiry :: bool

text \<open>One sub-command of the loop; \<open>Inl\<close> is the early return on an unknown one.\<close>

definition ttl_subcommand ::
  "int option \<Rightarrow> int \<Rightarrow> string \<Rightarrow> ttl_flags \<Rightarrow> dice_error + ttl_flags" where
  "ttl_subcommand prevExpiry newExp sub f =
     (let c = ToUpper sub in
      if c = ''NX'' then
        Inr (f\<lparr>nxCmd := True, shouldSetExpiry := shouldSetExpiry f \<or> prevExpiry = None\<rparr>)
      else if c = ''XX'' then
        Inr (f\<lparr>xxCmd := True, shouldSetExpiry := shouldSetExpiry f \<or> prevExpiry \<noteq> None\<rparr>)
      else if c = ''GT'' then
        Inr (f\<lparr>gtCmd := True, shouldSetExpiry := shouldSetExpiry f \<or>
          (case prevExpiry of Some prev \<Rightarrow> newExp > prev | None \<Rightarrow> False)\<rparr>)
      else if c = ''LT'' then
        Inr (f\<lparr>ltCmd := True, shouldSetExpiry := shouldSetExpiry f \<or>
          (case prevExpiry of Some prev \<Rightarrow> newExp < prev | None \<Rightarrow> False)\<rparr>)
      else Inl (ErrGeneral (''unsupported option '' @ sub)))"

fun ttl_subcommands ::
  "int option \<Rightarrow> int \<Rightarrow> string list \<Rightarrow> ttl_flags \<Rightarrow> dice_error + ttl_flags" where
  "ttl_subcommands prevExpiry newExp [] f = Inr f"
| "ttl_subcommands prevExpiry newExp (sub # subs) f =
     (case ttl_subcommand prevExpiry newExp sub f of
        Inl err \<Rightarrow> Inl err
      | Inr f' \<Rightarrow> ttl_subcommands prevExpiry newExp subs f')"

definition EvaluateAndSetExpiry ::
  "env \<Rightarrow> string list \<Rightarrow> int \<Rightarrow> string \<Rightarrow> 'z Store \<Rightarrow> (dice_error + bool) \<times> 'z Store" where
  "EvaluateAndSetExpiry e subCommands newExpiryAbsMillis key s =
     (case Get e key s of
        (None, s1) \<Rightarrow> (Inr False, s1)
      | (Some obj, s1) \<Rightarrow>
          if subCommands = [] then (Inr True, SetUnixTimeExpiry obj newExpiryAbsMillis s1)
          else
            case ttl_subcommands (GetExpiry obj s1) newExpiryAbsMillis subCommands
                   \<lparr>nxCmd = False, xxCmd = False, gtCmd = False, ltCmd = False, shouldSetExpiry = False\<rparr> of
              Inl err \<Rightarrow> (Inl err, s1)
            | Inr f \<Rightarrow>
                if \<not> nxCmd f \<and> gtCmd f \<and> ltCmd f
                then (Inl (ErrGeneral ''GT and LT options at the same time are not compatible''), s1)
                else if nxCmd f \<and> (xxCmd f \<or> gtCmd f \<or> ltCmd f)
                then (Inl (ErrGeneral ''NX and XX, GT or LT options at the same time are not compatible''), s1)
                else if shouldSetExpiry f
                then (Inr True, SetUnixTimeExpiry obj newExpiryAbsMillis s1)
                else (Inr False, s1))"

end
