(* ===== verification/StoreInv.thy ===== *)
theory StoreInv
  imports Store
begin

text \<open>
  What the store promises. \<open>wf_store\<close> is its invariant: no two keys share an object, every object
  is allocated, expiry times exist only for stored objects (or the pending ones of a command that
  is still running), the key count is exact, and the table's own counter is not below it. The
  abstract store \<open>db\<close> maps a key to type, value and expiry time; \<open>view\<close> hides what has expired.
  The lemmas show that each operation keeps the invariant and refines an update of the map.
\<close>

section \<open>Invariant and abstraction\<close>

abbreviation tbl :: "'z Store \<Rightarrow> string \<rightharpoonup> ptr" where
  "tbl s \<equiv> RegGet (st_store s)"

abbreviation exps :: "'z Store \<Rightarrow> ptr \<rightharpoonup> int" where
  "exps s \<equiv> RegGet (st_expires s)"

definition wf_store :: "ptr set \<Rightarrow> 'z Store \<Rightarrow> bool" where
  "wf_store P s \<longleftrightarrow>
     finite (dom (tbl s)) \<and> inj_on (tbl s) (dom (tbl s)) \<and> ran (tbl s) \<subseteq> {..<st_next s} \<and>
     dom (exps s) \<subseteq> ran (tbl s) \<union> P \<and>
     st_numKeys s = int (card (dom (tbl s))) \<and> st_numKeys s \<le> RegLen (st_store s)"

type_synonym 'z entry = "ObjectType \<times> 'z Value \<times> int option"

definition entry :: "'z Store \<Rightarrow> ptr \<Rightarrow> 'z entry" where
  "entry s p = (obj_Type (st_heap s p), obj_Value (st_heap s p), exps s p)"

definition db :: "'z Store \<Rightarrow> string \<rightharpoonup> 'z entry" where
  "db s k = map_option (entry s) (tbl s k)"

definition expired_at :: "int \<Rightarrow> 'z entry \<Rightarrow> bool" where
  "expired_at t x \<longleftrightarrow> (case x of (_, _, None) \<Rightarrow> False | (_, _, Some d) \<Rightarrow> d \<le> t)"

definition live :: "int \<Rightarrow> (string \<rightharpoonup> 'z entry) \<Rightarrow> (string \<rightharpoonup> 'z entry)" where
  "live t m k = (case m k of None \<Rightarrow> None | Some x \<Rightarrow> if expired_at t x then None else Some x)"

definition view :: "env \<Rightarrow> 'z Store \<Rightarrow> string \<rightharpoonup> 'z entry" where
  "view e s = live (env_now e) (db s)"

definition range_ok :: "env \<Rightarrow> bool" where
  "range_ok e \<longleftrightarrow> (\<forall>m. finite (dom m) \<longrightarrow> distinct (env_range e m) \<and> set (env_range e m) = dom m)"

lemma hasExpired_entry: "hasExpired e p s \<longleftrightarrow> expired_at (env_now e) (entry s p)"
  by (simp add: hasExpired_def expired_at_def entry_def split: option.split)

lemma view_eq:
  "view e s k = (case tbl s k of None \<Rightarrow> None | Some p \<Rightarrow> if hasExpired e p s then None else Some (entry s p))"
  by (simp add: view_def live_def db_def hasExpired_entry split: option.split)

lemma db_eq: "db s k = (case tbl s k of None \<Rightarrow> None | Some p \<Rightarrow> Some (entry s p))"
  by (simp add: db_def split: option.split)

lemma live_upd:
  "live t (m(k := x)) = (live t m)(k := (case x of None \<Rightarrow> None | Some y \<Rightarrow> if expired_at t y then None else Some y))"
  by (rule ext) (simp add: live_def)

lemma live_del: "live t (m(k := None)) = (live t m)(k := None)"
  by (simp add: live_upd)

lemma live_None: "m k = None \<Longrightarrow> live t m k = None"
  by (simp add: live_def)

lemma wf_storeD:
  assumes "wf_store P s"
  shows "finite (dom (tbl s))" and "inj_on (tbl s) (dom (tbl s))" and "ran (tbl s) \<subseteq> {..<st_next s}"
    and "dom (exps s) \<subseteq> ran (tbl s) \<union> P" and "st_numKeys s = int (card (dom (tbl s)))"
    and "st_numKeys s \<le> RegLen (st_store s)"
  using assms by (simp_all add: wf_store_def)

lemma wf_inj: "wf_store P s \<Longrightarrow> tbl s k = Some p \<Longrightarrow> tbl s k' = Some p \<Longrightarrow> k = k'"
  by (auto simp: wf_store_def inj_on_def dom_def)

lemma wf_alloc: "wf_store P s \<Longrightarrow> tbl s k = Some p \<Longrightarrow> p < st_next s"
  by (auto simp: wf_store_def ran_def)

lemma wf_store_mono: "wf_store P s \<Longrightarrow> P \<subseteq> Q \<Longrightarrow> wf_store Q s"
  by (auto simp: wf_store_def)

section \<open>Frames\<close>

lemma notify_frame [simp]:
  "st_heap (notifyWatchManager c k s) = st_heap s"
  "st_next (notifyWatchManager c k s) = st_next s"
  "st_store (notifyWatchManager c k s) = st_store s"
  "st_expires (notifyWatchManager c k s) = st_expires s"
  "st_numKeys (notifyWatchManager c k s) = st_numKeys s"
  "st_evictionStrategy (notifyWatchManager c k s) = st_evictionStrategy s"
  "st_ShardID (notifyWatchManager c k s) = st_ShardID s"
  "st_cmdWatchChan (notifyWatchManager c k s) = None \<longleftrightarrow> st_cmdWatchChan s = None"
  by (simp_all add: notifyWatchManager_def)

lemma deleteKey_frame [simp]:
  "st_heap (snd (deleteKey k (Some p) c s)) = st_heap s"
  "st_next (snd (deleteKey k (Some p) c s)) = st_next s"
  "st_store (snd (deleteKey k (Some p) c s)) = RegDelete k (st_store s)"
  "st_expires (snd (deleteKey k (Some p) c s)) = RegDelete p (st_expires s)"
  "st_numKeys (snd (deleteKey k (Some p) c s)) = st_numKeys s - 1"
  "st_evictionStrategy (snd (deleteKey k (Some p) c s)) = st_evictionStrategy s"
  "st_ShardID (snd (deleteKey k (Some p) c s)) = st_ShardID s"
  "fst (deleteKey k (Some p) c s)"
  by (simp_all add: deleteKey_def Let_def)

lemma touch_frame [simp]:
  "st_next (touch e p s) = st_next s"
  "st_store (touch e p s) = st_store s"
  "st_expires (touch e p s) = st_expires s"
  "st_numKeys (touch e p s) = st_numKeys s"
  "st_evictionStrategy (touch e p s) = st_evictionStrategy s"
  "st_cmdWatchChan (touch e p s) = st_cmdWatchChan s"
  "st_ShardID (touch e p s) = st_ShardID s"
  "obj_Type (st_heap (touch e p s) q) = obj_Type (st_heap s q)"
  "obj_Value (st_heap (touch e p s) q) = obj_Value (st_heap s q)"
  by (simp_all add: touch_def)

lemma entry_touch [simp]: "entry (touch e p s) = entry s"
  by (rule ext) (simp add: entry_def)

lemma wf_touch [simp]: "wf_store P (touch e p s) = wf_store P s"
  by (simp add: wf_store_def)

lemma hasExpired_touch [simp]: "hasExpired e q (touch e' p s) = hasExpired e q s"
  by (simp add: hasExpired_def)

lemma db_touch [simp]: "db (touch e p s) = db s"
  by (rule ext) (simp add: db_def)

section \<open>Deletion\<close>

lemma deleteKey_wf [wf_intros]:
  assumes wf: "wf_store P s" and k: "tbl s k = Some p"
  shows "wf_store P (snd (deleteKey k (Some p) c s))"
proof -
  note w = wf_storeD [OF wf]
  have t: "tbl (snd (deleteKey k (Some p) c s)) = (tbl s)(k := None)"
    by (rule ext) simp
  have x: "exps (snd (deleteKey k (Some p) c s)) = (exps s)(p := None)"
    by (rule ext) simp
  have "card (dom (tbl s)) = Suc (card (dom (tbl s) - {k}))"
    using card_Suc_Diff1 [OF w(1), of k] k by (simp add: domI)
  moreover have "ran ((tbl s)(k := None)) = ran (tbl s) - {p}"
    by (rule ran_map_del_inj [OF w(2) k])
  ultimately show ?thesis
    using w inj_on_map_del [OF w(2), of k]
    unfolding wf_store_def t x by auto
qed

lemma deleteKey_db:
  assumes wf: "wf_store P s" and k: "tbl s k = Some p"
  shows "db (snd (deleteKey k (Some p) c s)) = (db s)(k := None)"
proof
  fix k'
  show "db (snd (deleteKey k (Some p) c s)) k' = ((db s)(k := None)) k'"
    using wf_inj [OF wf k, of k'] by (auto simp: db_eq entry_def split: option.split)
qed

lemma Del_cases:
  "Del c k s = (case tbl s k of None \<Rightarrow> (False, s) | Some p \<Rightarrow> deleteKey k (Some p) c s)"
  by (simp add: Del_def split: option.split)

lemma DelByPtr_eq_Del: "DelByPtr c k s = Del c k s"
  by (simp add: DelByPtr_def Del_def)

lemma Del_wf [wf_intros]: "wf_store P s \<Longrightarrow> wf_store P (snd (Del c k s))"
  by (auto simp: Del_cases deleteKey_wf split: option.split)

lemma Del_result: "fst (Del c k s) \<longleftrightarrow> tbl s k \<noteq> None"
  by (auto simp: Del_cases split: option.split)

lemma Del_tbl: "tbl (snd (Del c k s)) = (tbl s)(k := None)"
  by (auto simp: Del_cases fun_eq_iff split: option.split)

lemma Del_db: "wf_store P s \<Longrightarrow> db (snd (Del c k s)) = (db s)(k := None)"
  by (cases "tbl s k") (auto simp: Del_cases deleteKey_db fun_eq_iff db_def)

lemma Del_frame [simp]:
  "st_heap (snd (Del c k s)) = st_heap s"
  "st_next (snd (Del c k s)) = st_next s"
  "st_evictionStrategy (snd (Del c k s)) = st_evictionStrategy s"
  by (auto simp: Del_cases split: option.split)

lemma del_keys_Nil [simp]: "del_keys c [] s = s"
  and del_keys_Cons [simp]: "del_keys c (k # ks) s = del_keys c ks (snd (Del c k s))"
  by (simp_all add: del_keys_def)

lemma del_keys_wf [wf_intros]: "wf_store P s \<Longrightarrow> wf_store P (del_keys c ks s)"
  by (induction ks arbitrary: s) (auto intro: Del_wf)

lemma del_keys_tbl: "tbl (del_keys c ks s) = (\<lambda>k. if k \<in> set ks then None else tbl s k)"
  by (induction ks arbitrary: s) (auto simp: Del_tbl fun_eq_iff)

lemma del_keys_db:
  "wf_store P s \<Longrightarrow> db (del_keys c ks s) = (\<lambda>k. if k \<in> set ks then None else db s k)"
  by (induction ks arbitrary: s) (auto simp: Del_db Del_wf fun_eq_iff)

lemma del_keys_frame [simp]:
  "st_heap (del_keys c ks s) = st_heap s"
  "st_next (del_keys c ks s) = st_next s"
  "st_evictionStrategy (del_keys c ks s) = st_evictionStrategy s"
  by (induction ks arbitrary: s) simp_all

section \<open>Lookup\<close>

lemma getHelper_cases:
  obtains (absent) "tbl s k = None" "getHelper e k t s = (None, s)" "view e s k = None"
  | (expired) p where "tbl s k = Some p" "hasExpired e p s" "view e s k = None"
      "getHelper e k t s = (None, snd (deleteKey k (Some p) cmdDel s))"
  | (found) p where "tbl s k = Some p" "\<not> hasExpired e p s" "view e s k = Some (entry s p)"
      "getHelper e k t s = (Some p, if t then touch e p s else s)"
  by (cases "tbl s k") (auto simp: getHelper_def view_eq)

lemma getHelper_wf [wf_intros]: "wf_store P s \<Longrightarrow> wf_store P (snd (getHelper e k t s))"
  by (rule getHelper_cases [of s k e t]) (auto intro: deleteKey_wf)

lemma getHelper_view:
  assumes "wf_store P s"
  shows "view e (snd (getHelper e k t s)) = view e s"
  by (rule getHelper_cases [of s k e t])
    (use assms in \<open>auto simp: view_def deleteKey_db live_del fun_eq_iff\<close>)

lemma getHelper_result:
  "(case fst (getHelper e k t s) of None \<Rightarrow> view e s k = None
    | Some p \<Rightarrow> tbl s k = Some p \<and> view e s k = Some (entry s p))"
  by (rule getHelper_cases [of s k e t]) auto

lemma getHelper_None: "fst (getHelper e k t s) = None \<longleftrightarrow> view e s k = None"
  by (rule getHelper_cases [of s k e t]) auto

lemma getHelper_Some:
  assumes "fst (getHelper e k t s) = Some p"
  shows "tbl s k = Some p" and "tbl (snd (getHelper e k t s)) = tbl s" and "view e s k = Some (entry s p)"
    and "entry (snd (getHelper e k t s)) q = entry s q" and "exps (snd (getHelper e k t s)) = exps s"
  using assms by - (rule getHelper_cases [of s k e t]; auto)+

lemma getHelper_tbl_None:
  "fst (getHelper e k t s) = None \<Longrightarrow> tbl (snd (getHelper e k t s)) = (tbl s)(k := None)"
  by (rule getHelper_cases [of s k e t]) (auto simp: fun_eq_iff)

lemma getHelper_frame [simp]:
  "st_next (snd (getHelper e k t s)) = st_next s"
  "st_evictionStrategy (snd (getHelper e k t s)) = st_evictionStrategy s"
  "obj_Type (st_heap (snd (getHelper e k t s)) q) = obj_Type (st_heap s q)"
  "obj_Value (st_heap (snd (getHelper e k t s)) q) = obj_Value (st_heap s q)"
  by - (rule getHelper_cases [of s k e t]; simp)+

section \<open>Eviction\<close>

lemma eviction_items_keys:
  "map ei_key (eviction_items e s) = map fst (RegAll (env_range e (reg_M (st_store s))) (st_store s))"
  by (simp add: eviction_items_def comp_def case_prod_beta)

lemma range_ok_tbl:
  "range_ok e \<Longrightarrow> wf_store P s \<Longrightarrow>
   distinct (env_range e (reg_M (st_store s))) \<and> set (env_range e (reg_M (st_store s))) = dom (tbl s)"
  by (simp add: range_ok_def wf_store_def RegGet_M)

lemma eviction_items_dom:
  assumes "range_ok e" and "wf_store P s"
  shows "distinct (map ei_key (eviction_items e s))"
    and "ei_key ` set (eviction_items e s) = dom (tbl s)"
    and "length (eviction_items e s) = card (dom (tbl s))"
proof -
  note r = range_ok_tbl [OF assms]
  show d: "distinct (map ei_key (eviction_items e s))"
    unfolding eviction_items_keys using r by (auto intro: reg.all_distinct)
  have "set (map ei_key (eviction_items e s)) = dom (tbl s)"
    unfolding eviction_items_keys using r reg.keys_all by blast
  then show i: "ei_key ` set (eviction_items e s) = dom (tbl s)" by simp
  show "length (eviction_items e s) = card (dom (tbl s))"
    using distinct_card [OF d] i by simp
qed

lemma strategy_upd_frame [simp]:
  "entry (s\<lparr>st_evictionStrategy := x\<rparr>) = entry s"
  "db (s\<lparr>st_evictionStrategy := x\<rparr>) = db s"
  "wf_store P (s\<lparr>st_evictionStrategy := x\<rparr>) = wf_store P s"
proof -
  show *: "entry (s\<lparr>st_evictionStrategy := x\<rparr>) = entry s"
    by (rule ext) (simp add: entry_def)
  show "db (s\<lparr>st_evictionStrategy := x\<rparr>) = db s" by (rule ext) (simp add: db_def *)
qed (simp add: wf_store_def)

lemma EvictVictims_wf [wf_intros]: "wf_store P s \<Longrightarrow> wf_store P (EvictVictims e n s)"
  by (simp add: EvictVictims_def Let_def del_keys_wf)

lemma EvictVictims_frame [simp]:
  "st_heap (EvictVictims e n s) = st_heap s"
  "st_next (EvictVictims e n s) = st_next s"
  "pes_maxKeys (st_evictionStrategy (EvictVictims e n s)) = pes_maxKeys (st_evictionStrategy s)"
  by (simp_all add: EvictVictims_def Let_def)

text \<open>The keys that one eviction removes.\<close>

definition victim_keys :: "env \<Rightarrow> int \<Rightarrow> 'z Store \<Rightarrow> string set" where
  "victim_keys e n s =
     (if n \<le> 0 then {} else ei_key ` set (select_victims (nat n) (eviction_items e s)))"

lemma EvictVictims_tbl:
  "tbl (EvictVictims e n s) = (\<lambda>k. if k \<in> victim_keys e n s then None else tbl s k)"
  by (auto simp: EvictVictims_def Let_def victim_keys_def del_keys_tbl fun_eq_iff)

lemma EvictVictims_db:
  "wf_store P s \<Longrightarrow>
   db (EvictVictims e n s) = (\<lambda>k. if k \<in> victim_keys e n s then None else db s k)"
proof (cases "n \<le> 0")
  case False
  assume wf: "wf_store P s"
  with False del_keys_db [OF wf] show ?thesis by (simp add: EvictVictims_def Let_def victim_keys_def)
qed (simp add: EvictVictims_def victim_keys_def)

lemma victims_spec:
  assumes ok: "range_ok e" and wf: "wf_store P s" and n: "0 < n"
  defines "vs \<equiv> select_victims (nat n) (eviction_items e s)"
  shows "distinct (map ei_key vs)" and "length vs = min (nat n) (card (dom (tbl s)))"
    and "ei_key ` set vs \<subseteq> dom (tbl s)"
    and "\<lbrakk>v \<in> set vs; k \<in> dom (tbl s) - ei_key ` set vs; tbl s k = Some p\<rbrakk> \<Longrightarrow>
      ei_lastAccessed v \<le> obj_LastAccessedAt (st_heap s p)"
proof -
  let ?it = "eviction_items e s"
  note d = eviction_items_dom [OF ok wf]
  obtain rest where rest: "mset ?it = mset vs + rest"
    and size: "length vs = min (nat n) (length ?it)"
    and le: "\<And>v r. v \<in> set vs \<Longrightarrow> r \<in># rest \<Longrightarrow> ei_lastAccessed v \<le> ei_lastAccessed r"
    using select_victims_smallest [of "nat n" ?it] n unfolding vs_def [symmetric] smallest_iff
    by (metis size_mset size_union set_mset_mset zero_less_nat_eq)
  from size d(3) show "length vs = min (nat n) (card (dom (tbl s)))" by simp
  obtain rl where "mset rl = rest" using ex_mset by blast
  with rest have "mset (map ei_key ?it) = mset (map ei_key vs @ map ei_key rl)" by simp
  then have "distinct (map ei_key vs @ map ei_key rl)"
    using d(1) mset_eq_imp_distinct_iff by blast
  then show "distinct (map ei_key vs)" by simp
  have sub: "set vs \<subseteq> set ?it" using arg_cong [OF rest, of set_mset] by auto
  with d(2) show "ei_key ` set vs \<subseteq> dom (tbl s)" using image_mono [OF sub, of ei_key] by simp
  assume v: "v \<in> set vs" and k: "k \<in> dom (tbl s) - ei_key ` set vs" and p: "tbl s k = Some p"
  let ?i = "\<lparr>ei_key = k, ei_lastAccessed = obj_LastAccessedAt (st_heap s p)\<rparr>"
  have "?i \<in> set ?it"
    using range_ok_tbl [OF ok wf] p by (auto simp: eviction_items_def reg.all_set image_iff)
  then have "?i \<in># mset vs + rest" by (simp flip: rest)
  moreover have "?i \<notin> set vs" using k by force
  ultimately have "?i \<in># rest" by simp
  with le [OF v] show "ei_lastAccessed v \<le> obj_LastAccessedAt (st_heap s p)" by fastforce
qed

lemma victims_items:
  assumes "v \<in> set (select_victims n (eviction_items e s))" and "0 < n"
  shows "v \<in> set (eviction_items e s)"
proof -
  obtain rest where "mset (eviction_items e s) = mset (select_victims n (eviction_items e s)) + rest"
    using select_victims_smallest [OF assms(2), of "eviction_items e s"] unfolding smallest_iff by blast
  then have "set (eviction_items e s) = set (select_victims n (eviction_items e s)) \<union> set_mset rest"
    by (metis set_mset_mset set_mset_union)
  with assms(1) show ?thesis by blast
qed

lemma EvictVictims_numKeys:
  assumes ok: "range_ok e" and wf: "wf_store P s" and n: "0 < n"
  shows "st_numKeys (EvictVictims e n s) = st_numKeys s - min n (st_numKeys s)"
proof -
  let ?vs = "select_victims (nat n) (eviction_items e s)"
  note v = victims_spec [OF ok wf n]
  have keys: "victim_keys e n s = ei_key ` set ?vs" using n by (simp add: victim_keys_def)
  have "dom (tbl (EvictVictims e n s)) = dom (tbl s) - ei_key ` set ?vs"
    by (auto simp: EvictVictims_tbl keys split: if_splits)
  moreover have "card (ei_key ` set ?vs) = length ?vs"
    using v(1) by (metis distinct_card length_map list.set_map)
  ultimately have "card (dom (tbl (EvictVictims e n s))) = card (dom (tbl s)) - min (nat n) (card (dom (tbl s)))"
    using v(2,3) by (simp add: card_Diff_subset)
  with wf_storeD(5) [OF EvictVictims_wf [OF wf, of e n]] wf_storeD(5) [OF wf] n
  show ?thesis by (simp add: of_nat_diff min_def nat_le_iff split: if_splits)
qed

section \<open>Insertion\<close>

lemma NewObj_props:
  assumes "NewObj e v d ty s = (p, s')"
  shows "p = st_next s" and "st_next s' = Suc p" and "tbl s' = tbl s" and "st_store s' = st_store s"
    and "st_heap s' = (st_heap s)(p := \<lparr>obj_Type = ty, obj_LastAccessedAt = env_now e, obj_Value = v\<rparr>)"
    and "exps s' = (if 0 \<le> d then (exps s)(p \<mapsto> i64 (env_now e + d)) else exps s)"
    and "st_evictionStrategy s' = st_evictionStrategy s" and "st_numKeys s' = st_numKeys s"
    and "st_cmdWatchChan s' = st_cmdWatchChan s"
  using assms by (auto simp: NewObj_def SetExpiry_def Let_def fun_eq_iff split: if_splits)

lemma NewObj_wf [wf_intros]:
  assumes "NewObj e v d ty s = (p, s')" and "wf_store P s"
  shows "wf_store (insert p P) s'" and "p \<notin> ran (tbl s')" and "p < st_next s'"
  using assms(2) NewObj_props [OF assms(1)] by (auto simp: wf_store_def split: if_splits)

lemma NewObj_db:
  assumes "NewObj e v d ty s = (p, s')" and "wf_store P s"
  shows "db s' = db s"
  using NewObj_props [OF assms(1)] wf_alloc [OF assms(2)]
  by (fastforce simp: db_eq entry_def fun_eq_iff split: option.split)

text \<open>The expiry time that an overwriting \<open>Put\<close> leaves on the new object.\<close>

definition put_expiry :: "PutOptions \<Rightarrow> int option \<Rightarrow> int option \<Rightarrow> int option" where
  "put_expiry options old new =
     (case old of Some v \<Rightarrow> if KeepTTL options \<and> v > 0 then Some v else new | None \<Rightarrow> new)"

text \<open>The state on which \<open>putHelper\<close> stores the object.\<close>

definition put_prepare :: "env \<Rightarrow> string \<Rightarrow> ptr \<Rightarrow> PutOptions \<Rightarrow> 'z Store \<Rightarrow> 'z Store" where
  "put_prepare e k obj options s =
     (let s0 = touch e obj s in
      case tbl s k of
        Some cur \<Rightarrow>
          let s' = (case exps s cur of
                Some v \<Rightarrow> if KeepTTL options \<and> v > 0
                  then s0\<lparr>st_expires := RegPut obj v (st_expires s0)\<rparr> else s0
              | None \<Rightarrow> s0)
          in s'\<lparr>st_expires := RegDelete cur (st_expires s')\<rparr>
      | None \<Rightarrow>
          let n = ShouldEvict s0; s' = (if n > 0 then EvictVictims e n s0 else s0)
          in s'\<lparr>st_numKeys := st_numKeys s' + 1\<rparr>)"

lemma putHelper_eq:
  "putHelper e k obj options s =
     (let s1 = put_prepare e k obj options s; s2 = s1\<lparr>st_store := RegPut k obj (st_store s1)\<rparr>
      in if st_cmdWatchChan s2 \<noteq> None then notifyWatchManager (PutCmd options) k s2 else s2)"
  unfolding putHelper_def put_prepare_def evict_def Let_def
  by (simp split: option.split)

lemma putHelper_fields:
  defines "s1 e k obj options s \<equiv> put_prepare e k obj options s"
  shows "st_heap (putHelper e k obj options s) = st_heap (s1 e k obj options s)"
    and "st_next (putHelper e k obj options s) = st_next (s1 e k obj options s)"
    and "st_store (putHelper e k obj options s) = RegPut k obj (st_store (s1 e k obj options s))"
    and "st_expires (putHelper e k obj options s) = st_expires (s1 e k obj options s)"
    and "st_numKeys (putHelper e k obj options s) = st_numKeys (s1 e k obj options s)"
    and "st_evictionStrategy (putHelper e k obj options s) = st_evictionStrategy (s1 e k obj options s)"
  by (simp_all add: putHelper_eq s1_def Let_def)

lemma del_keys_exps_other: "p \<notin> ran (tbl s) \<Longrightarrow> exps (del_keys c ks s) p = exps s p"
proof (induction ks arbitrary: s)
  case (Cons k ks)
  have "p \<notin> ran (tbl (snd (Del c k s)))"
    using Cons.prems by (auto simp: Del_tbl ran_def)
  moreover have "exps (snd (Del c k s)) p = exps s p"
    using Cons.prems by (auto simp: Del_cases ran_def split: option.split)
  ultimately show ?case using Cons.IH by simp
qed simp

lemma EvictVictims_exps_other: "p \<notin> ran (tbl s) \<Longrightarrow> exps (EvictVictims e n s) p = exps s p"
  by (simp add: EvictVictims_def Let_def del_keys_exps_other)

text \<open>The keys that a \<open>Put\<close> evicts: none when it overwrites.\<close>

definition put_victims :: "env \<Rightarrow> string \<Rightarrow> 'z Store \<Rightarrow> string set" where
  "put_victims e k s = (if tbl s k = None then victim_keys e (ShouldEvict s) s else {})"

lemma eviction_items_touch:
  "p \<notin> ran (tbl s) \<Longrightarrow> eviction_items e (touch e' p s) = eviction_items e s"
  by (auto simp: eviction_items_def reg.all_set touch_def ran_def)

lemma ShouldEvict_touch [simp]: "ShouldEvict (touch e p s) = ShouldEvict s"
  by (simp add: ShouldEvict_def GetKeyCount_def)

lemma victim_keys_touch: "p \<notin> ran (tbl s) \<Longrightarrow> victim_keys e n (touch e' p s) = victim_keys e n s"
  by (simp add: victim_keys_def eviction_items_touch)

lemma EvictVictims_nonpos [simp]: "n \<le> 0 \<Longrightarrow> EvictVictims e n s = s"
  by (simp add: EvictVictims_def)

lemma put_prepare_absent:
  "tbl s k = None \<Longrightarrow> put_prepare e k p o' s =
     (let s' = EvictVictims e (ShouldEvict s) (touch e p s) in s'\<lparr>st_numKeys := st_numKeys s' + 1\<rparr>)"
  by (simp add: put_prepare_def Let_def)

lemma putHelper_tbl:
  "tbl (putHelper e k p o' s) =
   (\<lambda>k'. if k' = k then Some p else if tbl s k = None \<and> k' \<in> victim_keys e (ShouldEvict s) (touch e p s)
     then None else tbl s k')"
proof (cases "tbl s k")
  case None
  then show ?thesis
    by (auto simp: putHelper_fields put_prepare_absent Let_def EvictVictims_tbl fun_eq_iff)
next
  case (Some cur)
  then have "st_store (put_prepare e k p o' s) = st_store s"
    by (simp add: put_prepare_def Let_def split: option.split)
  with Some show ?thesis by (auto simp: putHelper_fields fun_eq_iff)
qed

lemma putHelper_exps_present:
  assumes "tbl s k = Some cur" and "p \<noteq> cur"
  shows "exps (putHelper e k p o' s) =
    (exps s)(cur := None, p := put_expiry o' (exps s cur) (exps s p))"
  using assms by (auto simp: putHelper_fields put_prepare_def Let_def put_expiry_def fun_eq_iff
      split: option.split)

lemma putHelper_frame [simp]:
  "st_next (putHelper e k p o' s) = st_next s"
  "obj_Type (st_heap (putHelper e k p o' s) q) = obj_Type (st_heap s q)"
  "obj_Value (st_heap (putHelper e k p o' s) q) = obj_Value (st_heap s q)"
  "pes_maxKeys (st_evictionStrategy (putHelper e k p o' s)) = pes_maxKeys (st_evictionStrategy s)"
  by (cases "tbl s k"; auto simp: putHelper_fields put_prepare_def Let_def split: option.split)+

lemma putHelper_wf [wf_intros]:
  assumes wf: "wf_store (insert p P) s" and fresh: "p \<notin> ran (tbl s)" and alloc: "p < st_next s"
  shows "wf_store P (putHelper e k p o' s)"
proof (cases "tbl s k")
  case None
  let ?s' = "EvictVictims e (ShouldEvict s) (touch e p s)"
  have wf': "wf_store (insert p P) ?s'" using wf by (intro EvictVictims_wf) simp
  note w = wf_storeD [OF wf']
  have k: "tbl ?s' k = None" using None by (simp add: EvictVictims_tbl)
  have fresh': "p \<notin> ran (tbl ?s')"
    using fresh by (auto simp: EvictVictims_tbl ran_def split: if_splits)
  have t: "tbl (putHelper e k p o' s) = (tbl ?s')(k \<mapsto> p)"
    using None by (auto simp: putHelper_tbl EvictVictims_tbl fun_eq_iff)
  have x: "st_expires (putHelper e k p o' s) = st_expires ?s'"
    and n: "st_numKeys (putHelper e k p o' s) = st_numKeys ?s' + 1"
    and l: "RegLen (st_store (putHelper e k p o' s)) = RegLen (st_store ?s') + 1"
    using None by (simp_all add: putHelper_fields put_prepare_absent Let_def)
  have r: "ran ((tbl ?s')(k \<mapsto> p)) = insert p (ran (tbl ?s'))" using k by simp
  have c: "card (dom ((tbl ?s')(k \<mapsto> p))) = Suc (card (dom (tbl ?s')))"
    using w(1) k by (simp add: domIff)
  show ?thesis
    unfolding wf_store_def t x n l r c putHelper_frame(1)
    using w alloc inj_on_map_upd_fresh [OF w(2) fresh', of k]
    by auto
next
  case (Some cur)
  note w = wf_storeD [OF wf]
  have pc: "p \<noteq> cur" using fresh Some by (auto simp: ran_def)
  have t: "tbl (putHelper e k p o' s) = (tbl s)(k \<mapsto> p)"
    using Some by (auto simp: putHelper_tbl fun_eq_iff)
  have st: "st_store (put_prepare e k p o' s) = st_store s" "st_numKeys (put_prepare e k p o' s) = st_numKeys s"
    using Some by (simp_all add: put_prepare_def Let_def split: option.split)
  have n: "st_numKeys (putHelper e k p o' s) = st_numKeys s"
    and l: "RegLen (st_store (putHelper e k p o' s)) = RegLen (st_store s) + 1"
    using st by (simp_all add: putHelper_fields)
  have r: "ran ((tbl s)(k \<mapsto> p)) = insert p (ran (tbl s) - {cur})"
    by (rule ran_map_upd_inj [OF w(2) Some])
  have d: "dom ((tbl s)(k \<mapsto> p)) = dom (tbl s)" using Some by auto
  have "dom (exps (putHelper e k p o' s)) \<subseteq> insert p (dom (exps s) - {cur})"
    unfolding putHelper_exps_present [OF Some pc] by (auto split: if_splits)
  then show ?thesis
    using w alloc inj_on_map_upd_fresh [OF w(2) fresh, of k]
    unfolding wf_store_def t n l r d putHelper_frame(1) by auto
qed

lemma putHelper_db:
  assumes wf: "wf_store (insert p P) s" and fresh: "p \<notin> ran (tbl s)" and alloc: "p < st_next s"
  shows "db (putHelper e k p o' s) =
    (\<lambda>k'. if k' = k then Some (obj_Type (st_heap s p), obj_Value (st_heap s p),
        put_expiry o' (Option.bind (tbl s k) (exps s)) (exps s p))
      else if k' \<in> put_victims e k s then None else db s k')"
proof
  fix k'
  show "db (putHelper e k p o' s) k' =
    (if k' = k then Some (obj_Type (st_heap s p), obj_Value (st_heap s p),
        put_expiry o' (Option.bind (tbl s k) (exps s)) (exps s p))
      else if k' \<in> put_victims e k s then None else db s k')"
  proof (cases "tbl s k")
    case (Some cur)
    then have pc: "p \<noteq> cur" using fresh by (auto simp: ran_def)
    have "tbl s k' \<noteq> Some cur" if "k' \<noteq> k" using wf_inj [OF wf Some, of k'] that by auto
    moreover have "tbl s k' \<noteq> Some p" using fresh by (auto simp: ran_def)
    ultimately show ?thesis
      using Some pc
      by (auto simp: db_eq entry_def putHelper_tbl putHelper_exps_present put_victims_def
          split: option.split)
  next
    case None
    let ?s' = "EvictVictims e (ShouldEvict s) (touch e p s)"
    have wf': "wf_store (insert p P) (touch e p s)" using wf by simp
    have x: "exps (putHelper e k p o' s) = exps ?s'"
      using None by (simp add: putHelper_fields put_prepare_absent Let_def)
    have v: "victim_keys e (ShouldEvict s) (touch e p s) = put_victims e k s"
      using None fresh by (simp add: put_victims_def victim_keys_touch)
    have "exps ?s' p = exps s p"
      using fresh by (simp add: EvictVictims_exps_other)
    then show ?thesis
      using None EvictVictims_db [OF wf', of e "ShouldEvict s", THEN fun_cong, of k'] v
      by (auto simp: db_eq [of "putHelper e k p o' s"] entry_def putHelper_tbl x put_expiry_def
          db_eq [of ?s'] EvictVictims_tbl split: option.split)
  qed
qed

section \<open>The commands' view\<close>

lemma put_new_frame [simp]:
  "pes_maxKeys (st_evictionStrategy (put_new e k v d ty o' s)) = pes_maxKeys (st_evictionStrategy s)"
  by (simp add: put_new_def Put_def NewObj_def SetExpiry_def Let_def)

lemma put_new_wf [wf_intros]:
  assumes "wf_store P s"
  shows "wf_store P (put_new e k v d ty o' s)"
proof -
  obtain p s' where n: "NewObj e v d ty s = (p, s')" by (cases "NewObj e v d ty s")
  from putHelper_wf [OF NewObj_wf [OF n assms]] show ?thesis by (simp add: put_new_def n Put_def)
qed

lemma NewObj_victims:
  assumes "NewObj e v d ty s = (p, s')" and "wf_store P s"
  shows "put_victims e' k s' = put_victims e' k s"
proof -
  note n = NewObj_props [OF assms(1)]
  have "tbl s k \<noteq> Some p" for k using wf_alloc [OF assms(2), of k p] n(1) by auto
  then have "eviction_items e' s' = eviction_items e' s"
    using n by (auto simp: eviction_items_def reg.all_set)
  then show ?thesis
    by (simp add: put_victims_def victim_keys_def ShouldEvict_def GetKeyCount_def n)
qed

definition new_expiry :: "env \<Rightarrow> int \<Rightarrow> int option" where
  "new_expiry e d = (if 0 \<le> d then Some (i64 (env_now e + d)) else None)"

definition old_expiry :: "'z entry option \<Rightarrow> int option" where
  "old_expiry x = Option.bind x (\<lambda>y. snd (snd y))"

lemma put_new_db:
  assumes wf: "wf_store {} s"
  shows "db (put_new e k v d ty o' s) =
    (\<lambda>k'. if k' = k then Some (ty, v, put_expiry o' (old_expiry (db s k)) (new_expiry e d))
      else if k' \<in> put_victims e k s then None else db s k')"
proof -
  obtain p s' where n: "NewObj e v d ty s = (p, s')" by (cases "NewObj e v d ty s")
  note np = NewObj_props [OF n]
  have "exps s p = None"
    using wf np(1) by (auto simp: wf_store_def)
  then have x: "exps s' p = new_expiry e d"
    by (simp add: np(6) new_expiry_def)
  have o: "Option.bind (tbl s' k) (exps s') = old_expiry (db s k)"
    using np wf_alloc [OF wf, of k p]
    by (auto simp: old_expiry_def db_eq entry_def split: option.split)
  show ?thesis
    using putHelper_db [OF NewObj_wf [OF n wf], of e k o']
    unfolding NewObj_victims [OF n wf] NewObj_db [OF n wf] x o np(5)
    by (auto simp: put_new_def n Put_def fun_eq_iff)
qed

lemma putHelper_numKeys:
  "st_numKeys (putHelper e k p o' s) =
    (if tbl s k = None then st_numKeys (EvictVictims e (ShouldEvict s) (touch e p s)) + 1 else st_numKeys s)"
  by (cases "tbl s k") (auto simp: putHelper_fields put_prepare_def Let_def split: option.split)

lemma setValue_frame [simp]:
  "st_next (setValue p v s) = st_next s" "st_store (setValue p v s) = st_store s"
  "st_expires (setValue p v s) = st_expires s" "st_numKeys (setValue p v s) = st_numKeys s"
  "st_evictionStrategy (setValue p v s) = st_evictionStrategy s"
  "wf_store P (setValue p v s) = wf_store P s"
  by (simp_all add: setValue_def wf_store_def)

lemma setValue_db:
  assumes "wf_store P s" and "tbl s k = Some p"
  shows "db (setValue p v s) = (db s)(k \<mapsto> (obj_Type (st_heap s p), v, exps s p))"
proof
  fix k'
  show "db (setValue p v s) k' = ((db s)(k \<mapsto> (obj_Type (st_heap s p), v, exps s p))) k'"
    using wf_inj [OF assms, of k'] assms(2)
    by (cases "tbl s k'") (auto simp: db_eq entry_def setValue_def)
qed

lemma SetUnixTimeExpiry_frame [simp]:
  "st_next (SetUnixTimeExpiry p t s) = st_next s" "st_store (SetUnixTimeExpiry p t s) = st_store s"
  "st_heap (SetUnixTimeExpiry p t s) = st_heap s" "st_numKeys (SetUnixTimeExpiry p t s) = st_numKeys s"
  "st_evictionStrategy (SetUnixTimeExpiry p t s) = st_evictionStrategy s"
  "exps (SetUnixTimeExpiry p t s) = (exps s)(p \<mapsto> t)"
  by (auto simp: SetUnixTimeExpiry_def)

lemma DelExpiry_frame [simp]:
  "st_next (DelExpiry p s) = st_next s" "st_store (DelExpiry p s) = st_store s"
  "st_heap (DelExpiry p s) = st_heap s" "st_numKeys (DelExpiry p s) = st_numKeys s"
  "st_evictionStrategy (DelExpiry p s) = st_evictionStrategy s"
  "exps (DelExpiry p s) = (exps s)(p := None)"
  by (auto simp: DelExpiry_def)

lemma expiry_wf [wf_intros]:
  assumes "wf_store P s" and "tbl s k = Some p"
  shows "wf_store P (SetUnixTimeExpiry p t s)" and "wf_store P (DelExpiry p s)"
  using assms by (auto simp: wf_store_def ran_def split: if_splits)

lemma expiry_db:
  assumes "wf_store P s" and "tbl s k = Some p"
  shows "db (SetUnixTimeExpiry p t s) = (db s)(k \<mapsto> (obj_Type (st_heap s p), obj_Value (st_heap s p), Some t))"
    and "db (DelExpiry p s) = (db s)(k \<mapsto> (obj_Type (st_heap s p), obj_Value (st_heap s p), None))"
proof -
  have eq: "x = p \<longleftrightarrow> k' = k" if "tbl s k' = Some x" for k' x
    using wf_inj [OF assms, of k'] assms(2) that by auto
  show "db (SetUnixTimeExpiry p t s) = (db s)(k \<mapsto> (obj_Type (st_heap s p), obj_Value (st_heap s p), Some t))"
    and "db (DelExpiry p s) = (db s)(k \<mapsto> (obj_Type (st_heap s p), obj_Value (st_heap s p), None))"
    by (rule ext, rename_tac k', case_tac "tbl s k'"; use eq assms(2) in \<open>fastforce simp: db_eq entry_def\<close>)+
qed

lemma empty_store_wf:
  "st_store s = NewRegMap \<Longrightarrow> st_expires s = NewRegMap \<Longrightarrow> st_numKeys s = 0 \<Longrightarrow> wf_store P s"
  by (simp add: wf_store_def RegGet_M NewRegMap_def RegLen_def)

end
