(* ===== verification/StoreProps.thy ===== *)
theory StoreProps
  imports StoreInv "HOL-Library.Char_ord" "HOL-Library.List_Lexorder"
begin

text \<open>
  The store's contracts as interfaces, and the properties that rest on them. \<open>eviction_strategy\<close>
  is the Go interface \<open>EvictionStrategy\<close> with the laws \<open>Put\<close> relies on, interpreted by the
  batch eviction of \<open>PrimitiveEvictionStrategy\<close>; \<open>kv_store\<close> is what the commands rely on:
  deletion and lookup against the abstract contents.
\<close>

section \<open>Interfaces\<close>

locale eviction_strategy =
  fixes inv :: "'s \<Rightarrow> bool" and cnt :: "'s \<Rightarrow> int" and cap :: "'s \<Rightarrow> int"
    and should :: "'s \<Rightarrow> int" and victims :: "int \<Rightarrow> 's \<Rightarrow> 's"
  assumes cnt_nonneg: "inv s \<Longrightarrow> 0 \<le> cnt s"
    and should_room: "cnt s < cap s \<Longrightarrow> should s = 0"
    and should_full: "cap s \<le> cnt s \<Longrightarrow> 1 \<le> should s"
    and inv_victims: "inv s \<Longrightarrow> inv (victims n s)"
    and cap_victims: "cap (victims n s) = cap s"
    and cnt_victims: "inv s \<Longrightarrow> 0 < n \<Longrightarrow> cnt (victims n s) = cnt s - min n (cnt s)"
    and no_victims: "n \<le> 0 \<Longrightarrow> victims n s = s"
begin

text \<open>Making room leaves at least one free slot below the capacity.\<close>

lemma make_room:
  assumes "inv s" and "cnt s \<le> max 1 (cap s)"
  shows "cnt (victims (should s) s) + 1 \<le> max 1 (cap s)"
proof (cases "cnt s < cap s")
  case True
  then show ?thesis using should_room [OF True] no_victims [of 0 s] by simp
next
  case False
  then have "1 \<le> should s" by (intro should_full) simp
  with cnt_victims [OF assms(1), of "should s"] cnt_nonneg [OF assms(1)] assms(2) False
  show ?thesis by (simp add: min_def max_def split: if_splits)
qed

end

interpretation lru: eviction_strategy "\<lambda>s. wf_store P s \<and> range_ok e" st_numKeys
  "\<lambda>s. pes_maxKeys (st_evictionStrategy s)" ShouldEvict "EvictVictims e" for P e
  by unfold_locales
    (auto simp: wf_store_def ShouldEvict_def GetKeyCount_def Let_def EvictVictims_wf
      EvictVictims_numKeys [where P = P] simp flip: wf_store_def dest: wf_storeD(5))

locale kv_store =
  fixes inv :: "'s \<Rightarrow> bool" and raw :: "'s \<Rightarrow> 'k \<rightharpoonup> 'v" and content :: "'s \<Rightarrow> 'k \<rightharpoonup> 'v"
    and del :: "'k \<Rightarrow> 's \<Rightarrow> bool \<times> 's" and look :: "'k \<Rightarrow> 's \<Rightarrow> 'v option \<times> 's"
  assumes inv_del: "inv s \<Longrightarrow> inv (snd (del k s))"
    and del_result: "fst (del k s) \<longleftrightarrow> raw s k \<noteq> None"
    and raw_del: "inv s \<Longrightarrow> raw (snd (del k s)) = (raw s)(k := None)"
    and content_del: "inv s \<Longrightarrow> content (snd (del k s)) = (content s)(k := None)"
    and inv_look: "inv s \<Longrightarrow> inv (snd (look k s))"
    and look_result: "fst (look k s) = content s k"
    and content_look: "inv s \<Longrightarrow> content (snd (look k s)) = content s"
begin

text \<open>The two counting loops of the multi-key commands.\<close>

lemma del_loop:
  assumes "fold (\<lambda>k (n, s). let (ok, s') = del k s in (if ok then n + 1 else n, s')) ks (n, s) = (n', s')"
    and "inv s" and "finite (dom (raw s))"
  shows "inv s' \<and> n' = n + int (card (set ks \<inter> dom (raw s))) \<and>
    raw s' = (\<lambda>k. if k \<in> set ks then None else raw s k) \<and>
    content s' = (\<lambda>k. if k \<in> set ks then None else content s k)"
  using assms
proof (induction ks arbitrary: n s)
  case (Cons k ks)
  obtain ok s1 where d: "del k s = (ok, s1)" by (cases "del k s")
  have s1: "inv s1" "raw s1 = (raw s)(k := None)" "content s1 = (content s)(k := None)"
    and ok: "ok \<longleftrightarrow> raw s k \<noteq> None"
    using inv_del [OF Cons.prems(2), of k] raw_del [OF Cons.prems(2), of k]
      content_del [OF Cons.prems(2), of k] del_result [of k s] d by simp_all
  have dom: "dom (raw s1) = dom (raw s) - {k}" by (simp add: s1(2))
  have fin: "finite (dom (raw s1))" using Cons.prems(3) by (simp add: dom)
  have run: "fold (\<lambda>k (n, s). let (ok, s') = del k s in (if ok then n + 1 else n, s')) ks
      (if ok then n + 1 else n, s1) = (n', s')"
    using Cons.prems(1) d by simp
  note IH = Cons.IH [OF run s1(1) fin]
  have "set (k # ks) \<inter> dom (raw s) =
      (if ok then insert k (set ks \<inter> dom (raw s1)) else set ks \<inter> dom (raw s1))"
    using ok by (auto simp: dom)
  moreover have "k \<notin> set ks \<inter> dom (raw s1)" by (simp add: dom)
  ultimately have "int (card (set (k # ks) \<inter> dom (raw s))) =
      (if ok then 1 else 0) + int (card (set ks \<inter> dom (raw s1)))"
    by simp
  with IH have "n' = n + int (card (set (k # ks) \<inter> dom (raw s)))" by simp
  with IH show ?case by (auto simp: s1(2,3))
qed simp

lemma look_loop:
  assumes "fold (\<lambda>k (n, s). let (r, s') = look k s in (if r \<noteq> None then n + 1 else n, s')) ks (n, s) = (n', s')"
    and "inv s"
  shows "inv s' \<and> n' = n + int (length (filter (\<lambda>k. content s k \<noteq> None) ks)) \<and> content s' = content s"
  using assms
proof (induction ks arbitrary: n s)
  case (Cons k ks)
  obtain r s1 where l: "look k s = (r, s1)" by (cases "look k s")
  have s1: "inv s1" "content s1 = content s" and r: "r = content s k"
    using inv_look [OF Cons.prems(2), of k] content_look [OF Cons.prems(2), of k]
      look_result [of k s] l by simp_all
  have run: "fold (\<lambda>k (n, s). let (r, s') = look k s in (if r \<noteq> None then n + 1 else n, s')) ks
      (if r \<noteq> None then n + 1 else n, s1) = (n', s')"
    using Cons.prems(1) l by simp
  note IH = Cons.IH [OF run s1(1)]
  then show ?case using r by (simp add: s1)
qed simp

end

definition lookup_entry :: "env \<Rightarrow> bool \<Rightarrow> string \<Rightarrow> 'z Store \<Rightarrow> 'z entry option \<times> 'z Store" where
  "lookup_entry e tch k s = (let (r, s') = getHelper e k tch s in (map_option (entry s) r, s'))"

lemma lookup_entry_simps:
  "snd (lookup_entry e tch k s) = snd (getHelper e k tch s)"
  "fst (lookup_entry e tch k s) = view e s k"
  by (rule getHelper_cases [of s k e tch]; simp add: lookup_entry_def)+

interpretation kv: kv_store "wf_store P" db "view e" "Del c" "lookup_entry e tch" for P e c tch
  by unfold_locales
    (simp_all add: Del_wf Del_db Del_result db_def view_def live_del lookup_entry_simps getHelper_wf
      getHelper_view [unfolded view_def])

section \<open>A concrete environment\<close>

text \<open>An environment for the witnesses: the clock stands at the given time, iteration is in key
  order, and the pattern matcher knows only equality.\<close>

definition env_at :: "int \<Rightarrow> env" where
  "env_at t = \<lparr>env_now = t, env_range = (\<lambda>m. sorted_list_of_set (dom m)), env_rangeSS = id,
     env_pathMatch = (\<lambda>p k. Some (p = k)), env_ParseFloat = (\<lambda>_. None), env_FormatFloat = (\<lambda>_. []),
     env_xxhash = (\<lambda>_. 0), env_farm = (\<lambda>_. 0),
     env_EXPIREATMax = 10 ^ 10, env_rangeN = sorted_list_of_set,
     env_rangeS = sorted_list_of_set, env_rangeW = sorted_list_of_set\<rparr>"

lemma env_at_now [simp]: "env_now (env_at t) = t"
  by (simp add: env_at_def)

lemma env_at_pathMatch [simp]: "env_pathMatch (env_at t) p k = Some (p = k)"
  by (simp add: env_at_def)

lemma env_at_range [simp]: "range_ok (env_at t)"
  by (simp add: env_at_def range_ok_def)

lemma NewStore_wf [simp]: "wf_store P (NewStore ch st sid)"
  by (rule empty_store_wf) (simp_all add: NewStore_def)

lemma NewStore_db [simp]: "db (NewStore ch st sid) = Map.empty"
  by (simp add: db_eq fun_eq_iff NewStore_def RegGet_M NewRegMap_def)

section \<open>Every reachable state is well-formed\<close>

text \<open>
  The steps that the commands and the shard's timer take on a store. The in-place steps act on an
  object that a lookup has just returned; \<open>rename\<close> is a rename that does not have to make room.
\<close>

inductive store_step :: "env \<Rightarrow> 'z Store \<Rightarrow> 'z Store \<Rightarrow> bool" for e where
  put: "store_step e s (put_new e k v d ty o' s)"
| del: "store_step e s (snd (Del c k s))"
| get: "store_step e s (snd (getHelper e k tch s))"
| getdel: "store_step e s (snd (GetDel e k s))"
| mutate: "getHelper e k tch s = (Some p, s') \<Longrightarrow> store_step e s (setValue p v s')"
| expire: "store_step e s (snd (EvaluateAndSetExpiry e subs t k s))"
| set_expiry: "getHelper e k tch s = (Some p, s') \<Longrightarrow> store_step e s (SetUnixTimeExpiry p t s')"
| del_expiry: "getHelper e k tch s = (Some p, s') \<Longrightarrow> store_step e s (DelExpiry p s')"
| cycle: "store_step e s (DeleteExpiredKeys e s)"
| flush: "store_step e s (Reset s)"
| rename: "ShouldEvict s \<le> 0 \<or> tbl s dst \<noteq> None \<Longrightarrow> store_step e s (snd (Rename e src dst s))"

inductive_cases store_step_cases: "store_step e s s'"

inductive reachable :: "int \<Rightarrow> 'z Store \<Rightarrow> bool" for maxKeys where
  init: "reachable maxKeys (NewStore ch (Some (NewPrimitiveEvictionStrategy maxKeys)) sid)"
| step: "\<lbrakk>reachable maxKeys s; range_ok e; store_step e s s'\<rbrakk> \<Longrightarrow> reachable maxKeys s'"

lemma GetDel_eq: "snd (GetDel e k s) = snd (Del cmdDel k s)"
  by (simp add: GetDel_def Del_cases Let_def split: option.split)

lemma getHelper_Some_wf:
  assumes "getHelper e k tch s = (Some p, s')" and "wf_store P s"
  shows "wf_store P s'" and "tbl s' k = Some p" and "tbl s' = tbl s" and "entry s' = entry s"
  using getHelper_wf [OF assms(2), of e k tch] getHelper_Some [of e k tch s p] assms(1)
  by (auto simp: fun_eq_iff)

lemma EvaluateAndSetExpiry_cases:
  obtains (same) "snd (EvaluateAndSetExpiry e subs t k s) = snd (Get e k s)"
  | (set) p s' where "Get e k s = (Some p, s')"
      "snd (EvaluateAndSetExpiry e subs t k s) = SetUnixTimeExpiry p t s'"
proof -
  obtain r s' where g: "Get e k s = (r, s')" by (cases "Get e k s")
  have "snd (EvaluateAndSetExpiry e subs t k s) = s' \<or>
      (\<exists>p. r = Some p \<and> snd (EvaluateAndSetExpiry e subs t k s) = SetUnixTimeExpiry p t s')"
    by (cases r) (auto simp: EvaluateAndSetExpiry_def g split: sum.split)
  with g same set show ?thesis by auto
qed

lemma DeleteExpired_loop:
  fixes e :: env
  assumes "wf_store P s" and "distinct (map fst kvs)" and "\<And>k p. (k, p) \<in> set kvs \<Longrightarrow> tbl s k = Some p"
  defines "s' \<equiv> fold (\<lambda>(k, obj) s. if hasExpired e obj s then snd (DelByPtr cmdDel k s) else s) kvs s"
  shows "wf_store P s' \<and> pes_maxKeys (st_evictionStrategy s') = pes_maxKeys (st_evictionStrategy s) \<and>
    st_heap s' = st_heap s \<and> st_next s' = st_next s \<and>
    db s' = (\<lambda>k. if k \<in> fst ` set kvs then view e s k else db s k)"
  using assms(1-3) unfolding s'_def
proof (induction kvs arbitrary: s)
  case (Cons kp kvs)
  obtain k p where kp: "kp = (k, p)" by force
  let ?s1 = "if hasExpired e p s then snd (Del cmdDel k s) else s"
  have k: "tbl s k = Some p" using Cons.prems(3) kp by simp
  have wf1: "wf_store P ?s1" using Cons.prems(1) by (simp add: Del_wf)
  have k1: "tbl ?s1 k' = Some p'" if "(k', p') \<in> set kvs" for k' p'
    using that Cons.prems(2,3) kp by (force simp: Del_tbl)
  have vk: "view e s k = (if hasExpired e p s then None else db s k)"
    using k by (simp add: view_eq db_eq)
  have db1: "db ?s1 = (db s)(k := view e s k)"
    using Del_db [OF Cons.prems(1), of cmdDel k] by (auto simp: vk)
  have v1: "view e ?s1 k' = view e s k'" if "k' \<noteq> k" for k'
    using that db1 by (simp add: view_def live_def)
  let ?f = "\<lambda>(k, obj) s. if hasExpired e obj s then snd (DelByPtr cmdDel k s) else s"
  have run: "fold ?f (kp # kvs) s = fold ?f kvs ?s1"
    by (simp add: kp DelByPtr_eq_Del)
  have "distinct (map fst kvs)" and notin: "k \<notin> fst ` set kvs" using Cons.prems(2) kp by simp_all
  note IH = Cons.IH [OF wf1 this(1) k1]
  have "db (fold ?f kvs ?s1) = (\<lambda>k. if k \<in> fst ` set (kp # kvs) then view e s k else db s k)"
  proof
    fix k'
    show "db (fold ?f kvs ?s1) k' = (if k' \<in> fst ` set (kp # kvs) then view e s k' else db s k')"
      using IH notin v1 [of k'] by (cases "k' = k") (simp_all add: db1 kp)
  qed
  with IH show ?case unfolding run by simp
qed simp

lemma DeleteExpiredKeys_spec:
  assumes "wf_store P s" and "range_ok e"
  shows "wf_store P (DeleteExpiredKeys e s)" and "db (DeleteExpiredKeys e s) = view e s"
    and "pes_maxKeys (st_evictionStrategy (DeleteExpiredKeys e s)) = pes_maxKeys (st_evictionStrategy s)"
proof -
  let ?kvs = "RegAll (env_range e (reg_M (st_store s))) (st_store s)"
  have r: "distinct (env_range e (reg_M (st_store s)))" "set (env_range e (reg_M (st_store s))) = dom (tbl s)"
    using range_ok_tbl [OF assms(2,1)] by simp_all
  have d: "distinct (map fst ?kvs)" "set ?kvs = {(k, p). tbl s k = Some p}"
    by (rule reg.all_distinct [OF r(1)], rule reg.all_complete [OF r(2)])
  have "fst ` set ?kvs = dom (tbl s)" unfolding d(2) by force
  then have "(\<lambda>k. if k \<in> fst ` set ?kvs then view e s k else db s k) = view e s"
    by (auto simp: fun_eq_iff view_eq db_eq split: option.split)
  with DeleteExpired_loop [OF assms(1) d(1), of e] d(2)
  show "wf_store P (DeleteExpiredKeys e s)" and "db (DeleteExpiredKeys e s) = view e s"
    and "pes_maxKeys (st_evictionStrategy (DeleteExpiredKeys e s)) = pes_maxKeys (st_evictionStrategy s)"
    unfolding DeleteExpiredKeys_def by simp_all
qed

section \<open>Renaming\<close>

text \<open>The keys a rename evicts to make room; the source object has just been touched.\<close>

definition rename_victims :: "env \<Rightarrow> string \<Rightarrow> string \<Rightarrow> 'z Store \<Rightarrow> string set" where
  "rename_victims e src dst s =
     (if tbl s dst = None then victim_keys e (ShouldEvict s) (touch e (the (tbl s src)) s) else {})"

lemma Rename_eq:
  assumes "view e s src \<noteq> None" and "src \<noteq> dst" and "tbl s src = Some p"
  defines "s1 \<equiv> putHelper e dst p (getDefaultPutOptions\<lparr>PutCmd := cmdSet\<rparr>) s"
  shows "fst (Rename e src dst s)" and "st_store (snd (Rename e src dst s)) = RegDelete src (st_store s1)"
    and "st_expires (snd (Rename e src dst s)) = st_expires s1" and "st_heap (snd (Rename e src dst s)) = st_heap s1"
    and "st_numKeys (snd (Rename e src dst s)) = st_numKeys s1 - 1"
    and "st_next (snd (Rename e src dst s)) = st_next s1"
    and "st_evictionStrategy (snd (Rename e src dst s)) = st_evictionStrategy s1"
  using assms by (simp_all add: Rename_def view_eq Let_def split: if_splits)

lemma putHelper_rename_present:
  assumes wf: "wf_store {} s" and src: "tbl s src = Some p" and ne: "src \<noteq> dst"
    and keep: "\<not> KeepTTL o'" and dst: "tbl s dst = Some cur"
  shows "exps (putHelper e dst p o' s) = (exps s)(cur := None)" and "p \<noteq> cur"
proof -
  show pc: "p \<noteq> cur" using wf_inj [OF wf src, of dst] dst ne by auto
  show "exps (putHelper e dst p o' s) = (exps s)(cur := None)"
    unfolding putHelper_exps_present [OF dst pc] using keep pc
    by (auto simp: put_expiry_def split: option.split)
qed

lemma EvictVictims_exps:
  assumes wf: "wf_store {} s" and k: "tbl s k = Some q"
  shows "exps (EvictVictims e n s) q = (if k \<in> victim_keys e n s then None else exps s q)"
proof (cases "k \<in> victim_keys e n s")
  case True
  have "tbl (EvictVictims e n s) k' \<noteq> Some q" for k'
    using True wf_inj [OF wf k, of k'] by (auto simp: EvictVictims_tbl)
  then have "q \<notin> ran (tbl (EvictVictims e n s))" by (auto simp: ran_def)
  moreover have "dom (exps (EvictVictims e n s)) \<subseteq> ran (tbl (EvictVictims e n s))"
    using EvictVictims_wf [OF wf] by (simp add: wf_store_def)
  ultimately show ?thesis using True by (auto simp: domIff)
next
  case False
  then show ?thesis
    using EvictVictims_db [OF wf, of e n, THEN fun_cong, of k] k
    by (simp add: db_eq EvictVictims_tbl entry_def)
qed

lemma putHelper_rename_exps:
  assumes wf: "wf_store {} s" and src: "tbl s src = Some p" and ne: "src \<noteq> dst"
    and keep: "\<not> KeepTTL o'" and V: "V = rename_victims e src dst s"
    and k: "tbl s k = Some q" "k \<noteq> dst"
  shows "exps (putHelper e dst p o' s) q = (if k \<in> V then None else exps s q)"
proof (cases "tbl s dst")
  case (Some cur)
  have "q \<noteq> cur" using wf_inj [OF wf Some, of k] k by auto
  with putHelper_rename_present [OF wf src ne keep Some] show ?thesis
    by (simp add: V rename_victims_def Some)
next
  case None
  then have "exps (putHelper e dst p o' s) = exps (EvictVictims e (ShouldEvict s) (touch e p s))"
    by (simp add: putHelper_fields put_prepare_absent Let_def)
  with EvictVictims_exps [of "touch e p s" k q e "ShouldEvict s"] wf k None src show ?thesis
    by (simp add: V rename_victims_def)
qed

lemma Rename_db:
  assumes wf: "wf_store {} s" and v: "view e s src = Some (ty, x, ttl)" and ne: "src \<noteq> dst"
    and Vdef: "V = rename_victims e src dst s"
  defines "s' \<equiv> snd (Rename e src dst s)"
  shows "fst (Rename e src dst s)"
    and "db s' = (\<lambda>k. if k = dst then Some (ty, x, if src \<in> V then None else ttl)
                       else if k = src \<or> k \<in> V then None else db s k)"
proof -
  obtain p where src: "tbl s src = Some p" and en: "entry s p = (ty, x, ttl)"
    using v by (auto simp: view_eq split: option.splits if_splits)
  have v': "view e s src \<noteq> None" using v by simp
  note r = Rename_eq [OF v' ne src]
  from r(1) show "fst (Rename e src dst s)" .
  let ?o = "getDefaultPutOptions\<lparr>PutCmd := cmdSet\<rparr>"
  have keep: "\<not> KeepTTL ?o" by (simp add: getDefaultPutOptions_def)
  note xp = putHelper_rename_exps [OF wf src ne keep Vdef]
  have t: "tbl s' k = (if k = dst then Some p else if k = src \<or> k \<in> V then None else tbl s k)" for k
    using ne by (auto simp: s'_def r(2) putHelper_tbl Vdef rename_victims_def src)
  show "db s' = (\<lambda>k. if k = dst then Some (ty, x, if src \<in> V then None else ttl)
                       else if k = src \<or> k \<in> V then None else db s k)"
  proof
    fix k
    have h: "obj_Type (st_heap s' q) = obj_Type (st_heap s q)" "obj_Value (st_heap s' q) = obj_Value (st_heap s q)"
      "exps s' q = exps (putHelper e dst p ?o s) q" for q
      by (simp_all add: s'_def r(3,4))
    show "db s' k = (if k = dst then Some (ty, x, if src \<in> V then None else ttl)
                       else if k = src \<or> k \<in> V then None else db s k)"
      using en xp [OF src ne] xp [of k]
      by (cases "tbl s k") (auto simp: db_eq t entry_def h)
  qed
qed

lemma Rename_numKeys:
  assumes wf: "wf_store {} s" and v: "view e s src \<noteq> None" and ne: "src \<noteq> dst"
    and Vdef: "V = rename_victims e src dst s"
  defines "s' \<equiv> snd (Rename e src dst s)"
  shows "st_numKeys s' = int (card (dom (tbl s'))) - (if src \<in> V then 1 else 0)"
    and "st_numKeys s' \<le> RegLen (st_store s')"
proof -
  obtain p where src: "tbl s src = Some p"
    using v by (auto simp: view_eq split: option.splits)
  note r = Rename_eq [OF v ne src]
  let ?o = "getDefaultPutOptions\<lparr>PutCmd := cmdSet\<rparr>"
  let ?t = "touch e p s"
  let ?s' = "EvictVictims e (ShouldEvict s) ?t"
  have wft: "wf_store {} ?t" using wf by simp
  have t: "tbl s' k = (if k = dst then Some p else if k = src \<or> k \<in> V then None else tbl s k)" for k
    using ne by (auto simp: s'_def r(2) putHelper_tbl Vdef rename_victims_def src)
  have fin: "finite (dom (tbl s))" using wf by (simp add: wf_store_def)
  have "st_numKeys s' = int (card (dom (tbl s'))) - (if src \<in> V then 1 else 0) \<and>
    st_numKeys s' \<le> RegLen (st_store s')"
  proof (cases "tbl s dst")
    case (Some cur)
    have V: "V = {}" by (simp add: Vdef rename_victims_def Some)
    have n: "st_numKeys s' = st_numKeys s - 1"
      and l: "RegLen (st_store s') = RegLen (st_store s)"
      using Some by (auto simp: s'_def r(2,5) putHelper_numKeys putHelper_fields put_prepare_def Let_def split: option.split)
    have "dom (tbl s') = dom (tbl s) - {src}" using Some ne by (auto simp: t V dom_def split: if_splits)
    then show ?thesis
      using n l V wf card_Suc_Diff1 [OF fin, of src] src by (simp add: wf_store_def domI)
  next
    case None
    have V: "V = victim_keys e (ShouldEvict s) ?t" by (simp add: Vdef rename_victims_def None src)
    note w = EvictVictims_wf [OF wft, of e "ShouldEvict s"]
    have t': "tbl ?s' = (\<lambda>k. if k \<in> V then None else tbl s k)"
      by (auto simp: EvictVictims_tbl V)
    have n: "st_numKeys s' = st_numKeys ?s'" and l: "RegLen (st_store s') = RegLen (st_store ?s')"
      using None by (simp_all add: s'_def r(2,5) putHelper_numKeys putHelper_fields put_prepare_absent Let_def)
    have d: "dom (tbl s') = insert dst (dom (tbl ?s') - {src})"
      using None ne by (auto simp: t t' dom_def split: if_splits)
    have fin': "finite (dom (tbl ?s'))" and dd: "dst \<notin> dom (tbl ?s')"
      using w None by (auto simp: wf_store_def t' split: if_splits)
    have "card (dom (tbl s')) = Suc (card (dom (tbl ?s') - {src}))"
      unfolding d using fin' dd by (intro card_insert_disjoint) auto
    also have "\<dots> = (if src \<in> V then Suc (card (dom (tbl ?s'))) else card (dom (tbl ?s')))"
      using card_Suc_Diff1 [OF fin', of src] src by (auto simp: t' domIff)
    finally show ?thesis using n l w by (auto simp: wf_store_def)
  qed
  then show "st_numKeys s' = int (card (dom (tbl s'))) - (if src \<in> V then 1 else 0)"
    and "st_numKeys s' \<le> RegLen (st_store s')" by blast+
qed

lemma Rename_other:
  assumes "view e s src = None \<or> src = dst"
  shows "snd (Rename e src dst s) = s \<or> (\<exists>c. snd (Rename e src dst s) = snd (Del c src s))"
proof (cases "src = dst")
  case False
  show ?thesis
  proof (cases "tbl s src")
    case (Some p)
    with assms False show ?thesis
      by (intro disjI2 exI [of _ cmdRename])
        (simp add: Rename_def Del_cases view_eq split: if_splits)
  qed (simp add: Rename_def)
qed (simp add: Rename_def)

lemma Rename_wf:
  assumes wf: "wf_store {} s" and room: "ShouldEvict s \<le> 0 \<or> tbl s dst \<noteq> None"
  shows "wf_store {} (snd (Rename e src dst s))" and "st_numKeys (snd (Rename e src dst s)) \<le> st_numKeys s"
    and "pes_maxKeys (st_evictionStrategy (snd (Rename e src dst s))) = pes_maxKeys (st_evictionStrategy s)"
proof -
  let ?s' = "snd (Rename e src dst s)"
  have "wf_store {} ?s' \<and> st_numKeys ?s' \<le> st_numKeys s \<and>
    pes_maxKeys (st_evictionStrategy ?s') = pes_maxKeys (st_evictionStrategy s)"
  proof (cases "view e s src = None \<or> src = dst")
    case True
    then have "?s' = s \<or> (\<exists>c. ?s' = snd (Del c src s))" by (rule Rename_other)
    then show ?thesis
    proof
      assume "\<exists>c. ?s' = snd (Del c src s)"
      then obtain c where c: "?s' = snd (Del c src s)" by blast
      have "st_numKeys (snd (Del c src s)) \<le> st_numKeys s"
        by (simp add: Del_cases split: option.split)
      with Del_wf [OF wf, of c src] show ?thesis by (simp add: c)
    qed (use wf in simp)
  next
    case False
    then have v: "view e s src \<noteq> None" and ne: "src \<noteq> dst" by auto
    then obtain p where src: "tbl s src = Some p" by (auto simp: view_eq split: option.splits)
    note r = Rename_eq [OF v ne src]
    let ?o = "getDefaultPutOptions\<lparr>PutCmd := cmdSet\<rparr>"
    have V: "rename_victims e src dst s = {}"
      using room by (auto simp: rename_victims_def victim_keys_def)
    have t: "tbl ?s' = (tbl s)(src := None, dst \<mapsto> p)"
      using ne V by (auto simp: r(2) putHelper_tbl rename_victims_def src fun_eq_iff split: if_splits)
    note w = wf_storeD [OF wf]
    have fresh: "p \<notin> ran ((tbl s)(src := None))"
      using ran_map_del_inj [OF w(2) src] by simp
    have inj: "inj_on ((tbl s)(src := None)) (dom ((tbl s)(src := None)))"
      by (rule inj_on_map_del [OF w(2)])
    have x: "dom (exps ?s') \<subseteq> ran (tbl ?s')"
    proof (cases "tbl s dst")
      case (Some cur)
      have keep: "\<not> KeepTTL ?o" by (simp add: getDefaultPutOptions_def)
      have d: "((tbl s)(src := None)) dst = Some cur" using Some ne by simp
      have "ran (tbl ?s') = insert p (ran (tbl s) - {p} - {cur})"
        unfolding t ran_map_upd_inj [OF inj d] ran_map_del_inj [OF w(2) src] ..
      then show ?thesis
        using w(4) unfolding r(3) putHelper_rename_present(1) [OF wf src ne keep Some] by auto
    next
      case None
      then have ev: "ShouldEvict s \<le> 0" using room by simp
      have "((tbl s)(src := None)) dst = None" using None by simp
      then have "ran (tbl ?s') = insert p (ran (tbl s) - {p})"
        unfolding t using ran_map_upd [of "(tbl s)(src := None)" dst p] ran_map_del_inj [OF w(2) src] by simp
      moreover have "exps ?s' = exps s"
        using None ev by (simp add: r(3) putHelper_fields put_prepare_absent Let_def)
      ultimately show ?thesis using w(4) src by (auto simp: ran_def)
    qed
    have n: "st_numKeys ?s' \<le> st_numKeys s"
      using room by (auto simp: r(5) putHelper_numKeys)
    have "ran (tbl ?s') \<subseteq> {..<st_next s}"
      using w(3) src unfolding t by (auto simp: ran_def split: if_splits)
    then show ?thesis
      using n x Rename_numKeys [OF wf v ne V [symmetric]] inj_on_map_upd_fresh [OF inj fresh, of dst] w(1)
      unfolding wf_store_def by (simp add: t r(6,7))
  qed
  then show "wf_store {} ?s'" and "st_numKeys ?s' \<le> st_numKeys s"
    and "pes_maxKeys (st_evictionStrategy ?s') = pes_maxKeys (st_evictionStrategy s)" by blast+
qed

section \<open>Preservation by every step\<close>

definition bounded :: "'z Store \<Rightarrow> bool" where
  "bounded s \<longleftrightarrow> st_numKeys s \<le> max 1 (pes_maxKeys (st_evictionStrategy s))"

lemma put_new_bounded:
  assumes "wf_store {} s" and "range_ok e" and "bounded s"
  shows "bounded (put_new e k v d ty o' s)"
proof -
  obtain p s' where n: "NewObj e v d ty s = (p, s')" by (cases "NewObj e v d ty s")
  note np = NewObj_props [OF n]
  have "wf_store {p} (touch e p s') \<and> range_ok e" using NewObj_wf(1) [OF n assms(1)] assms(2) by simp
  moreover have "st_numKeys (touch e p s') \<le> max 1 (pes_maxKeys (st_evictionStrategy (touch e p s')))"
    using assms(3) np(7,8) by (simp add: bounded_def)
  ultimately have "st_numKeys (EvictVictims e (ShouldEvict (touch e p s')) (touch e p s')) + 1
      \<le> max 1 (pes_maxKeys (st_evictionStrategy (touch e p s')))"
    by (rule lru.make_room)
  then have "st_numKeys (putHelper e k p o' s') \<le> max 1 (pes_maxKeys (st_evictionStrategy s'))"
    using assms(3) by (simp add: putHelper_numKeys bounded_def np(7,8))
  then show ?thesis
    by (simp add: bounded_def put_new_def n Put_def np(7))
qed

lemma getHelper_numKeys: "st_numKeys (snd (getHelper e k t s)) \<le> st_numKeys s"
  by (rule getHelper_cases [of s k e t]) auto

lemma finite_db: "wf_store P s \<Longrightarrow> st_numKeys s = int (card (dom (db s)))"
proof -
  assume "wf_store P s"
  moreover have "dom (db s) = dom (tbl s)" by (auto simp: db_eq split: option.splits)
  ultimately show ?thesis by (simp add: wf_store_def)
qed

definition good :: "int \<Rightarrow> 'z Store \<Rightarrow> bool" where
  "good mk s \<longleftrightarrow> wf_store {} s \<and> bounded s \<and> pes_maxKeys (st_evictionStrategy s) = mk"

lemma good_smaller:
  assumes "good mk s" and "wf_store {} s'" and "st_numKeys s' \<le> st_numKeys s"
    and "pes_maxKeys (st_evictionStrategy s') = pes_maxKeys (st_evictionStrategy s)"
  shows "good mk s'"
proof -
  have "st_numKeys s \<le> max 1 mk" using assms(1) by (auto simp: good_def bounded_def)
  with assms(3) have "st_numKeys s' \<le> max 1 mk" by (rule order_trans)
  with assms(1,2,4) show ?thesis by (simp add: good_def bounded_def)
qed

lemma good_wf: "good mk s \<Longrightarrow> wf_store {} s"
  by (simp add: good_def)

lemma Del_good: "good mk s \<Longrightarrow> good mk (snd (Del c k s))"
  by (rule good_smaller, assumption)
    (auto simp: Del_cases good_def intro: deleteKey_wf split: option.split)

lemma getHelper_good: "good mk s \<Longrightarrow> good mk (snd (getHelper e k tch s))"
  by (rule good_smaller, assumption)
    (auto simp: getHelper_numKeys good_def intro: getHelper_wf)

lemma in_place_good:
  assumes "getHelper e k tch s = (Some p, s1)" and "good mk s"
  shows "good mk (SetUnixTimeExpiry p t s1)" and "good mk (DelExpiry p s1)" and "good mk (setValue p v s1)"
proof -
  have g: "good mk s1" using getHelper_good [OF assms(2), of e k tch] assms(1) by simp
  note w = expiry_wf [OF getHelper_Some_wf(1,2) [OF assms(1) good_wf [OF assms(2)]]]
  show "good mk (SetUnixTimeExpiry p t s1)" by (rule good_smaller [OF g w(1)]) simp_all
  show "good mk (DelExpiry p s1)" by (rule good_smaller [OF g w(2)]) simp_all
  show "good mk (setValue p v s1)" by (rule good_smaller [OF g]) (simp_all add: good_wf [OF g])
qed

lemma put_new_good:
  assumes "good mk s" and "range_ok e"
  shows "good mk (put_new e k v d ty o' s)"
  using assms put_new_wf put_new_bounded by (auto simp: good_def)

lemma cycle_good:
  assumes g: "good mk s" and ok: "range_ok e"
  shows "good mk (DeleteExpiredKeys e s)"
proof -
  note wf = good_wf [OF g]
  note d = DeleteExpiredKeys_spec [OF wf ok]
  have "dom (view e s) \<subseteq> dom (db s)" by (auto simp: view_def live_def split: option.splits)
  moreover have "finite (dom (db s))"
    using wf by (auto simp: wf_store_def db_eq dom_def split: option.splits)
  ultimately have "card (dom (view e s)) \<le> card (dom (db s))" by (simp add: card_mono)
  then show ?thesis
    using d finite_db [OF d(1)] finite_db [OF wf] by (intro good_smaller [OF g]) simp_all
qed

lemma step_good:
  assumes "store_step e s s'" and g: "good mk s" and ok: "range_ok e"
  shows "good mk s'"
  using assms(1)
proof cases
  case (put k v d ty o')
  then show ?thesis using put_new_good [OF g ok] by simp
next
  case (expire subs t k)
  show ?thesis
    by (cases rule: EvaluateAndSetExpiry_cases [of e subs t k s])
      (use expire getHelper_good [OF g] in_place_good(1) [OF _ g] in \<open>simp_all add: Get_def\<close>)
next
  case cycle
  then show ?thesis using cycle_good [OF g ok] by simp
next
  case flush
  have "wf_store {} (Reset s)" by (rule empty_store_wf) (simp_all add: Reset_def)
  then have "good mk (Reset s)"
    by (rule good_smaller [OF g]) (use good_wf [OF g] in \<open>simp_all add: Reset_def wf_store_def\<close>)
  then show ?thesis using flush by simp
next
  case (rename dst src)
  then show ?thesis using Rename_wf [OF good_wf [OF g]] by (auto intro: good_smaller [OF g])
qed (use Del_good [OF g] getHelper_good [OF g] in_place_good [OF _ g] in \<open>simp_all add: GetDel_eq\<close>)

lemma reachable_good: "reachable mk s \<Longrightarrow> good mk s"
proof (induction rule: reachable.induct)
  case (init ch sid)
  have "bounded (NewStore ch (Some (NewPrimitiveEvictionStrategy mk)) sid)"
    by (simp add: bounded_def NewStore_def)
  then show ?case by (simp add: good_def NewStore_def [THEN arg_cong [of _ _ st_evictionStrategy]] NewPrimitiveEvictionStrategy_def)
next
  case (step s e s')
  then show ?case by (blast intro: step_good)
qed

end
