(* ===== verification/CmdCore.thy ===== *)
theory CmdCore
  imports StoreProps
begin

text \<open>
  What the commands of \<^verbatim>\<open>internal/cmd\<close> share: the command and its result as they travel over the
  wire, the parameter parser, the conversion between wire strings and objects, and the outcome of
  one evaluation. A \<open>*CmdRes\<close> is its \<open>wire.Result\<close>; \<open>rs_Var\<close> names the package-level variable the
  code returns a pointer to (\<^verbatim>\<open>HGETResNilRes\<close> and the like), because all callers share its fields,
  and \<open>rs_Fingerprint64\<close> is the assignment this evaluation makes to that field, if any. \<open>C_Meta\<close> names the
  registered command that a \<open>*CommandMeta\<close> points to, when the command has been resolved.
\<close>

section \<open>Commands and results\<close>

datatype Status = Status_OK | Status_ERR

datatype Response =
    SETRes | GETRes string | GETSETRes string | GETDELRes string | GETEXRes string
  | INCRRes int | INCRBYRes int | DECRRes int | DECRBYRes int
  | DELRes int | EXISTSRes int | EXPIRERes bool | EXPIREATRes bool | EXPIRETIMERes int | TTLRes int
  | TYPERes string | KEYSRes "string list" | FLUSHDBRes | ECHORes string | PINGRes string
  | HANDSHAKERes | UNWATCHRes
  | HGETRes string | HSETRes int | HGETALLRes "(string \<times> string) list"
  | ZADDRes int | ZCARDRes int | ZCOUNTRes int | ZREMRes int
  | ZRANGERes "(int \<times> int \<times> string) list" | ZRANKRes "(int \<times> int \<times> string) option"
  | ZPOPMAXRes "(int \<times> int \<times> string) list" | ZPOPMINRes "(int \<times> int \<times> string) list"
  | GETWATCHRes | HGETWATCHRes | HGETALLWATCHRes | ZCARDWATCHRes | ZCOUNTWATCHRes | ZRANGEWATCHRes
  | ZRANKWATCHRes

record Result =
  rs_Message :: string
  rs_Status :: Status
  rs_Response :: "Response option"
  rs_Fingerprint64 :: "64 word option"
  rs_Var :: "string option"

record Cmd =
  C_Cmd :: string
  C_Args :: "string list"
  C_IsReplay :: bool
  C_ClientID :: string
  C_Mode :: string
  C_Meta :: "string option"

definition String :: "Cmd \<Rightarrow> string" where
  "String c = C_Cmd c @ '' '' @ Join (C_Args c) '' ''"

definition Fingerprint :: "env \<Rightarrow> Cmd \<Rightarrow> 64 word" where
  "Fingerprint e c = env_farm e (String c)"

definition Key :: "Cmd \<Rightarrow> string" where
  "Key c = (if length (C_Args c) > 0 then C_Args c ! 0 else '''')"

text \<open>A freshly allocated OK result, and a package-level one.\<close>

definition ok_res :: "Response \<Rightarrow> Result" where
  "ok_res r = \<lparr>rs_Message = ''OK'', rs_Status = Status_OK, rs_Response = Some r,
     rs_Fingerprint64 = None, rs_Var = None\<rparr>"

definition var_res :: "string \<Rightarrow> Response \<Rightarrow> Result" where
  "var_res v r = (ok_res r)\<lparr>rs_Var := Some v\<rparr>"

definition err_res :: "dice_error \<Rightarrow> Result" where
  "err_res err = \<lparr>rs_Message = Error err, rs_Status = Status_ERR, rs_Response = None,
     rs_Fingerprint64 = None, rs_Var = None\<rparr>"

text \<open>What an evaluation gives: result and error (either may be nil) and the new store, or a panic.\<close>

type_synonym 'z reply = "((Result option \<times> dice_error option) \<times> 'z Store) outcome"

abbreviation reply_ok :: "Result \<Rightarrow> 'z Store \<Rightarrow> 'z reply" where
  "reply_ok r s \<equiv> Ret ((Some r, None), s)"

abbreviation reply_err :: "Result \<Rightarrow> dice_error \<Rightarrow> 'z Store \<Rightarrow> 'z reply" where
  "reply_err r err s \<equiv> Ret ((Some r, Some err), s)"

section \<open>Parameters\<close>

type_synonym params = "string \<rightharpoonup> string"

text \<open>Reading a missing key of a Go map gives the empty string.\<close>

definition param :: "params \<Rightarrow> string \<Rightarrow> string" where
  "param ps p = (case ps p of None \<Rightarrow> '''' | Some v \<Rightarrow> v)"

definition given :: "params \<Rightarrow> string \<Rightarrow> bool" where
  "given ps p \<longleftrightarrow> param ps p \<noteq> ''''"

text \<open>A parameter that takes a value reads \<open>args[i+1]\<close>, which is out of range for the last one.\<close>

definition takes_value :: "string \<Rightarrow> bool" where
  "takes_value p \<longleftrightarrow> p \<in> {''EX'', ''PX'', ''EXAT'', ''PXAT''}"

definition is_flag :: "string \<Rightarrow> bool" where
  "is_flag p \<longleftrightarrow> p \<in> {''XX'', ''NX'', ''KEEPTTL'', ''LT'', ''GT'', ''CH'', ''INCR''}"

fun parse_loop :: "string list \<Rightarrow> params \<Rightarrow> string list \<Rightarrow> (params \<times> string list) outcome" where
  "parse_loop [] ps np = Ret (ps, np)"
| "parse_loop (a # args) ps np =
     (if takes_value (ToUpper a) then
        (case args of [] \<Rightarrow> Panic | v # rest \<Rightarrow> parse_loop rest (ps(ToUpper a \<mapsto> v)) np)
      else if is_flag (ToUpper a) then
        parse_loop args (ps(ToUpper a \<mapsto> ''true'')) np
      else parse_loop args ps (np @ [a]))"

definition parseParams :: "string list \<Rightarrow> (params \<times> string list) outcome" where
  "parseParams args = parse_loop args Map.empty []"

definition MaxEXDurationSec :: int where
  "MaxEXDurationSec = 365 * 24 * 60 * 60"

text \<open>The four blocks that turn EX, PX, EXAT and PXAT into a duration, shared by SET and GETEX.\<close>

definition dur_EX :: "string \<Rightarrow> params \<Rightarrow> int \<Rightarrow> dice_error + int" where
  "dur_EX cmd ps d =
     (if \<not> given ps ''EX'' then Inr d
      else case ParseInt (param ps ''EX'') of
          None \<Rightarrow> Inl (ErrInvalidValue cmd ''EX'')
        | Some sec \<Rightarrow> if sec \<le> 0 \<or> sec \<ge> MaxEXDurationSec then Inl (ErrInvalidValue cmd ''EX'')
                       else Inr (i64 (sec * 1000)))"

definition dur_PX :: "string \<Rightarrow> params \<Rightarrow> int \<Rightarrow> dice_error + int" where
  "dur_PX cmd ps d =
     (if \<not> given ps ''PX'' then Inr d
      else case ParseInt (param ps ''PX'') of
          None \<Rightarrow> Inl (ErrInvalidValue cmd ''PX'')
        | Some ms \<Rightarrow> if ms \<le> 0 \<or> ms \<ge> MaxEXDurationSec then Inl (ErrInvalidValue cmd ''PX'')
                      else Inr ms)"

definition dur_EXAT :: "env \<Rightarrow> string \<Rightarrow> params \<Rightarrow> int \<Rightarrow> dice_error + int" where
  "dur_EXAT e cmd ps d =
     (if \<not> given ps ''EXAT'' then Inr d
      else case ParseInt (param ps ''EXAT'') of
          None \<Rightarrow> Inl (ErrInvalidValue cmd ''EXAT'')
        | Some tv \<Rightarrow>
            let sec = i64 (tv - env_now e div 1000) in
            if sec \<le> 0 \<or> sec \<ge> MaxEXDurationSec then Inl (ErrInvalidValue cmd ''EXAT'')
            else Inr (i64 (sec * 1000)))"

definition dur_PXAT :: "env \<Rightarrow> string \<Rightarrow> params \<Rightarrow> int \<Rightarrow> dice_error + int" where
  "dur_PXAT e cmd ps d =
     (if \<not> given ps ''PXAT'' then Inr d
      else case ParseInt (param ps ''PXAT'') of
          None \<Rightarrow> Inl (ErrInvalidValue cmd ''PXAT'')
        | Some tv \<Rightarrow>
            let ms = i64 (tv - env_now e) in
            if ms \<le> 0 \<or> ms \<ge> MaxEXDurationSec * 1000 then Inl (ErrInvalidValue cmd ''PXAT'')
            else Inr ms)"

fun bind_sum :: "'e + 'a \<Rightarrow> ('a \<Rightarrow> 'e + 'b) \<Rightarrow> 'e + 'b" where
  "bind_sum (Inl err) f = Inl err"
| "bind_sum (Inr x) f = f x"

definition exDuration :: "env \<Rightarrow> string \<Rightarrow> params \<Rightarrow> dice_error + int" where
  "exDuration e cmd ps =
     bind_sum (dur_EX cmd ps (-1)) (\<lambda>d. bind_sum (dur_PX cmd ps d) (\<lambda>d.
       bind_sum (dur_EXAT e cmd ps d) (dur_PXAT e cmd ps)))"

definition expiry_conflict :: "params \<Rightarrow> bool" where
  "expiry_conflict ps \<longleftrightarrow>
     (given ps ''EX'' \<and> given ps ''PX'') \<or> (given ps ''EX'' \<and> given ps ''EXAT'') \<or>
     (given ps ''EX'' \<and> given ps ''PXAT'') \<or> (given ps ''PX'' \<and> given ps ''EXAT'') \<or>
     (given ps ''PX'' \<and> given ps ''PXAT'') \<or> (given ps ''EXAT'' \<and> given ps ''PXAT'')"

definition any_expiry :: "params \<Rightarrow> bool" where
  "any_expiry ps \<longleftrightarrow> given ps ''EX'' \<or> given ps ''PX'' \<or> given ps ''EXAT'' \<or> given ps ''PXAT''"

section \<open>Values\<close>

definition CreateObjectFromValue :: "env \<Rightarrow> string \<Rightarrow> int \<Rightarrow> 'z Store \<Rightarrow> ptr \<times> 'z Store" where
  "CreateObjectFromValue e value expiryMs s =
     (case ParseInt value of
        Some intValue \<Rightarrow> NewObj e (VInt intValue) expiryMs ObjTypeInt s
      | None \<Rightarrow>
          (case env_ParseFloat e value of
             Some floatValue \<Rightarrow> NewObj e (VFloat floatValue) expiryMs ObjTypeFloat s
           | None \<Rightarrow> NewObj e (VString value) expiryMs ObjTypeString s))"

text \<open>A type assertion \<open>obj.Value.(T)\<close> without the second result panics on another dynamic type.\<close>

definition getWireValueFromObj :: "env \<Rightarrow> 'z Obj option \<Rightarrow> (dice_error + string) outcome" where
  "getWireValueFromObj e obj =
     (case obj of
        None \<Rightarrow> Ret (Inr '''')
      | Some ob \<Rightarrow>
          (case obj_Type ob of
             ObjTypeInt \<Rightarrow> (case obj_Value ob of VInt i \<Rightarrow> Ret (Inr (FormatInt i)) | _ \<Rightarrow> Panic)
           | ObjTypeString \<Rightarrow> (case obj_Value ob of VString t \<Rightarrow> Ret (Inr t) | _ \<Rightarrow> Panic)
           | ObjTypeByteArray \<Rightarrow> (case obj_Value ob of VBytes b \<Rightarrow> Ret (Inr b) | _ \<Rightarrow> Panic)
           | ObjTypeHLL \<Rightarrow> (case obj_Value ob of VBytes b \<Rightarrow> Ret (Inr b) | _ \<Rightarrow> Panic)
           | ObjTypeFloat \<Rightarrow> (case obj_Value ob of VFloat f \<Rightarrow> Ret (Inr (env_FormatFloat e f)) | _ \<Rightarrow> Panic)
           | _ \<Rightarrow> Ret (Inl ErrUnknownObjectType)))"

text \<open>The body the four value-returning results share: \<open>newGETRes\<close>, \<open>newGETSETRes\<close>, ...\<close>

definition value_res :: "(string \<Rightarrow> Response) \<Rightarrow> env \<Rightarrow> 'z Obj option \<Rightarrow> Result outcome" where
  "value_res mk e obj = bind_outcome (getWireValueFromObj e obj)
     (\<lambda>r. Ret (case r of Inl err \<Rightarrow> err_res err | Inr v \<Rightarrow> ok_res (mk v)))"

definition load :: "'z Store \<Rightarrow> ptr option \<Rightarrow> 'z Obj option" where
  "load s p = map_option (st_heap s) p"

end
