(* ===== verification/Shards.thy ===== *)
theory Shards
  imports CmdCore
begin

text \<open>
  The shards of a server: \<^verbatim>\<open>internal/shard\<close>, \<^verbatim>\<open>internal/shardthread\<close> and \<^verbatim>\<open>internal/shardmanager\<close>.
  A shard owns a store; the manager finds the shard of a key by hashing it. A shard is addressed
  by its index in the manager's slice (the code's pointer to it), and an operation on the store of
  a shard is a function of the manager. The channels, the signal handling and the goroutine loop
  around \<open>runCronTasks\<close> have no state of the model.
\<close>

section \<open>State\<close>

record 'z ShardThread =
  th_id :: int
  th_store :: "'z Store"
  th_lastCronExecTime :: int
  th_cronFrequency :: int

record 'z Shard =
  sh_ID :: int
  sh_Thread :: "'z ShardThread"

record 'z ShardManager =
  sm_shards :: "'z Shard list"

definition DefaultKeysLimit :: int where
  "DefaultKeysLimit = 200000000"

text \<open>In nanoseconds, as a \<^verbatim>\<open>time.Duration\<close>.\<close>

definition ShardCronFrequency :: int where
  "ShardCronFrequency = 1 * 1000000000"

definition NewShardThread :: "env \<Rightarrow> int \<Rightarrow> PrimitiveEvictionStrategy \<Rightarrow> 'z ShardThread" where
  "NewShardThread e i evictionStrategy =
     \<lparr>th_id = i, th_store = NewStore None (Some evictionStrategy) i,
      th_lastCronExecTime = env_now e, th_cronFrequency = ShardCronFrequency\<rparr>"

definition runCronTasks :: "env \<Rightarrow> 'z ShardThread \<Rightarrow> 'z ShardThread" where
  "runCronTasks e t = t\<lparr>th_store := DeleteExpiredKeys e (th_store t), th_lastCronExecTime := env_now e\<rparr>"

text \<open>A negative count is a \<^verbatim>\<open>make\<close> size out of range, a zero count divides by zero.\<close>

definition NewShardManager :: "env \<Rightarrow> int \<Rightarrow> 'z ShardManager outcome" where
  "NewShardManager e shardCount =
     (if shardCount \<le> 0 then Panic
      else
        let maxKeysPerShard = go_div DefaultKeysLimit shardCount
        in Ret \<lparr>sm_shards = map (\<lambda>i. \<lparr>sh_ID = int i,
             sh_Thread = NewShardThread e (int i) (NewPrimitiveEvictionStrategy maxKeysPerShard)\<rparr>)
             [0..<nat shardCount]\<rparr>)"

section \<open>Routing\<close>

definition ShardCount :: "'z ShardManager \<Rightarrow> 8 word" where
  "ShardCount sm = word_of_nat (length (sm_shards sm))"

text \<open>The conversion of the \<open>int8\<close> count to \<open>uint64\<close> extends its sign. Dividing by zero and indexing out of
  range panic.\<close>

definition GetShardForKey :: "env \<Rightarrow> string \<Rightarrow> 'z ShardManager \<Rightarrow> nat outcome" where
  "GetShardForKey e key sm =
     (let n = scast (ShardCount sm) :: 64 word in
      if n = 0 then Panic
      else
        let i = unat (env_xxhash e key mod n)
        in if i < length (sm_shards sm) then Ret i else Panic)"

definition shard_store :: "'z ShardManager \<Rightarrow> nat \<Rightarrow> 'z Store" where
  "shard_store sm i = th_store (sh_Thread (sm_shards sm ! i))"

definition set_shard_store :: "nat \<Rightarrow> 'z Store \<Rightarrow> 'z ShardManager \<Rightarrow> 'z ShardManager" where
  "set_shard_store i s sm =
     sm\<lparr>sm_shards := (sm_shards sm)[i := (sm_shards sm ! i)\<lparr>sh_Thread := (sh_Thread (sm_shards sm ! i))\<lparr>th_store := s\<rparr>\<rparr>]\<rparr>"

text \<open>One tick of a shard's timer.\<close>

definition cron :: "env \<Rightarrow> nat \<Rightarrow> 'z ShardManager \<Rightarrow> 'z ShardManager" where
  "cron e i sm =
     sm\<lparr>sm_shards := (sm_shards sm)[i := (sm_shards sm ! i)\<lparr>sh_Thread := runCronTasks e (sh_Thread (sm_shards sm ! i))\<rparr>]\<rparr>"

section \<open>Evaluations on shards\<close>

type_synonym 'z sreply = "((Result option \<times> dice_error option) \<times> 'z ShardManager) outcome"

definition on_store :: "nat \<Rightarrow> ('z Store \<Rightarrow> 'z reply) \<Rightarrow> 'z ShardManager \<Rightarrow> 'z sreply" where
  "on_store i f sm = bind_outcome (f (shard_store sm i)) (\<lambda>(r, s). Ret (r, set_shard_store i s sm))"

definition on_key :: "env \<Rightarrow> string \<Rightarrow> ('z Store \<Rightarrow> 'z reply) \<Rightarrow> 'z ShardManager \<Rightarrow> 'z sreply" where
  "on_key e key f sm = bind_outcome (GetShardForKey e key sm) (\<lambda>i. on_store i f sm)"

section \<open>Access lemmas\<close>

lemma set_shard_length [simp]: "length (sm_shards (set_shard_store i s sm)) = length (sm_shards sm)"
  by (simp add: set_shard_store_def)

lemma shard_store_set [simp]:
  "i < length (sm_shards sm) \<Longrightarrow> shard_store (set_shard_store i s sm) j = (if j = i then s else shard_store sm j)"
  by (auto simp: set_shard_store_def shard_store_def)

lemma ShardCount_set [simp]: "ShardCount (set_shard_store i s sm) = ShardCount sm"
  by (simp add: ShardCount_def)

lemma GetShardForKey_set [simp]: "GetShardForKey e k (set_shard_store i s sm) = GetShardForKey e k sm"
  by (simp add: GetShardForKey_def Let_def)

lemma cron_length [simp]: "length (sm_shards (cron e i sm)) = length (sm_shards sm)"
  by (simp add: cron_def)

lemma cron_store [simp]:
  "i < length (sm_shards sm) \<Longrightarrow>
   shard_store (cron e i sm) j = (if j = i then DeleteExpiredKeys e (shard_store sm i) else shard_store sm j)"
  by (auto simp: cron_def shard_store_def runCronTasks_def)

text \<open>With at most 127 shards the count is exact and every key has its shard.\<close>

lemma ShardCount_exact:
  assumes "length (sm_shards sm) \<le> 127"
  shows "(scast (ShardCount sm) :: 64 word) = word_of_nat (length (sm_shards sm))"
proof -
  let ?n = "length (sm_shards sm)"
  have "sint (ShardCount sm) = int ?n"
    unfolding ShardCount_def using assms
    by transfer (simp add: signed_take_bit_int_eq_self)
  then show ?thesis by (simp add: scast_eq)
qed

lemma GetShardForKey_exact:
  assumes "0 < length (sm_shards sm)" and "length (sm_shards sm) \<le> 127"
  shows "GetShardForKey e key sm = Ret (unat (env_xxhash e key) mod length (sm_shards sm))"
proof -
  let ?n = "length (sm_shards sm)"
  have un: "unat (word_of_nat ?n :: 64 word) = ?n" using assms by (simp add: unat_of_nat)
  then have nz: "(word_of_nat ?n :: 64 word) \<noteq> 0" using assms by (metis less_irrefl unat_0)
  show ?thesis
    unfolding GetShardForKey_def Let_def ShardCount_exact [OF assms(2)]
    using nz assms by (simp add: unat_mod un)
qed

end
