(* ===== verification/CmdString.thy ===== *)
theory CmdString
  imports CmdCore
begin

text \<open>
  The commands on plain values: \<^verbatim>\<open>SET\<close>, \<^verbatim>\<open>GET\<close>, \<^verbatim>\<open>GETSET\<close>, \<^verbatim>\<open>GETDEL\<close>, \<^verbatim>\<open>GETEX\<close> and the counters
  \<^verbatim>\<open>INCR\<close>, \<^verbatim>\<open>INCRBY\<close>, \<^verbatim>\<open>DECR\<close>, \<^verbatim>\<open>DECRBY\<close> (\<^verbatim>\<open>internal/cmd/cmd_set.go\<close> and its siblings). Every \<open>eval\<close>
  function is the Go function of the same name on one shard's store.
\<close>

section \<open>SET\<close>

definition newSETRes :: Result where
  "newSETRes = ok_res SETRes"

definition SETResNilRes :: Result where
  "SETResNilRes = var_res ''SETResNilRes'' SETRes"

definition SETResOKRes :: Result where
  "SETResOKRes = var_res ''SETResOKRes'' SETRes"

definition set_conflict :: "params \<Rightarrow> bool" where
  "set_conflict ps \<longleftrightarrow> expiry_conflict ps \<or> (given ps ''XX'' \<and> given ps ''NX'') \<or>
     (given ps ''KEEPTTL'' \<and> any_expiry ps)"

text \<open>The part of \<open>evalSET\<close> after the parameters have been checked.\<close>

definition set_store :: "env \<Rightarrow> string \<Rightarrow> string \<Rightarrow> params \<Rightarrow> int \<Rightarrow> 'z Store \<Rightarrow> 'z Store" where
  "set_store e key value ps exDurationMs s =
     (let (existingObj, s1) = Get e key s in
      if given ps ''XX'' \<and> existingObj = None then s1
      else if given ps ''NX'' \<and> existingObj \<noteq> None then s1
      else
        let (newObj, s2) = CreateObjectFromValue e value exDurationMs s1
        in Put e key newObj (getDefaultPutOptions\<lparr>KeepTTL := given ps ''KEEPTTL''\<rparr>) s2)"

definition evalSET :: "env \<Rightarrow> Cmd \<Rightarrow> 'z Store \<Rightarrow> 'z reply" where
  "evalSET e c s =
     (if length (C_Args c) \<le> 1 then reply_err SETResNilRes (ErrWrongArgumentCount ''SET'') s
      else
        let key = C_Args c ! 0; value = C_Args c ! 1 in
        bind_outcome (parseParams (drop 2 (C_Args c))) (\<lambda>(ps, nonParams).
          if nonParams \<noteq> [] then reply_err SETResNilRes (ErrInvalidSyntax ''SET'') s
          else if set_conflict ps then reply_err SETResNilRes (ErrInvalidSyntax ''SET'') s
          else
            case exDuration e ''SET'' ps of
              Inl err \<Rightarrow> reply_err SETResNilRes err s
            | Inr exDurationMs \<Rightarrow> reply_ok SETResOKRes (set_store e key value ps exDurationMs s)))"

section \<open>GET, GETSET and GETDEL\<close>

definition newGETRes :: "env \<Rightarrow> 'z Obj option \<Rightarrow> Result outcome" where
  "newGETRes e obj = value_res GETRes e obj"

definition GETResNilRes :: Result where
  "GETResNilRes = var_res ''GETResNilRes'' (GETRes '''')"

definition evalGET :: "env \<Rightarrow> Cmd \<Rightarrow> 'z Store \<Rightarrow> 'z reply" where
  "evalGET e c s =
     (if length (C_Args c) \<noteq> 1 then reply_err GETResNilRes (ErrWrongArgumentCount ''GET'') s
      else
        let (obj, s1) = Get e (C_Args c ! 0) s
        in bind_outcome (newGETRes e (load s1 obj)) (\<lambda>r. reply_ok r s1))"

definition newGETSETRes :: "env \<Rightarrow> 'z Obj option \<Rightarrow> Result outcome" where
  "newGETSETRes e obj = value_res GETSETRes e obj"

definition GETSETResNilRes :: Result where
  "GETSETResNilRes = var_res ''GETSETResNilRes'' (GETSETRes '''')"

definition evalGETSET :: "env \<Rightarrow> Cmd \<Rightarrow> 'z Store \<Rightarrow> 'z reply" where
  "evalGETSET e c s =
     (if length (C_Args c) \<noteq> 2 then reply_err GETSETResNilRes (ErrWrongArgumentCount ''GETSET'') s
      else
        let key = C_Args c ! 0; value = C_Args c ! 1;
            (obj, s1) = Get e key s;
            (newObj, s2) = CreateObjectFromValue e value (-1) s1;
            s3 = Put e key newObj getDefaultPutOptions s2
        in case obj of
             None \<Rightarrow> reply_ok GETSETResNilRes s3
           | Some p \<Rightarrow> bind_outcome (newGETSETRes e (load s3 (Some p))) (\<lambda>r. reply_ok r s3))"

definition newGETDELRes :: "env \<Rightarrow> 'z Obj option \<Rightarrow> Result outcome" where
  "newGETDELRes e obj = value_res GETDELRes e obj"

definition GETDELResNilRes :: Result where
  "GETDELResNilRes = var_res ''GETDELResNilRes'' (GETDELRes '''')"

definition evalGETDEL :: "env \<Rightarrow> Cmd \<Rightarrow> 'z Store \<Rightarrow> 'z reply" where
  "evalGETDEL e c s =
     (if length (C_Args c) \<noteq> 1 then reply_err GETDELResNilRes (ErrWrongArgumentCount ''GETDEL'') s
      else
        let key = C_Args c ! 0; (obj, s1) = GetNoTouch e key s
        in case obj of
             None \<Rightarrow> reply_ok GETDELResNilRes s1
           | Some _ \<Rightarrow>
               let (objVal, s2) = GetDel e key s1
               in bind_outcome (newGETDELRes e (load s2 objVal)) (\<lambda>r. reply_ok r s2))"

section \<open>GETEX\<close>

definition newGETEXRes :: "env \<Rightarrow> 'z Obj option \<Rightarrow> Result outcome" where
  "newGETEXRes e obj = value_res GETEXRes e obj"

definition GETEXResNilRes :: Result where
  "GETEXResNilRes = var_res ''GETEXResNilRes'' (GETEXRes '''')"

text \<open>The parameter loop of \<open>evalGETEX\<close>: arguments it does not know are skipped.\<close>

fun getex_params :: "string list \<Rightarrow> params \<Rightarrow> params outcome" where
  "getex_params [] ps = Ret ps"
| "getex_params (a # args) ps =
     (if takes_value (ToUpper a) then
        (case args of [] \<Rightarrow> Panic | v # rest \<Rightarrow> getex_params rest (ps(ToUpper a \<mapsto> v)))
      else if ToUpper a = ''PERSIST'' then getex_params args (ps(ToUpper a \<mapsto> ''true''))
      else getex_params args ps)"

definition getex_conflict :: "params \<Rightarrow> bool" where
  "getex_conflict ps \<longleftrightarrow> expiry_conflict ps \<or> (given ps ''PERSIST'' \<and> any_expiry ps)"

definition getex_reply :: "env \<Rightarrow> string \<Rightarrow> params \<Rightarrow> int \<Rightarrow> 'z Store \<Rightarrow> 'z reply" where
  "getex_reply e key ps exDurationMs s =
     (case Get e key s of
        (None, s1) \<Rightarrow> reply_ok GETEXResNilRes s1
      | (Some existingObj, s1) \<Rightarrow>
          let s2 = (if given ps ''PERSIST'' then DelExpiry existingObj s1
                    else if exDurationMs \<noteq> -1 then SetExpiry e existingObj exDurationMs s1
                    else s1)
          in bind_outcome (newGETEXRes e (load s2 (Some existingObj))) (\<lambda>r. reply_ok r s2))"

definition evalGETEX :: "env \<Rightarrow> Cmd \<Rightarrow> 'z Store \<Rightarrow> 'z reply" where
  "evalGETEX e c s =
     (if length (C_Args c) < 1 then reply_err GETEXResNilRes (ErrWrongArgumentCount ''GETEX'') s
      else
        let key = C_Args c ! 0 in
        bind_outcome (getex_params (drop 1 (C_Args c)) Map.empty) (\<lambda>ps.
          if getex_conflict ps then reply_err GETEXResNilRes (ErrInvalidSyntax ''GETEX'') s
          else
            case exDuration e ''GETEX'' ps of
              Inl err \<Rightarrow> reply_err GETEXResNilRes err s
            | Inr exDurationMs \<Rightarrow> getex_reply e key ps exDurationMs s))"

section \<open>Counters\<close>

definition doIncr :: "env \<Rightarrow> Cmd \<Rightarrow> int \<Rightarrow> 'z Store \<Rightarrow> (dice_error + int \<times> int) \<times> 'z Store" where
  "doIncr e c delta s =
     (let key = C_Args c ! 0 in
      case Get e key s of
        (None, s1) \<Rightarrow>
          let (obj, s2) = NewObj e (VInt delta) (-1) ObjTypeInt s1
          in (Inr (0, delta), Put e key obj getDefaultPutOptions s2)
      | (Some obj, s1) \<Rightarrow>
          if obj_Type (st_heap s1 obj) \<noteq> ObjTypeInt then (Inl ErrWrongTypeOperation, s1)
          else
            let oldValue = (case obj_Value (st_heap s1 obj) of VInt i \<Rightarrow> i | _ \<Rightarrow> 0);
                newValue = i64 (oldValue + delta)
            in (Inr (oldValue, newValue), setValue obj (VInt newValue) s1))"

definition newINCRRes :: "int \<Rightarrow> Result" where
  "newINCRRes newValue = ok_res (INCRRes newValue)"

definition INCRResNilRes :: Result where
  "INCRResNilRes = var_res ''INCRResNilRes'' (INCRRes 0)"

definition evalINCR :: "env \<Rightarrow> Cmd \<Rightarrow> 'z Store \<Rightarrow> 'z reply" where
  "evalINCR e c s =
     (if length (C_Args c) \<noteq> 1 then reply_err INCRResNilRes (ErrWrongArgumentCount ''INCR'') s
      else case doIncr e c 1 s of
          (Inl err, s1) \<Rightarrow> reply_err INCRResNilRes err s1
        | (Inr (_, newValue), s1) \<Rightarrow> reply_ok (newINCRRes newValue) s1)"

definition newINCRBYRes :: "int \<Rightarrow> Result" where
  "newINCRBYRes newValue = ok_res (INCRBYRes newValue)"

definition INCRBYResNilRes :: Result where
  "INCRBYResNilRes = var_res ''INCRBYResNilRes'' (INCRBYRes 0)"

definition evalINCRBY :: "env \<Rightarrow> Cmd \<Rightarrow> 'z Store \<Rightarrow> 'z reply" where
  "evalINCRBY e c s =
     (if length (C_Args c) \<noteq> 2 then reply_err INCRBYResNilRes (ErrWrongArgumentCount ''INCRBY'') s
      else case ParseInt (C_Args c ! 1) of
          None \<Rightarrow> reply_err INCRBYResNilRes ErrIntegerOutOfRange s
        | Some delta \<Rightarrow>
            (case doIncr e c delta s of
               (Inl err, s1) \<Rightarrow> reply_err INCRBYResNilRes err s1
             | (Inr (_, newValue), s1) \<Rightarrow> reply_ok (newINCRBYRes newValue) s1))"

definition newDECRRes :: "int \<Rightarrow> Result" where
  "newDECRRes newValue = ok_res (DECRRes newValue)"

definition DECRResNilRes :: Result where
  "DECRResNilRes = var_res ''DECRResNilRes'' (DECRRes 0)"

definition evalDECR :: "env \<Rightarrow> Cmd \<Rightarrow> 'z Store \<Rightarrow> 'z reply" where
  "evalDECR e c s =
     (if length (C_Args c) \<noteq> 1 then reply_err DECRResNilRes (ErrWrongArgumentCount ''DECR'') s
      else case doIncr e c (-1) s of
          (Inl err, s1) \<Rightarrow> reply_err DECRResNilRes err s1
        | (Inr (_, newValue), s1) \<Rightarrow> reply_ok (newDECRRes newValue) s1)"

definition newDECRBYRes :: "int \<Rightarrow> Result" where
  "newDECRBYRes newValue = ok_res (DECRBYRes newValue)"

definition DECRBYResNilRes :: Result where
  "DECRBYResNilRes = var_res ''DECRBYResNilRes'' (DECRBYRes 0)"

definition evalDECRBY :: "env \<Rightarrow> Cmd \<Rightarrow> 'z Store \<Rightarrow> 'z reply" where
  "evalDECRBY e c s =
     (if length (C_Args c) \<noteq> 2 then reply_err DECRBYResNilRes (ErrWrongArgumentCount ''DECRBY'') s
      else case ParseInt (C_Args c ! 1) of
          None \<Rightarrow> reply_err DECRBYResNilRes ErrIntegerOutOfRange s
        | Some delta \<Rightarrow>
            (case doIncr e c (i64 (- delta)) s of
               (Inl err, s1) \<Rightarrow> reply_err DECRBYResNilRes err s1
             | (Inr (_, newValue), s1) \<Rightarrow> reply_ok (newDECRBYRes newValue) s1))"

end
