(* ===== verification/CmdKeys.thy ===== *)
theory CmdKeys
  imports CmdCore
begin

text \<open>
  The commands on keys and their expiry times, \<^verbatim>\<open>DEL\<close>, \<^verbatim>\<open>EXISTS\<close>, \<^verbatim>\<open>EXPIRE\<close>, \<^verbatim>\<open>EXPIREAT\<close>, \<^verbatim>\<open>EXPIRETIME\<close>,
  \<^verbatim>\<open>TTL\<close>, \<^verbatim>\<open>TYPE\<close>, \<^verbatim>\<open>KEYS\<close>, \<^verbatim>\<open>FLUSHDB\<close>, and the connection commands \<^verbatim>\<open>ECHO\<close>, \<^verbatim>\<open>PING\<close>, \<^verbatim>\<open>HANDSHAKE\<close>, \<^verbatim>\<open>UNWATCH\<close>
  (\<^verbatim>\<open>internal/cmd/cmd_del.go\<close> and its siblings), each on one shard's store.
\<close>

section \<open>DEL and EXISTS\<close>

definition newDELRes :: "int \<Rightarrow> Result" where
  "newDELRes cnt = ok_res (DELRes cnt)"

definition DELResNilRes :: Result where
  "DELResNilRes = var_res ''DELResNilRes'' (DELRes 0)"

definition evalDEL :: "env \<Rightarrow> Cmd \<Rightarrow> 'z Store \<Rightarrow> 'z reply" where
  "evalDEL e c s =
     (if length (C_Args c) < 1 then reply_err DELResNilRes (ErrWrongArgumentCount ''DEL'') s
      else
        let (cnt, s1) = fold (\<lambda>key (cnt, s). let (ok, s') = Del cmdDel key s
                                  in (if ok then cnt + 1 else cnt, s')) (C_Args c) (0, s)
        in reply_ok (newDELRes cnt) s1)"

definition newEXISTSRes :: "int \<Rightarrow> Result" where
  "newEXISTSRes cnt = ok_res (EXISTSRes cnt)"

definition EXISTSResNilRes :: Result where
  "EXISTSResNilRes = var_res ''EXISTSResNilRes'' (EXISTSRes 0)"

definition evalEXISTS :: "env \<Rightarrow> Cmd \<Rightarrow> 'z Store \<Rightarrow> 'z reply" where
  "evalEXISTS e c s =
     (if length (C_Args c) < 1 then reply_err EXISTSResNilRes (ErrWrongArgumentCount ''EXISTS'') s
      else
        let (cnt, s1) = fold (\<lambda>key (cnt, s). let (obj, s') = GetNoTouch e key s
                                  in (if obj \<noteq> None then cnt + 1 else cnt, s')) (C_Args c) (0, s)
        in reply_ok (newEXISTSRes cnt) s1)"

section \<open>EXPIRE, EXPIREAT, EXPIRETIME and TTL\<close>

definition newEXPIRERes :: "bool \<Rightarrow> Result" where
  "newEXPIRERes isChanged = ok_res (EXPIRERes isChanged)"

definition EXPIREResNilRes :: Result where
  "EXPIREResNilRes = var_res ''EXPIREResNilRes'' (EXPIRERes False)"

definition EXPIREResSetRes :: Result where
  "EXPIREResSetRes = var_res ''EXPIREResSetRes'' (EXPIRERes True)"

definition EXPIREResNotSetRes :: Result where
  "EXPIREResNotSetRes = var_res ''EXPIREResNotSetRes'' (EXPIRERes False)"

definition evalEXPIRE :: "env \<Rightarrow> Cmd \<Rightarrow> 'z Store \<Rightarrow> 'z reply" where
  "evalEXPIRE e c s =
     (if length (C_Args c) \<le> 1 then reply_err EXPIREResNilRes (ErrWrongArgumentCount ''EXPIRE'') s
      else
        let key = C_Args c ! 0 in
        case ParseInt (C_Args c ! 1) of
          None \<Rightarrow> reply_err EXPIREResNilRes (ErrInvalidExpireTime ''EXPIRE'') s
        | Some exDurationSec \<Rightarrow>
            if exDurationSec < 0 then reply_err EXPIREResNilRes (ErrInvalidExpireTime ''EXPIRE'') s
            else
              (case Get e key s of
                 (None, s1) \<Rightarrow> reply_ok EXPIREResNotSetRes s1
               | (Some _, s1) \<Rightarrow>
                   (case EvaluateAndSetExpiry e (drop 2 (C_Args c))
                           (i64 (env_now e + i64 (exDurationSec * 1000))) key s1 of
                      (Inl err, s2) \<Rightarrow> reply_err EXPIREResNilRes err s2
                    | (Inr isExpirySet, s2) \<Rightarrow>
                        reply_ok (if isExpirySet then EXPIREResSetRes else EXPIREResNotSetRes) s2)))"

definition newEXPIREATRes :: "bool \<Rightarrow> Result" where
  "newEXPIREATRes isChanged = ok_res (EXPIREATRes isChanged)"

definition EXPIREATResNilRes :: Result where
  "EXPIREATResNilRes = var_res ''EXPIREATResNilRes'' (EXPIREATRes False)"

definition EXPIREATResChangedRes :: Result where
  "EXPIREATResChangedRes = var_res ''EXPIREATResChangedRes'' (EXPIREATRes True)"

definition EXPIREATResUnchangedRes :: Result where
  "EXPIREATResUnchangedRes = var_res ''EXPIREATResUnchangedRes'' (EXPIREATRes False)"

definition evalEXPIREAT :: "env \<Rightarrow> Cmd \<Rightarrow> 'z Store \<Rightarrow> 'z reply" where
  "evalEXPIREAT e c s =
     (if length (C_Args c) < 2 then reply_err EXPIREATResNilRes (ErrWrongArgumentCount ''EXPIREAT'') s
      else
        let key = C_Args c ! 0 in
        case ParseInt (C_Args c ! 1) of
          None \<Rightarrow> reply_err EXPIREATResNilRes (ErrInvalidExpireTime ''EXPIREAT'') s
        | Some exUnixTimeSec \<Rightarrow>
            if exUnixTimeSec < 0 \<or> exUnixTimeSec > env_EXPIREATMax e
            then reply_err EXPIREATResNilRes (ErrInvalidExpireTime ''EXPIREAT'') s
            else
              (case EvaluateAndSetExpiry e (drop 2 (C_Args c)) (i64 (exUnixTimeSec * 1000)) key s of
                 (Inl err, s1) \<Rightarrow> reply_err EXPIREATResNilRes err s1
               | (Inr isExpirySet, s1) \<Rightarrow>
                   reply_ok (if isExpirySet then EXPIREATResChangedRes else EXPIREATResUnchangedRes) s1))"

definition newEXPIRETIMERes :: "int \<Rightarrow> Result" where
  "newEXPIRETIMERes expiryAt = ok_res (EXPIRETIMERes expiryAt)"

definition EXPIRETIMEResNilRes :: Result where
  "EXPIRETIMEResNilRes = var_res ''EXPIRETIMEResNilRes'' (EXPIRETIMERes 0)"

definition EXPIRETIMEResNegOne :: Result where
  "EXPIRETIMEResNegOne = var_res ''EXPIRETIMEResNegOne'' (EXPIRETIMERes (-1))"

definition EXPIRETIMEResNegTwo :: Result where
  "EXPIRETIMEResNegTwo = var_res ''EXPIRETIMEResNegTwo'' (EXPIRETIMERes (-2))"

definition evalEXPIRETIME :: "env \<Rightarrow> Cmd \<Rightarrow> 'z Store \<Rightarrow> 'z reply" where
  "evalEXPIRETIME e c dst =
     (if C_Args c = [] then Panic
      else
        case Get e (C_Args c ! 0) dst of
          (None, s1) \<Rightarrow> reply_ok EXPIRETIMEResNegTwo s1
        | (Some obj, s1) \<Rightarrow>
            (case GetExpiry obj s1 of
               None \<Rightarrow> reply_ok EXPIRETIMEResNegOne s1
             | Some expiry \<Rightarrow> reply_ok (newEXPIRETIMERes (go_div expiry 1000)) s1))"

definition newTTLRes :: "int \<Rightarrow> Result" where
  "newTTLRes seconds = ok_res (TTLRes seconds)"

definition TTLResNilRes :: Result where
  "TTLResNilRes = var_res ''TTLResNilRes'' (TTLRes 0)"

definition TTLResNoExpiryRes :: Result where
  "TTLResNoExpiryRes = var_res ''TTLResNoExpiryRes'' (TTLRes (-1))"

definition TTLResNotFoundRes :: Result where
  "TTLResNotFoundRes = var_res ''TTLResNotFoundRes'' (TTLRes (-2))"

definition evalTTL :: "env \<Rightarrow> Cmd \<Rightarrow> 'z Store \<Rightarrow> 'z reply" where
  "evalTTL e c s =
     (if length (C_Args c) \<noteq> 1 then reply_err TTLResNilRes (ErrWrongArgumentCount ''TTL'') s
      else
        case Get e (C_Args c ! 0) s of
          (None, s1) \<Rightarrow> reply_ok TTLResNotFoundRes s1
        | (Some obj, s1) \<Rightarrow>
            (case GetExpiry obj s1 of
               None \<Rightarrow> reply_ok TTLResNoExpiryRes s1
             | Some exp \<Rightarrow> reply_ok (newTTLRes (go_div (i64 (exp - env_now e)) 1000)) s1))"

section \<open>TYPE, KEYS and FLUSHDB\<close>

definition newTYPERes :: "string \<Rightarrow> Result" where
  "newTYPERes t = ok_res (TYPERes t)"

definition TYPEResNilRes :: Result where
  "TYPEResNilRes = var_res ''TYPEResNilRes'' (TYPERes ''none'')"

definition evalTYPE :: "env \<Rightarrow> Cmd \<Rightarrow> 'z Store \<Rightarrow> 'z reply" where
  "evalTYPE e c s =
     (if length (C_Args c) \<noteq> 1 then reply_err TYPEResNilRes (ErrWrongArgumentCount ''TYPE'') s
      else
        case Get e (C_Args c ! 0) s of
          (None, s1) \<Rightarrow> reply_ok TYPEResNilRes s1
        | (Some obj, s1) \<Rightarrow> reply_ok (newTYPERes (TypeString (obj_Type (st_heap s1 obj)))) s1)"

definition newKEYSRes :: "string list \<Rightarrow> Result" where
  "newKEYSRes keys = ok_res (KEYSRes keys)"

definition KEYSResNilRes :: Result where
  "KEYSResNilRes = var_res ''KEYSResNilRes'' (KEYSRes [])"

definition evalKEYS :: "env \<Rightarrow> Cmd \<Rightarrow> 'z Store \<Rightarrow> 'z reply" where
  "evalKEYS e c s =
     (if length (C_Args c) \<noteq> 1 then reply_err KEYSResNilRes (ErrWrongArgumentCount ''KEYS'') s
      else bind_outcome (Keys e (C_Args c ! 0) s) (\<lambda>(keys, err).
        case err of
          Some er \<Rightarrow> reply_err KEYSResNilRes er s
        | None \<Rightarrow> reply_ok (newKEYSRes keys) s))"

definition newFLUSHDBRes :: Result where
  "newFLUSHDBRes = ok_res FLUSHDBRes"

definition FLUSHDBResOKRes :: Result where
  "FLUSHDBResOKRes = var_res ''FLUSHDBResOKRes'' FLUSHDBRes"

definition FLUSHDBResNilRes :: Result where
  "FLUSHDBResNilRes = var_res ''FLUSHDBResNilRes'' FLUSHDBRes"

definition evalFLUSHDB :: "env \<Rightarrow> Cmd \<Rightarrow> 'z Store \<Rightarrow> 'z reply" where
  "evalFLUSHDB e c s =
     (if length (C_Args c) \<noteq> 0 then reply_err FLUSHDBResNilRes (ErrWrongArgumentCount ''FLUSHDB'') s
      else reply_ok FLUSHDBResOKRes (Reset s))"

section \<open>ECHO, PING, HANDSHAKE and UNWATCH\<close>

definition newECHORes :: "string \<Rightarrow> Result" where
  "newECHORes message = ok_res (ECHORes message)"

definition evalECHO :: "env \<Rightarrow> Cmd \<Rightarrow> 'z Store \<Rightarrow> 'z reply" where
  "evalECHO e c s =
     (if length (C_Args c) \<noteq> 1 then reply_err (newECHORes '''') (ErrWrongArgumentCount ''ECHO'') s
      else reply_ok (newECHORes (C_Args c ! 0)) s)"

definition newPINGRes :: "string \<Rightarrow> Result" where
  "newPINGRes v = ok_res (PINGRes v)"

definition PINGResNilRes :: Result where
  "PINGResNilRes = var_res ''PINGResNilRes'' (PINGRes '''')"

definition evalPING :: "env \<Rightarrow> Cmd \<Rightarrow> 'z Store \<Rightarrow> 'z reply" where
  "evalPING e c s =
     (if length (C_Args c) \<ge> 2 then reply_err PINGResNilRes (ErrWrongArgumentCount ''PING'') s
      else if length (C_Args c) = 0 then reply_ok (newPINGRes ''PONG'') s
      else reply_ok (newPINGRes (''PONG '' @ C_Args c ! 0)) s)"

definition newHANDSHAKERes :: Result where
  "newHANDSHAKERes = ok_res HANDSHAKERes"

definition HANDSHAKEResNilRes :: Result where
  "HANDSHAKEResNilRes = var_res ''HANDSHAKEResNilRes'' HANDSHAKERes"

definition HANDSHAKEResOKRes :: Result where
  "HANDSHAKEResOKRes = var_res ''HANDSHAKEResOKRes'' HANDSHAKERes"

text \<open>\<open>evalHANDSHAKE\<close> also assigns the client id and the mode to the command it was given.\<close>

definition evalHANDSHAKE :: "env \<Rightarrow> Cmd \<Rightarrow> 'z Store \<Rightarrow> Cmd \<times> 'z reply" where
  "evalHANDSHAKE e c s =
     (if length (C_Args c) \<noteq> 2
      then (c, reply_err HANDSHAKEResNilRes (ErrWrongArgumentCount ''HANDSHAKE'') s)
      else (c\<lparr>C_ClientID := C_Args c ! 0, C_Mode := C_Args c ! 1\<rparr>, reply_ok HANDSHAKEResOKRes s))"

definition newUNWATCHRes :: Result where
  "newUNWATCHRes = ok_res UNWATCHRes"

definition UNWATCHResNilRes :: Result where
  "UNWATCHResNilRes = var_res ''UNWATCHResNilRes'' UNWATCHRes"

definition UNWATCHResOKRes :: Result where
  "UNWATCHResOKRes = var_res ''UNWATCHResOKRes'' UNWATCHRes"

definition evalUNWATCH :: "env \<Rightarrow> Cmd \<Rightarrow> 'z Store \<Rightarrow> 'z reply" where
  "evalUNWATCH e c s =
     (if length (C_Args c) \<noteq> 1 then reply_err UNWATCHResNilRes (ErrWrongArgumentCount ''UNWATCH'') s
      else reply_ok UNWATCHResOKRes s)"

end
