(* ===== verification/CmdHash.thy ===== *)
theory CmdHash
  imports CmdCore "HOL-Library.AList"
begin

text \<open>
  The hash commands \<^verbatim>\<open>HSET\<close>, \<^verbatim>\<open>HGET\<close> and \<^verbatim>\<open>HGETALL\<close> with the type \<open>SSMap\<close>
  (\<^verbatim>\<open>internal/cmd/cmd_hset.go\<close>, \<^verbatim>\<open>cmd_hget.go\<close>, \<^verbatim>\<open>cmd_hgetall.go\<close>). The Go map of an object is an
  association list with distinct keys; the order in which it is ranged over is \<open>env_rangeSS\<close>.
\<close>

type_synonym SSMap = "(string \<times> string) list"

definition SSMap_Get :: "SSMap \<Rightarrow> string \<Rightarrow> string \<times> bool" where
  "SSMap_Get h k = (case map_of h k of None \<Rightarrow> ('''', False) | Some v \<Rightarrow> (v, True))"

definition SSMap_Set :: "SSMap \<Rightarrow> string \<Rightarrow> string \<Rightarrow> (string \<times> bool) \<times> SSMap" where
  "SSMap_Set h k v = (case map_of h k of
      Some oldValue \<Rightarrow> ((oldValue, True), AList.update k v h)
    | None \<Rightarrow> (('''', False), AList.update k v h))"

section \<open>HSET\<close>

definition newHSETRes :: "int \<Rightarrow> Result" where
  "newHSETRes cnt = ok_res (HSETRes cnt)"

definition HSETResNilRes :: Result where
  "HSETResNilRes = var_res ''HSETResNilRes'' (HSETRes 0)"

text \<open>The loop over field and value pairs; the length is even when it runs.\<close>

fun hset_loop :: "string list \<Rightarrow> int \<Rightarrow> SSMap \<Rightarrow> int \<times> SSMap" where
  "hset_loop (k # v # kvs) cnt m =
     hset_loop kvs (if map_of m k = None then cnt + 1 else cnt) (AList.update k v m)"
| "hset_loop _ cnt m = (cnt, m)"

definition hset_put :: "env \<Rightarrow> string \<Rightarrow> string list \<Rightarrow> SSMap \<Rightarrow> 'z Store \<Rightarrow> 'z reply" where
  "hset_put e key kvs m s1 =
     (if length kvs mod 2 = 1 then reply_err HSETResNilRes (ErrWrongArgumentCount ''HSET'') s1
      else
        let (countFieldsAdded, m1) = hset_loop kvs 0 m;
            (obj, s2) = NewObj e (VSSMap m1) (-1) ObjTypeSSMap s1
        in reply_ok (newHSETRes countFieldsAdded) (Put e key obj getDefaultPutOptions s2))"

definition evalHSET :: "env \<Rightarrow> Cmd \<Rightarrow> 'z Store \<Rightarrow> 'z reply" where
  "evalHSET e c s =
     (if C_Args c = [] then Panic
      else
        let key = C_Args c ! 0; kvs = drop 1 (C_Args c) in
        case Get e key s of
          (None, s1) \<Rightarrow> hset_put e key kvs [] s1
        | (Some obj, s1) \<Rightarrow>
            if obj_Type (st_heap s1 obj) \<noteq> ObjTypeSSMap then reply_err HSETResNilRes ErrWrongTypeOperation s1
            else (case obj_Value (st_heap s1 obj) of
                VSSMap m \<Rightarrow> hset_put e key kvs m s1
              | _ \<Rightarrow> Panic))"

section \<open>HGET and HGETALL\<close>

definition newHGETRes :: "string \<Rightarrow> Result" where
  "newHGETRes v = ok_res (HGETRes v)"

definition HGETResNilRes :: Result where
  "HGETResNilRes = var_res ''HGETResNilRes'' (HGETRes '''')"

definition evalHGET :: "env \<Rightarrow> Cmd \<Rightarrow> 'z Store \<Rightarrow> 'z reply" where
  "evalHGET e c s =
     (if length (C_Args c) < 2 then Panic
      else
        let key = C_Args c ! 0; field = C_Args c ! 1 in
        case Get e key s of
          (None, s1) \<Rightarrow> reply_ok HGETResNilRes s1
        | (Some obj, s1) \<Rightarrow>
            (case obj_Value (st_heap s1 obj) of
               VSSMap m \<Rightarrow>
                 let (v, ok) = SSMap_Get m field
                 in if \<not> ok then reply_ok HGETResNilRes s1 else reply_ok (newHGETRes v) s1
             | _ \<Rightarrow> reply_err HGETResNilRes ErrWrongTypeOperation s1))"

definition newHGETALLRes :: "(string \<times> string) list \<Rightarrow> Result" where
  "newHGETALLRes elements = ok_res (HGETALLRes elements)"

definition HGETALLResNilRes :: Result where
  "HGETALLResNilRes = var_res ''HGETALLResNilRes'' (HGETALLRes [])"

definition hgetall_reply :: "env \<Rightarrow> SSMap \<Rightarrow> 'z Store \<Rightarrow> 'z reply" where
  "hgetall_reply e m s1 =
     (if length m = 0 then reply_ok HGETALLResNilRes s1
      else reply_ok (newHGETALLRes (env_rangeSS e m)) s1)"

definition evalHGETALL :: "env \<Rightarrow> Cmd \<Rightarrow> 'z Store \<Rightarrow> 'z reply" where
  "evalHGETALL e c s =
     (if C_Args c = [] then Panic
      else
        case Get e (C_Args c ! 0) s of
          (None, s1) \<Rightarrow> hgetall_reply e [] s1
        | (Some obj, s1) \<Rightarrow>
            if obj_Type (st_heap s1 obj) \<noteq> ObjTypeSSMap then reply_err HGETALLResNilRes ErrWrongTypeOperation s1
            else (case obj_Value (st_heap s1 obj) of
                VSSMap m \<Rightarrow> hgetall_reply e m s1
              | _ \<Rightarrow> Panic))"

end
