(* ===== verification/SortedSet.thy ===== *)
theory SortedSet
  imports CmdCore "HOL-Library.Product_Lexorder"
begin

text \<open>
  The sorted set of \<^verbatim>\<open>internal/types/sortedset.go\<close>, a wrapper around a third-party package. The
  package is the record \<open>zops\<close> of its operations, an argument of every definition; \<open>zset_laws\<close> says
  what its documentation promises about them: a finite map from members to scores whose nodes are
  ordered by score, then by key, and whose ranks count from one.
\<close>

record 'z zops =
  zs_New :: 'z
  zs_GetCount :: "'z \<Rightarrow> int"
  zs_GetByKey :: "'z \<Rightarrow> string \<Rightarrow> (string \<times> int) option"
  zs_AddOrUpdate :: "'z \<Rightarrow> string \<Rightarrow> int \<Rightarrow> bool \<times> 'z"
  zs_Remove :: "'z \<Rightarrow> string \<Rightarrow> (string \<times> int) option \<times> 'z"
  zs_PopMin :: "'z \<Rightarrow> (string \<times> int) option \<times> 'z"
  zs_PopMax :: "'z \<Rightarrow> (string \<times> int) option \<times> 'z"
  zs_FindRank :: "'z \<Rightarrow> string \<Rightarrow> int"
  zs_GetByScoreRange :: "'z \<Rightarrow> int \<Rightarrow> int \<Rightarrow> (string \<times> int) list"
  zs_GetByRankRange :: "'z \<Rightarrow> int \<Rightarrow> int \<Rightarrow> (string \<times> int) list"

definition NewSortedSet :: "'z zops \<Rightarrow> 'z" where
  "NewSortedSet zo = zs_New zo"

section \<open>ZADD\<close>

text \<open>One iteration for a score and a member: \<open>Inl\<close> returns at once (the increment option), \<open>Inr\<close> goes
  on with what is added to the two counters.\<close>

definition zadd_one ::
  "'z zops \<Rightarrow> params \<Rightarrow> int \<Rightarrow> string \<Rightarrow> 'z \<Rightarrow> (int \<times> 'z) + (int \<times> int \<times> 'z)" where
  "zadd_one zo ps score member s =
     (let n = zs_GetByKey zo s member;
          exists = (n \<noteq> None);
          currentScore = (case n of None \<Rightarrow> 0 | Some (_, sc) \<Rightarrow> sc)
      in
        if given ps ''INCR'' then
          let newScore = (if exists then i64 (currentScore + score) else score)
          in Inl (newScore, snd (zs_AddOrUpdate zo s member newScore))
        else if (given ps ''NX'' \<and> exists) \<or> (given ps ''XX'' \<and> \<not> exists) then Inr (0, 0, s)
        else if exists \<and> given ps ''GT'' \<and> score \<le> currentScore then Inr (0, 0, s)
        else if exists \<and> given ps ''LT'' \<and> score \<ge> currentScore then Inr (0, 0, s)
        else
          let (wasInserted, s') = zs_AddOrUpdate zo s member score
          in if wasInserted \<and> \<not> exists then Inr (1, 0, s')
             else if exists \<and> score \<noteq> currentScore then Inr (0, 1, s')
             else Inr (0, 0, s'))"

fun zadd_loop ::
  "'z zops \<Rightarrow> params \<Rightarrow> (int \<times> string) list \<Rightarrow> int \<Rightarrow> int \<Rightarrow> 'z \<Rightarrow> int \<times> 'z" where
  "zadd_loop zo ps [] addedCount updatedCount s =
     (if given ps ''CH'' then addedCount + updatedCount else addedCount, s)"
| "zadd_loop zo ps (p # rest) addedCount updatedCount s =
     (case zadd_one zo ps (fst p) (snd p) s of
        Inl r \<Rightarrow> r
      | Inr (a, u, s') \<Rightarrow> zadd_loop zo ps rest (addedCount + a) (updatedCount + u) s')"

definition ZADD ::
  "'z zops \<Rightarrow> (int \<times> string) list \<Rightarrow> params \<Rightarrow> 'z \<Rightarrow> (dice_error + int) \<times> 'z" where
  "ZADD zo pairs ps s =
     (if given ps ''XX'' \<and> given ps ''NX'' then
        (Inl (ErrorsNew ''XX and NX options at the same time are not compatible''), s)
      else if (given ps ''GT'' \<and> given ps ''NX'') \<or> (given ps ''LT'' \<and> given ps ''NX'') \<or>
              (given ps ''GT'' \<and> given ps ''LT'') then
        (Inl (ErrorsNew ''GT, LT, and/or NX options at the same time are not compatible''), s)
      else if given ps ''INCR'' \<and> length pairs > 1 then
        (Inl (ErrorsNew ''INCR option supports a single increment-element pair''), s)
      else let (n, s') = zadd_loop zo ps pairs 0 0 s in (Inr n, s'))"

section \<open>ZCOUNT and ZRANGE\<close>

definition ZCOUNT :: "'z zops \<Rightarrow> int \<Rightarrow> int \<Rightarrow> 'z \<Rightarrow> int" where
  "ZCOUNT zo minScore maxScore s = int (length (zs_GetByScoreRange zo s minScore maxScore))"

text \<open>The elements are rank, score and member.\<close>

definition ZRANGE :: "'z zops \<Rightarrow> int \<Rightarrow> int \<Rightarrow> bool \<Rightarrow> bool \<Rightarrow> 'z \<Rightarrow> (int \<times> int \<times> string) list" where
  "ZRANGE zo start stop byScore byRank s =
     (let nodes = (if byScore then zs_GetByScoreRange zo s start stop
                   else zs_GetByRankRange zo s start stop);
          rank = (if length nodes > 0 then zs_FindRank zo s (fst (nodes ! 0)) else 0)
      in map (\<lambda>(i, node). (i64 (rank + int i), snd node, fst node)) (enumerate 0 nodes))"

section \<open>What the package promises\<close>

definition zelems :: "(string \<rightharpoonup> int) \<Rightarrow> (string \<times> int) list" where
  "zelems m = map (\<lambda>(sc, k). (k, sc)) (sorted_list_of_set {(sc, k). m k = Some sc})"

definition zrank :: "(string \<rightharpoonup> int) \<Rightarrow> string \<Rightarrow> int" where
  "zrank m k = (case m k of None \<Rightarrow> 0
     | Some sc \<Rightarrow> int (card {(sc', k'). m k' = Some sc' \<and> (sc', k') \<le> (sc, k)}))"

definition zset_laws_at :: "'z zops \<Rightarrow> ('z \<Rightarrow> bool) \<Rightarrow> ('z \<Rightarrow> (string \<rightharpoonup> int)) \<Rightarrow> 'z \<Rightarrow> bool" where
  "zset_laws_at zo ok m z \<longleftrightarrow>
     finite (dom (m z)) \<and> zs_GetCount zo z = int (card (dom (m z))) \<and>
     (\<forall>k. zs_GetByKey zo z k = map_option (Pair k) (m z k)) \<and>
     (\<forall>k sc. ok (snd (zs_AddOrUpdate zo z k sc)) \<and> fst (zs_AddOrUpdate zo z k sc) = (m z k = None) \<and>
        m (snd (zs_AddOrUpdate zo z k sc)) = (m z)(k \<mapsto> sc)) \<and>
     (\<forall>k. ok (snd (zs_Remove zo z k)) \<and> fst (zs_Remove zo z k) = map_option (Pair k) (m z k) \<and>
        m (snd (zs_Remove zo z k)) = (m z)(k := None)) \<and>
     ok (snd (zs_PopMin zo z)) \<and>
     (case zelems (m z) of
        [] \<Rightarrow> fst (zs_PopMin zo z) = None \<and> m (snd (zs_PopMin zo z)) = m z
      | x # _ \<Rightarrow> fst (zs_PopMin zo z) = Some x \<and> m (snd (zs_PopMin zo z)) = (m z)(fst x := None)) \<and>
     ok (snd (zs_PopMax zo z)) \<and>
     (case rev (zelems (m z)) of
        [] \<Rightarrow> fst (zs_PopMax zo z) = None \<and> m (snd (zs_PopMax zo z)) = m z
      | x # _ \<Rightarrow> fst (zs_PopMax zo z) = Some x \<and> m (snd (zs_PopMax zo z)) = (m z)(fst x := None)) \<and>
     (\<forall>k. zs_FindRank zo z k = zrank (m z) k) \<and>
     (\<forall>a b. a \<le> b \<longrightarrow> zs_GetByScoreRange zo z a b = filter (\<lambda>(_, sc). a \<le> sc \<and> sc \<le> b) (zelems (m z))) \<and>
     (\<forall>a b. 1 \<le> a \<longrightarrow> a \<le> b \<longrightarrow>
        zs_GetByRankRange zo z a b = take (nat (b - a + 1)) (drop (nat (a - 1)) (zelems (m z))))"

definition zset_laws :: "'z zops \<Rightarrow> ('z \<Rightarrow> bool) \<Rightarrow> ('z \<Rightarrow> (string \<rightharpoonup> int)) \<Rightarrow> bool" where
  "zset_laws zo ok m \<longleftrightarrow>
     ok (zs_New zo) \<and> m (zs_New zo) = Map.empty \<and> (\<forall>z. ok z \<longrightarrow> zset_laws_at zo ok m z)"

end
