(* ===== verification/CmdZset.thy ===== *)
theory CmdZset
  imports SortedSet
begin

text \<open>
  The sorted-set commands (\<^verbatim>\<open>internal/cmd/cmd_zadd.go\<close> and its siblings) on one shard's store. The set
  is mutated in place inside its object. \<open>zo\<close> is the third-party package.
\<close>

section \<open>ZADD\<close>

definition newZADDRes :: "int \<Rightarrow> Result" where
  "newZADDRes cnt = ok_res (ZADDRes cnt)"

definition ZADDResNilRes :: Result where
  "ZADDResNilRes = var_res ''ZADDResNilRes'' (ZADDRes 0)"

text \<open>The score and member pairs of an even list; \<open>None\<close> at the first score that does not parse.\<close>

fun score_pairs :: "string list \<Rightarrow> (int \<times> string) list option" where
  "score_pairs (sc # member # rest) =
     (case ParseInt sc of
        None \<Rightarrow> None
      | Some score \<Rightarrow> map_option (\<lambda>ps. (score, member) # ps) (score_pairs rest))"
| "score_pairs _ = Some []"

definition zadd_reply ::
  "'z zops \<Rightarrow> (int \<times> string) list \<Rightarrow> params \<Rightarrow> ptr \<Rightarrow> 'z \<Rightarrow> 'z Store \<Rightarrow> 'z reply" where
  "zadd_reply zo pairs ps obj ss s =
     (case ZADD zo pairs ps ss of
        (Inl err, ss') \<Rightarrow> reply_err ZADDResNilRes err (setValue obj (VSortedSet ss') s)
      | (Inr cnt, ss') \<Rightarrow> reply_ok (newZADDRes cnt) (setValue obj (VSortedSet ss') s))"

definition zadd_key ::
  "'z zops \<Rightarrow> env \<Rightarrow> string \<Rightarrow> (int \<times> string) list \<Rightarrow> params \<Rightarrow> 'z Store \<Rightarrow> 'z reply" where
  "zadd_key zo e key pairs ps s =
     (case Get e key s of
        (None, s1) \<Rightarrow>
          let ss = NewSortedSet zo;
              (obj, s2) = NewObj e (VSortedSet ss) (-1) ObjTypeSortedSet s1;
              s3 = Put e key obj (getDefaultPutOptions\<lparr>PutCmd := cmdZAdd\<rparr>) s2
          in zadd_reply zo pairs ps obj ss s3
      | (Some obj, s1) \<Rightarrow>
          if obj_Type (st_heap s1 obj) \<noteq> ObjTypeSortedSet then reply_err ZADDResNilRes ErrWrongTypeOperation s1
          else (case obj_Value (st_heap s1 obj) of
              VSortedSet ss \<Rightarrow> zadd_reply zo pairs ps obj ss s1
            | _ \<Rightarrow> Panic))"

definition evalZADD :: "'z zops \<Rightarrow> env \<Rightarrow> Cmd \<Rightarrow> 'z Store \<Rightarrow> 'z reply" where
  "evalZADD zo e c s =
     (if length (C_Args c) < 3 then reply_err ZADDResNilRes (ErrWrongArgumentCount ''ZADD'') s
      else
        bind_outcome (parseParams (drop 1 (C_Args c))) (\<lambda>(ps, nonParams).
          if length nonParams mod 2 \<noteq> 0 then reply_err ZADDResNilRes (ErrWrongArgumentCount ''ZADD'') s
          else
            case score_pairs nonParams of
              None \<Rightarrow> reply_err ZADDResNilRes ErrInvalidNumberFormat s
            | Some pairs \<Rightarrow> zadd_key zo e (C_Args c ! 0) pairs ps s))"

section \<open>The common lookup\<close>

text \<open>The other commands look the key up, check the type tag and assert the dynamic type.\<close>

definition with_zset ::
  "env \<Rightarrow> string \<Rightarrow> Result \<Rightarrow> Result \<Rightarrow> (ptr \<Rightarrow> 'z \<Rightarrow> 'z Store \<Rightarrow> 'z reply) \<Rightarrow> 'z Store \<Rightarrow> 'z reply" where
  "with_zset e key absent wrong f s =
     (case Get e key s of
        (None, s1) \<Rightarrow> reply_ok absent s1
      | (Some obj, s1) \<Rightarrow>
          if obj_Type (st_heap s1 obj) \<noteq> ObjTypeSortedSet then reply_err wrong ErrWrongTypeOperation s1
          else (case obj_Value (st_heap s1 obj) of VSortedSet ss \<Rightarrow> f obj ss s1 | _ \<Rightarrow> Panic))"

section \<open>ZCARD, ZCOUNT and ZREM\<close>

definition newZCARDRes :: "int \<Rightarrow> Result" where
  "newZCARDRes cnt = ok_res (ZCARDRes cnt)"

definition ZCARDResNilRes :: Result where
  "ZCARDResNilRes = var_res ''ZCARDResNilRes'' (ZCARDRes 0)"

definition evalZCARD :: "'z zops \<Rightarrow> env \<Rightarrow> Cmd \<Rightarrow> 'z Store \<Rightarrow> 'z reply" where
  "evalZCARD zo e c s =
     (if length (C_Args c) \<noteq> 1 then reply_err ZCARDResNilRes (ErrWrongArgumentCount ''ZCARD'') s
      else with_zset e (C_Args c ! 0) ZCARDResNilRes ZCARDResNilRes
             (\<lambda>obj ss s1. reply_ok (newZCARDRes (zs_GetCount zo ss)) s1) s)"

definition newZCOUNTRes :: "int \<Rightarrow> Result" where
  "newZCOUNTRes cnt = ok_res (ZCOUNTRes cnt)"

definition ZCOUNTResNilRes :: Result where
  "ZCOUNTResNilRes = var_res ''ZCOUNTResNilRes'' (ZCOUNTRes 0)"

definition ZCOUNTRes0 :: Result where
  "ZCOUNTRes0 = var_res ''ZCOUNTRes0'' (ZCOUNTRes 0)"

definition zcount_bound :: "string \<Rightarrow> int option" where
  "zcount_bound arg =
     (if arg = ''-inf'' then Some MinInt64 else if arg = ''+inf'' then Some MaxInt64 else ParseInt arg)"

definition evalZCOUNT :: "'z zops \<Rightarrow> env \<Rightarrow> Cmd \<Rightarrow> 'z Store \<Rightarrow> 'z reply" where
  "evalZCOUNT zo e c s =
     (if length (C_Args c) \<noteq> 3 then reply_err ZCOUNTResNilRes (ErrWrongArgumentCount ''ZCOUNT'') s
      else
        case zcount_bound (C_Args c ! 1) of
          None \<Rightarrow> reply_err ZCOUNTResNilRes ErrInvalidNumberFormat s
        | Some minVal \<Rightarrow>
            (case zcount_bound (C_Args c ! 2) of
               None \<Rightarrow> reply_err ZCOUNTResNilRes ErrInvalidNumberFormat s
             | Some maxVal \<Rightarrow>
                 if minVal > maxVal then reply_ok ZCOUNTRes0 s
                 else with_zset e (C_Args c ! 0) ZCOUNTRes0 ZCOUNTResNilRes
                        (\<lambda>obj ss s1. reply_ok (newZCOUNTRes (ZCOUNT zo minVal maxVal ss)) s1) s))"

definition newZREMRes :: "int \<Rightarrow> Result" where
  "newZREMRes cnt = ok_res (ZREMRes cnt)"

definition ZREMResNilRes :: Result where
  "ZREMResNilRes = var_res ''ZREMResNilRes'' (ZREMRes 0)"

definition zrem_loop :: "'z zops \<Rightarrow> string list \<Rightarrow> 'z \<Rightarrow> int \<times> 'z" where
  "zrem_loop zo members ss =
     fold (\<lambda>member (n, ss). let (node, ss') = zs_Remove zo ss member
                            in (if node \<noteq> None then n + 1 else n, ss')) members (0, ss)"

definition evalZREM :: "'z zops \<Rightarrow> env \<Rightarrow> Cmd \<Rightarrow> 'z Store \<Rightarrow> 'z reply" where
  "evalZREM zo e c s =
     (if length (C_Args c) < 2 then reply_err ZREMResNilRes (ErrWrongArgumentCount ''ZREM'') s
      else with_zset e (C_Args c ! 0) ZREMResNilRes ZREMResNilRes
             (\<lambda>obj ss s1. let (countRem, ss') = zrem_loop zo (drop 1 (C_Args c)) ss
                          in reply_ok (newZREMRes countRem) (setValue obj (VSortedSet ss') s1)) s)"

section \<open>ZRANGE and ZRANK\<close>

definition newZRANGERes :: "(int \<times> int \<times> string) list \<Rightarrow> Result" where
  "newZRANGERes elements = ok_res (ZRANGERes elements)"

definition ZRANGEResNilRes :: Result where
  "ZRANGEResNilRes = var_res ''ZRANGEResNilRes'' (ZRANGERes [])"

definition evalZRANGE :: "'z zops \<Rightarrow> env \<Rightarrow> Cmd \<Rightarrow> 'z Store \<Rightarrow> 'z reply" where
  "evalZRANGE zo e c s =
     (if length (C_Args c) < 3 \<or> length (C_Args c) > 4
      then reply_err ZRANGEResNilRes (ErrWrongArgumentCount ''ZRANGE'') s
      else
        let byScore = (length (C_Args c) \<ge> 4 \<and> EqualFold (C_Args c ! 3) ''BYSCORE'');
            byRank = (if length (C_Args c) \<ge> 4 then EqualFold (C_Args c ! 3) ''BYRANK'' else True)
        in case ParseInt (C_Args c ! 1) of
             None \<Rightarrow> reply_err ZRANGEResNilRes ErrInvalidNumberFormat s
           | Some start \<Rightarrow>
               (case ParseInt (C_Args c ! 2) of
                  None \<Rightarrow> reply_err ZRANGEResNilRes ErrInvalidNumberFormat s
                | Some stop \<Rightarrow>
                    with_zset e (C_Args c ! 0) ZRANGEResNilRes ZRANGEResNilRes
                      (\<lambda>obj ss s1. reply_ok (newZRANGERes (ZRANGE zo start stop byScore byRank ss)) s1) s))"

definition newZRANKRes :: "(int \<times> int \<times> string) option \<Rightarrow> Result" where
  "newZRANKRes element = ok_res (ZRANKRes element)"

definition ZRANKResNilRes :: Result where
  "ZRANKResNilRes = var_res ''ZRANKResNilRes'' (ZRANKRes None)"

definition evalZRANK :: "'z zops \<Rightarrow> env \<Rightarrow> Cmd \<Rightarrow> 'z Store \<Rightarrow> 'z reply" where
  "evalZRANK zo e c s =
     (if length (C_Args c) < 2 then Panic
      else
        let member = C_Args c ! 1 in
        with_zset e (C_Args c ! 0) ZRANKResNilRes ZRANGEResNilRes
          (\<lambda>obj ss s1.
             let rank = zs_FindRank zo ss member in
             case zs_GetByKey zo ss member of
               None \<Rightarrow> reply_ok (newZRANKRes (Some (0, 0, member))) s1
             | Some (k, sc) \<Rightarrow>
                 if rank = 0 then reply_ok (newZRANKRes (Some (0, 0, member))) s1
                 else reply_ok (newZRANKRes (Some (rank, sc, k))) s1) s)"

section \<open>ZPOPMAX and ZPOPMIN\<close>

text \<open>\<^verbatim>\<open>make ([]*T, 0, count)\<close> panics when the pointers do not fit the address space of \<open>2 ^ 48\<close> bytes.\<close>

definition make_ok :: "int \<Rightarrow> bool" where
  "make_ok cnt \<longleftrightarrow> 0 \<le> cnt \<and> cnt * 8 \<le> 2 ^ 48"

text \<open>The loop pops until the count is reached or the set is empty; \<open>rk\<close> gives the rank of iteration \<open>i\<close>.
  It ends at the latest when a pop answers nothing, so \<open>n\<close> bounds the iterations.\<close>

fun zpop_loop ::
  "('z \<Rightarrow> (string \<times> int) option \<times> 'z) \<Rightarrow> (int \<Rightarrow> int) \<Rightarrow> nat \<Rightarrow> int \<Rightarrow> 'z \<Rightarrow> (int \<times> int \<times> string) list \<times> 'z" where
  "zpop_loop pop_fn rk 0 i ss = ([], ss)"
| "zpop_loop pop_fn rk (Suc n) i ss =
     (case pop_fn ss of
        (None, ss') \<Rightarrow> ([], ss')
      | (Some (k, sc), ss') \<Rightarrow>
          let (elements, ss'') = zpop_loop pop_fn rk n (i + 1) ss'
          in ((rk i, sc, k) # elements, ss''))"

definition pop_count :: "Cmd \<Rightarrow> int option" where
  "pop_count c =
     (if length (C_Args c) > 1
      then (case ParseInt (C_Args c ! 1) of
          None \<Rightarrow> None | Some ops \<Rightarrow> if ops \<le> 0 then None else Some ops)
      else Some 1)"

definition newZPOPMAXRes :: "(int \<times> int \<times> string) list \<Rightarrow> Result" where
  "newZPOPMAXRes elements = ok_res (ZPOPMAXRes elements)"

definition ZPOPMAXResNilRes :: Result where
  "ZPOPMAXResNilRes = var_res ''ZPOPMAXResNilRes'' (ZPOPMAXRes [])"

definition evalZPOPMAX :: "'z zops \<Rightarrow> env \<Rightarrow> Cmd \<Rightarrow> 'z Store \<Rightarrow> 'z reply" where
  "evalZPOPMAX zo e c s =
     (if length (C_Args c) < 1 then reply_err ZPOPMAXResNilRes (ErrWrongArgumentCount ''ZPOPMAX'') s
      else
        case pop_count c of
          None \<Rightarrow> reply_err ZPOPMAXResNilRes ErrIntegerOutOfRange s
        | Some cnt \<Rightarrow>
            with_zset e (C_Args c ! 0) ZPOPMAXResNilRes ZPOPMAXResNilRes
              (\<lambda>obj ss s1.
                 if \<not> make_ok cnt then Panic
                 else
                   let totalElements = zs_GetCount zo ss;
                       (elements, ss') = zpop_loop (zs_PopMax zo) (\<lambda>i. totalElements - i) (nat cnt) 0 ss
                   in reply_ok (newZPOPMAXRes elements) (setValue obj (VSortedSet ss') s1)) s)"

definition newZPOPMINRes :: "(int \<times> int \<times> string) list \<Rightarrow> Result" where
  "newZPOPMINRes elements = ok_res (ZPOPMINRes elements)"

definition ZPOPMINResNilRes :: Result where
  "ZPOPMINResNilRes = var_res ''ZPOPMINResNilRes'' (ZPOPMINRes [])"

definition evalZPOPMIN :: "'z zops \<Rightarrow> env \<Rightarrow> Cmd \<Rightarrow> 'z Store \<Rightarrow> 'z reply" where
  "evalZPOPMIN zo e c s =
     (if length (C_Args c) < 1 then reply_err ZPOPMINResNilRes (ErrWrongArgumentCount ''ZPOPMIN'') s
      else
        case pop_count c of
          None \<Rightarrow> reply_err ZPOPMINResNilRes ErrIntegerOutOfRange s
        | Some cnt \<Rightarrow>
            with_zset e (C_Args c ! 0) ZPOPMINResNilRes ZPOPMINResNilRes
              (\<lambda>obj ss s1.
                 if \<not> make_ok cnt then Panic
                 else
                   let (elements, ss') = zpop_loop (zs_PopMin zo) (\<lambda>i. i + 1) (nat cnt) 0 ss
                   in reply_ok (newZPOPMINRes elements) (setValue obj (VSortedSet ss') s1)) s)"

end
