(* ===== verification/Exec.thy ===== *)
theory Exec
  imports Shards CmdString CmdKeys CmdHash CmdZset "HOL-Library.AList"
begin

text \<open>
  How a command runs on the shards: the \<open>execute\<close> functions of \<^verbatim>\<open>internal/cmd\<close>, the \<^verbatim>\<open>.WATCH\<close> variants
  of the watchable commands, the command registry and \<open>Cmd.Execute\<close> of \<^verbatim>\<open>cmds.go\<close>. A command that
  names one key runs on the shard of that key; \<^verbatim>\<open>DEL\<close>, \<^verbatim>\<open>EXISTS\<close>, \<^verbatim>\<open>KEYS\<close> and \<^verbatim>\<open>FLUSHDB\<close> visit several.
  An execution may change the command it was given, so it answers the command, too.
\<close>

section \<open>Commands on one key\<close>

text \<open>The commands on strings and counters.\<close>

definition executeSET :: "env \<Rightarrow> Cmd \<Rightarrow> 'z ShardManager \<Rightarrow> 'z sreply" where
  "executeSET e c sm =
     (if length (C_Args c) \<le> 1 then Ret ((Some SETResNilRes, Some (ErrWrongArgumentCount ''SET'')), sm)
      else on_key e (C_Args c ! 0) (evalSET e c) sm)"

definition executeGET :: "env \<Rightarrow> Cmd \<Rightarrow> 'z ShardManager \<Rightarrow> 'z sreply" where
  "executeGET e c sm =
     (if length (C_Args c) \<noteq> 1 then Ret ((Some GETResNilRes, Some (ErrWrongArgumentCount ''GET'')), sm)
      else on_key e (C_Args c ! 0) (evalGET e c) sm)"

definition executeGETSET :: "env \<Rightarrow> Cmd \<Rightarrow> 'z ShardManager \<Rightarrow> 'z sreply" where
  "executeGETSET e c sm =
     (if length (C_Args c) \<noteq> 2 then Ret ((Some GETSETResNilRes, Some (ErrWrongArgumentCount ''GETSET'')), sm)
      else on_key e (C_Args c ! 0) (evalGETSET e c) sm)"

definition executeGETDEL :: "env \<Rightarrow> Cmd \<Rightarrow> 'z ShardManager \<Rightarrow> 'z sreply" where
  "executeGETDEL e c sm =
     (if length (C_Args c) \<noteq> 1 then Ret ((Some GETDELResNilRes, Some (ErrWrongArgumentCount ''GETDEL'')), sm)
      else on_key e (C_Args c ! 0) (evalGETDEL e c) sm)"

definition executeGETEX :: "env \<Rightarrow> Cmd \<Rightarrow> 'z ShardManager \<Rightarrow> 'z sreply" where
  "executeGETEX e c sm =
     (if length (C_Args c) = 0 then Ret ((Some GETEXResNilRes, Some (ErrWrongArgumentCount ''GETEX'')), sm)
      else on_key e (C_Args c ! 0) (evalGETEX e c) sm)"

definition executeINCR :: "env \<Rightarrow> Cmd \<Rightarrow> 'z ShardManager \<Rightarrow> 'z sreply" where
  "executeINCR e c sm =
     (if length (C_Args c) \<noteq> 1 then Ret ((Some INCRResNilRes, Some (ErrWrongArgumentCount ''INCR'')), sm)
      else on_key e (C_Args c ! 0) (evalINCR e c) sm)"

definition executeINCRBY :: "env \<Rightarrow> Cmd \<Rightarrow> 'z ShardManager \<Rightarrow> 'z sreply" where
  "executeINCRBY e c sm =
     (if length (C_Args c) \<noteq> 2 then Ret ((Some INCRBYResNilRes, Some (ErrWrongArgumentCount ''INCRBY'')), sm)
      else on_key e (C_Args c ! 0) (evalINCRBY e c) sm)"

definition executeDECR :: "env \<Rightarrow> Cmd \<Rightarrow> 'z ShardManager \<Rightarrow> 'z sreply" where
  "executeDECR e c sm =
     (if length (C_Args c) \<noteq> 1 then Ret ((Some DECRResNilRes, Some (ErrWrongArgumentCount ''DECR'')), sm)
      else on_key e (C_Args c ! 0) (evalDECR e c) sm)"

definition executeDECRBY :: "env \<Rightarrow> Cmd \<Rightarrow> 'z ShardManager \<Rightarrow> 'z sreply" where
  "executeDECRBY e c sm =
     (if length (C_Args c) \<noteq> 2 then Ret ((Some DECRBYResNilRes, Some (ErrWrongArgumentCount ''DECRBY'')), sm)
      else on_key e (C_Args c ! 0) (evalDECRBY e c) sm)"

text \<open>The commands on keys.\<close>

definition executeEXPIRE :: "env \<Rightarrow> Cmd \<Rightarrow> 'z ShardManager \<Rightarrow> 'z sreply" where
  "executeEXPIRE e c sm =
     (if length (C_Args c) \<le> 1 then Ret ((Some EXPIREResNilRes, Some (ErrWrongArgumentCount ''EXPIRE'')), sm)
      else on_key e (C_Args c ! 0) (evalEXPIRE e c) sm)"

definition executeEXPIREAT :: "env \<Rightarrow> Cmd \<Rightarrow> 'z ShardManager \<Rightarrow> 'z sreply" where
  "executeEXPIREAT e c sm =
     (if length (C_Args c) < 2 then Ret ((Some EXPIREATResNilRes, Some (ErrWrongArgumentCount ''EXPIREAT'')), sm)
      else on_key e (C_Args c ! 0) (evalEXPIREAT e c) sm)"

definition executeEXPIRETIME :: "env \<Rightarrow> Cmd \<Rightarrow> 'z ShardManager \<Rightarrow> 'z sreply" where
  "executeEXPIRETIME e c sm =
     (if length (C_Args c) \<noteq> 1 then Ret ((Some EXPIRETIMEResNilRes, Some (ErrWrongArgumentCount ''EXPIRETIME'')), sm)
      else on_key e (C_Args c ! 0) (evalEXPIRETIME e c) sm)"

definition executeTTL :: "env \<Rightarrow> Cmd \<Rightarrow> 'z ShardManager \<Rightarrow> 'z sreply" where
  "executeTTL e c sm =
     (if length (C_Args c) \<noteq> 1 then Ret ((Some TTLResNilRes, Some (ErrWrongArgumentCount ''TTL'')), sm)
      else on_key e (C_Args c ! 0) (evalTTL e c) sm)"

definition executeTYPE :: "env \<Rightarrow> Cmd \<Rightarrow> 'z ShardManager \<Rightarrow> 'z sreply" where
  "executeTYPE e c sm =
     (if length (C_Args c) = 0 then Ret ((Some TYPEResNilRes, Some (ErrWrongArgumentCount ''TYPE'')), sm)
      else on_key e (C_Args c ! 0) (evalTYPE e c) sm)"

text \<open>The connection commands evaluate on the shard of the key \<^verbatim>\<open>-\<close>.\<close>

definition executeECHO :: "env \<Rightarrow> Cmd \<Rightarrow> 'z ShardManager \<Rightarrow> 'z sreply" where
  "executeECHO e c sm =
     on_key e ''-'' (evalECHO e c) sm"

definition executePING :: "env \<Rightarrow> Cmd \<Rightarrow> 'z ShardManager \<Rightarrow> 'z sreply" where
  "executePING e c sm =
     on_key e ''-'' (evalPING e c) sm"

definition executeUNWATCH :: "env \<Rightarrow> Cmd \<Rightarrow> 'z ShardManager \<Rightarrow> 'z sreply" where
  "executeUNWATCH e c sm =
     (if length (C_Args c) \<noteq> 1 then Ret ((Some UNWATCHResNilRes, Some (ErrWrongArgumentCount ''UNWATCH'')), sm)
      else on_key e ''-'' (evalUNWATCH e c) sm)"

text \<open>The commands on hashes.\<close>

definition executeHSET :: "env \<Rightarrow> Cmd \<Rightarrow> 'z ShardManager \<Rightarrow> 'z sreply" where
  "executeHSET e c sm =
     (if length (C_Args c) < 3 then Ret ((Some HSETResNilRes, Some (ErrWrongArgumentCount ''HSET'')), sm)
      else on_key e (C_Args c ! 0) (evalHSET e c) sm)"

definition executeHGET :: "env \<Rightarrow> Cmd \<Rightarrow> 'z ShardManager \<Rightarrow> 'z sreply" where
  "executeHGET e c sm =
     (if length (C_Args c) \<noteq> 2 then Ret ((Some HGETResNilRes, Some (ErrWrongArgumentCount ''HGET'')), sm)
      else on_key e (C_Args c ! 0) (evalHGET e c) sm)"

definition executeHGETALL :: "env \<Rightarrow> Cmd \<Rightarrow> 'z ShardManager \<Rightarrow> 'z sreply" where
  "executeHGETALL e c sm =
     (if length (C_Args c) \<noteq> 1 then Ret ((Some HGETALLResNilRes, Some (ErrWrongArgumentCount ''HGETALL'')), sm)
      else on_key e (C_Args c ! 0) (evalHGETALL e c) sm)"

text \<open>The commands on sorted sets.\<close>

definition executeZADD :: "'z zops \<Rightarrow> env \<Rightarrow> Cmd \<Rightarrow> 'z ShardManager \<Rightarrow> 'z sreply" where
  "executeZADD zo e c sm =
     (if length (C_Args c) < 3 then Ret ((Some ZADDResNilRes, Some (ErrWrongArgumentCount ''ZADD'')), sm)
      else on_key e (C_Args c ! 0) (evalZADD zo e c) sm)"

definition executeZCARD :: "'z zops \<Rightarrow> env \<Rightarrow> Cmd \<Rightarrow> 'z ShardManager \<Rightarrow> 'z sreply" where
  "executeZCARD zo e c sm =
     (if length (C_Args c) \<noteq> 1 then Ret ((Some ZCARDResNilRes, Some (ErrWrongArgumentCount ''ZCARD'')), sm)
      else on_key e (C_Args c ! 0) (evalZCARD zo e c) sm)"

definition executeZCOUNT :: "'z zops \<Rightarrow> env \<Rightarrow> Cmd \<Rightarrow> 'z ShardManager \<Rightarrow> 'z sreply" where
  "executeZCOUNT zo e c sm =
     (if length (C_Args c) \<noteq> 3 then Ret ((Some ZCOUNTResNilRes, Some (ErrWrongArgumentCount ''ZCOUNT'')), sm)
      else on_key e (C_Args c ! 0) (evalZCOUNT zo e c) sm)"

definition executeZREM :: "'z zops \<Rightarrow> env \<Rightarrow> Cmd \<Rightarrow> 'z ShardManager \<Rightarrow> 'z sreply" where
  "executeZREM zo e c sm =
     (if length (C_Args c) < 2 then Ret ((Some ZREMResNilRes, Some (ErrWrongArgumentCount ''ZREM'')), sm)
      else on_key e (C_Args c ! 0) (evalZREM zo e c) sm)"

definition executeZRANGE :: "'z zops \<Rightarrow> env \<Rightarrow> Cmd \<Rightarrow> 'z ShardManager \<Rightarrow> 'z sreply" where
  "executeZRANGE zo e c sm =
     (if length (C_Args c) < 3 \<or> length (C_Args c) > 4 then Ret ((Some ZRANGEResNilRes, Some (ErrWrongArgumentCount ''ZRANGE'')), sm)
      else on_key e (C_Args c ! 0) (evalZRANGE zo e c) sm)"

definition executeZRANK :: "'z zops \<Rightarrow> env \<Rightarrow> Cmd \<Rightarrow> 'z ShardManager \<Rightarrow> 'z sreply" where
  "executeZRANK zo e c sm =
     (if length (C_Args c) \<noteq> 2 then Ret ((Some ZRANKResNilRes, Some (ErrWrongArgumentCount ''ZRANK'')), sm)
      else on_key e (C_Args c ! 0) (evalZRANK zo e c) sm)"

definition executeZPOPMAX :: "'z zops \<Rightarrow> env \<Rightarrow> Cmd \<Rightarrow> 'z ShardManager \<Rightarrow> 'z sreply" where
  "executeZPOPMAX zo e c sm =
     (if length (C_Args c) < 1 then Ret ((Some ZPOPMAXResNilRes, Some (ErrWrongArgumentCount ''ZPOPMAX'')), sm)
      else on_key e (C_Args c ! 0) (evalZPOPMAX zo e c) sm)"

definition executeZPOPMIN :: "'z zops \<Rightarrow> env \<Rightarrow> Cmd \<Rightarrow> 'z ShardManager \<Rightarrow> 'z sreply" where
  "executeZPOPMIN zo e c sm =
     (if length (C_Args c) < 1 then Ret ((Some ZPOPMINResNilRes, Some (ErrWrongArgumentCount ''ZPOPMIN'')), sm)
      else on_key e (C_Args c ! 0) (evalZPOPMIN zo e c) sm)"

text \<open>\<open>evalHANDSHAKE\<close> assigns to the command.\<close>

definition executeHANDSHAKE :: "env \<Rightarrow> Cmd \<Rightarrow> 'z ShardManager \<Rightarrow> Cmd \<times> 'z sreply" where
  "executeHANDSHAKE e c sm =
     (case GetShardForKey e ''-'' sm of
        Panic \<Rightarrow> (c, Panic)
      | Ret i \<Rightarrow> (fst (evalHANDSHAKE e c (shard_store sm i)), on_store i (\<lambda>s. snd (evalHANDSHAKE e c s)) sm))"

section \<open>Watch variants\<close>

text \<open>The body they share: evaluate the plain command and set the fingerprint of its result.\<close>

definition with_fingerprint :: "env \<Rightarrow> Cmd \<Rightarrow> Result option \<Rightarrow> 'z reply \<Rightarrow> 'z reply" where
  "with_fingerprint e c onErr m =
     bind_outcome m (\<lambda>((r, err), s).
       case err of
         Some er \<Rightarrow> Ret ((onErr, Some er), s)
       | None \<Rightarrow> (case r of
             None \<Rightarrow> Panic
           | Some rs \<Rightarrow> Ret ((Some (rs\<lparr>rs_Fingerprint64 := Some (Fingerprint e c)\<rparr>), None), s)))"

definition newGETWATCHRes :: Result where
  "newGETWATCHRes = ok_res GETWATCHRes"

definition GETWATCHResNilRes :: Result where
  "GETWATCHResNilRes = var_res ''GETWATCHResNilRes'' GETWATCHRes"

definition evalGETWATCH :: "env \<Rightarrow> Cmd \<Rightarrow> 'z Store \<Rightarrow> 'z reply" where
  "evalGETWATCH e c s = with_fingerprint e c (Some GETWATCHResNilRes) (evalGET e c s)"

definition executeGETWATCH :: "env \<Rightarrow> Cmd \<Rightarrow> 'z ShardManager \<Rightarrow> 'z sreply" where
  "executeGETWATCH e c sm =
     (if length (C_Args c) = 0 then Ret ((Some GETWATCHResNilRes, Some (ErrWrongArgumentCount ''GET.WATCH'')), sm)
      else on_key e (C_Args c ! 0) (evalGETWATCH e c) sm)"

definition newHGETWATCHRes :: Result where
  "newHGETWATCHRes = ok_res HGETWATCHRes"

definition HGETWATCHResNilRes :: Result where
  "HGETWATCHResNilRes = var_res ''HGETWATCHResNilRes'' HGETWATCHRes"

definition evalHGETWATCH :: "env \<Rightarrow> Cmd \<Rightarrow> 'z Store \<Rightarrow> 'z reply" where
  "evalHGETWATCH e c s = with_fingerprint e c None (evalHGET e c s)"

definition executeHGETWATCH :: "env \<Rightarrow> Cmd \<Rightarrow> 'z ShardManager \<Rightarrow> 'z sreply" where
  "executeHGETWATCH e c sm =
     (if length (C_Args c) = 0 then Ret ((Some HGETWATCHResNilRes, Some (ErrWrongArgumentCount ''HGET.WATCH'')), sm)
      else on_key e (C_Args c ! 0) (evalHGETWATCH e c) sm)"

definition newHGETALLWATCHRes :: Result where
  "newHGETALLWATCHRes = ok_res HGETALLWATCHRes"

definition HGETALLWATCHResNilRes :: Result where
  "HGETALLWATCHResNilRes = var_res ''HGETALLWATCHResNilRes'' HGETALLWATCHRes"

definition evalHGETALLWATCH :: "env \<Rightarrow> Cmd \<Rightarrow> 'z Store \<Rightarrow> 'z reply" where
  "evalHGETALLWATCH e c s = with_fingerprint e c None (evalHGETALL e c s)"

definition executeHGETALLWATCH :: "env \<Rightarrow> Cmd \<Rightarrow> 'z ShardManager \<Rightarrow> 'z sreply" where
  "executeHGETALLWATCH e c sm =
     (if length (C_Args c) = 0 then Ret ((Some HGETALLWATCHResNilRes, Some (ErrWrongArgumentCount ''HGETALL.WATCH'')), sm)
      else on_key e (C_Args c ! 0) (evalHGETALLWATCH e c) sm)"

definition newZCARDWATCHRes :: Result where
  "newZCARDWATCHRes = ok_res ZCARDWATCHRes"

definition ZCARDWATCHResNilRes :: Result where
  "ZCARDWATCHResNilRes = var_res ''ZCARDWATCHResNilRes'' ZCARDWATCHRes"

definition evalZCARDWATCH :: "'z zops \<Rightarrow> env \<Rightarrow> Cmd \<Rightarrow> 'z Store \<Rightarrow> 'z reply" where
  "evalZCARDWATCH zo e c s = with_fingerprint e c None (evalZCARD zo e c s)"

definition executeZCARDWATCH :: "'z zops \<Rightarrow> env \<Rightarrow> Cmd \<Rightarrow> 'z ShardManager \<Rightarrow> 'z sreply" where
  "executeZCARDWATCH zo e c sm =
     (if length (C_Args c) = 0 then Ret ((Some ZCARDWATCHResNilRes, Some (ErrWrongArgumentCount ''ZCARD.WATCH'')), sm)
      else on_key e (C_Args c ! 0) (evalZCARDWATCH zo e c) sm)"

definition newZCOUNTWATCHRes :: Result where
  "newZCOUNTWATCHRes = ok_res ZCOUNTWATCHRes"

definition ZCOUNTWATCHResNilRes :: Result where
  "ZCOUNTWATCHResNilRes = var_res ''ZCOUNTWATCHResNilRes'' ZCOUNTWATCHRes"

definition evalZCOUNTWATCH :: "'z zops \<Rightarrow> env \<Rightarrow> Cmd \<Rightarrow> 'z Store \<Rightarrow> 'z reply" where
  "evalZCOUNTWATCH zo e c s = with_fingerprint e c None (evalZCOUNT zo e c s)"

definition executeZCOUNTWATCH :: "'z zops \<Rightarrow> env \<Rightarrow> Cmd \<Rightarrow> 'z ShardManager \<Rightarrow> 'z sreply" where
  "executeZCOUNTWATCH zo e c sm =
     (if length (C_Args c) = 0 then Ret ((Some ZCOUNTWATCHResNilRes, Some (ErrWrongArgumentCount ''ZCOUNT.WATCH'')), sm)
      else on_key e (C_Args c ! 0) (evalZCOUNTWATCH zo e c) sm)"

definition newZRANGEWATCHRes :: Result where
  "newZRANGEWATCHRes = ok_res ZRANGEWATCHRes"

definition ZRANGEWATCHResNilRes :: Result where
  "ZRANGEWATCHResNilRes = var_res ''ZRANGEWATCHResNilRes'' ZRANGEWATCHRes"

definition evalZRANGEWATCH :: "'z zops \<Rightarrow> env \<Rightarrow> Cmd \<Rightarrow> 'z Store \<Rightarrow> 'z reply" where
  "evalZRANGEWATCH zo e c s = with_fingerprint e c None (evalZRANGE zo e c s)"

definition executeZRANGEWATCH :: "'z zops \<Rightarrow> env \<Rightarrow> Cmd \<Rightarrow> 'z ShardManager \<Rightarrow> 'z sreply" where
  "executeZRANGEWATCH zo e c sm =
     (if length (C_Args c) = 0 then Ret ((Some ZRANGEWATCHResNilRes, Some (ErrWrongArgumentCount ''ZRANGE.WATCH'')), sm)
      else on_key e (C_Args c ! 0) (evalZRANGEWATCH zo e c) sm)"

definition newZRANKWATCHRes :: Result where
  "newZRANKWATCHRes = ok_res ZRANKWATCHRes"

definition ZRANKWATCHResNilRes :: Result where
  "ZRANKWATCHResNilRes = var_res ''ZRANKWATCHResNilRes'' ZRANKWATCHRes"

definition evalZRANKWATCH :: "'z zops \<Rightarrow> env \<Rightarrow> Cmd \<Rightarrow> 'z Store \<Rightarrow> 'z reply" where
  "evalZRANKWATCH zo e c s = with_fingerprint e c None (evalZRANK zo e c s)"

definition executeZRANKWATCH :: "'z zops \<Rightarrow> env \<Rightarrow> Cmd \<Rightarrow> 'z ShardManager \<Rightarrow> 'z sreply" where
  "executeZRANKWATCH zo e c sm =
     (if length (C_Args c) = 0 then Ret ((Some ZRANKWATCHResNilRes, Some (ErrWrongArgumentCount ''ZRANK.WATCH'')), sm)
      else on_key e (C_Args c ! 0) (evalZRANKWATCH zo e c) sm)"

section \<open>Commands on several shards\<close>

text \<open>Reading the field of a result of another kind dereferences a nil pointer; the getter
  \<^verbatim>\<open>GetCount\<close> does not.\<close>

definition del_count :: "Result option \<Rightarrow> int outcome" where
  "del_count r = (case r of Some rs \<Rightarrow> (case rs_Response rs of Some (DELRes n) \<Rightarrow> Ret n | _ \<Rightarrow> Panic) | None \<Rightarrow> Panic)"

fun del_shards :: "env \<Rightarrow> Cmd \<Rightarrow> string list \<Rightarrow> int \<Rightarrow> 'z ShardManager \<Rightarrow> 'z sreply" where
  "del_shards e c [] cnt sm = Ret ((Some (newDELRes cnt), None), sm)"
| "del_shards e c (key # keys) cnt sm =
     bind_outcome (on_key e key (evalDEL e c) sm) (\<lambda>((r, err), sm').
       case err of
         Some er \<Rightarrow> Ret ((None, Some er), sm')
       | None \<Rightarrow> bind_outcome (del_count r) (\<lambda>n. del_shards e c keys (cnt + n) sm'))"

definition executeDEL :: "env \<Rightarrow> Cmd \<Rightarrow> 'z ShardManager \<Rightarrow> 'z sreply" where
  "executeDEL e c sm =
     (if length (C_Args c) < 1 then Ret ((Some DELResNilRes, Some (ErrWrongArgumentCount ''DEL'')), sm)
      else del_shards e c (C_Args c) 0 sm)"

text \<open>\<^verbatim>\<open>EXISTS\<close> groups its keys by shard and overwrites the arguments of the command with each group.\<close>

fun group_keys :: "env \<Rightarrow> 'z ShardManager \<Rightarrow> string list \<Rightarrow> (nat \<rightharpoonup> string list) \<Rightarrow> (nat \<rightharpoonup> string list) outcome" where
  "group_keys e sm [] m = Ret m"
| "group_keys e sm (key # keys) m =
     bind_outcome (GetShardForKey e key sm) (\<lambda>i.
       group_keys e sm keys (m(i \<mapsto> (case m i of None \<Rightarrow> [] | Some ks \<Rightarrow> ks) @ [key])))"

definition exists_count :: "Result option \<Rightarrow> int outcome" where
  "exists_count r = (case r of Some rs \<Rightarrow> Ret (case rs_Response rs of Some (EXISTSRes n) \<Rightarrow> n | _ \<Rightarrow> 0) | None \<Rightarrow> Panic)"

fun exists_shards ::
  "env \<Rightarrow> (nat \<times> string list) list \<Rightarrow> Cmd \<Rightarrow> int \<Rightarrow> 'z ShardManager \<Rightarrow> Cmd \<times> 'z sreply" where
  "exists_shards e [] c cnt sm = (c, Ret ((Some (newEXISTSRes cnt), None), sm))"
| "exists_shards e ((i, keys) # rest) c cnt sm =
     (let c' = c\<lparr>C_Args := keys\<rparr> in
      case on_store i (evalEXISTS e c') sm of
        Panic \<Rightarrow> (c', Panic)
      | Ret ((r, Some er), sm') \<Rightarrow> (c', Ret ((None, Some er), sm'))
      | Ret ((r, None), sm') \<Rightarrow>
          (case exists_count r of
             Panic \<Rightarrow> (c', Panic)
           | Ret n \<Rightarrow> exists_shards e rest c' (cnt + n) sm'))"

definition shard_groups :: "env \<Rightarrow> (nat \<rightharpoonup> string list) \<Rightarrow> (nat \<times> string list) list" where
  "shard_groups e m = List.map_filter (\<lambda>i. map_option (Pair i) (m i)) (env_rangeN e (dom m))"

definition executeEXISTS :: "env \<Rightarrow> Cmd \<Rightarrow> 'z ShardManager \<Rightarrow> Cmd \<times> 'z sreply" where
  "executeEXISTS e c sm =
     (if length (C_Args c) < 1 then (c, Ret ((Some EXISTSResNilRes, Some (ErrWrongArgumentCount ''EXISTS'')), sm))
      else
        case group_keys e sm (C_Args c) Map.empty of
          Panic \<Rightarrow> (c, Panic)
        | Ret m \<Rightarrow> exists_shards e (shard_groups e m) c 0 sm)"

definition keys_field :: "Result option \<Rightarrow> string list outcome" where
  "keys_field r = (case r of Some rs \<Rightarrow> (case rs_Response rs of Some (KEYSRes ks) \<Rightarrow> Ret ks | _ \<Rightarrow> Panic) | None \<Rightarrow> Panic)"

fun keys_shards :: "env \<Rightarrow> Cmd \<Rightarrow> nat list \<Rightarrow> string list \<Rightarrow> 'z ShardManager \<Rightarrow> 'z sreply" where
  "keys_shards e c [] keys sm = Ret ((Some (newKEYSRes keys), None), sm)"
| "keys_shards e c (i # is) keys sm =
     bind_outcome (on_store i (evalKEYS e c) sm) (\<lambda>((r, err), sm').
       case err of
         Some er \<Rightarrow> Ret ((Some KEYSResNilRes, Some er), sm')
       | None \<Rightarrow> bind_outcome (keys_field r) (\<lambda>ks. keys_shards e c is (keys @ ks) sm'))"

definition executeKEYS :: "env \<Rightarrow> Cmd \<Rightarrow> 'z ShardManager \<Rightarrow> 'z sreply" where
  "executeKEYS e c sm =
     (if length (C_Args c) \<noteq> 1 then Ret ((Some KEYSResNilRes, Some (ErrWrongArgumentCount ''KEYS'')), sm)
      else keys_shards e c [0..<length (sm_shards sm)] [] sm)"

fun flush_shards :: "env \<Rightarrow> Cmd \<Rightarrow> nat list \<Rightarrow> 'z ShardManager \<Rightarrow> 'z sreply" where
  "flush_shards e c [] sm = Ret ((Some FLUSHDBResOKRes, None), sm)"
| "flush_shards e c (i # is) sm =
     bind_outcome (on_store i (evalFLUSHDB e c) sm) (\<lambda>((r, err), sm').
       case err of
         Some er \<Rightarrow> Ret ((None, Some er), sm')
       | None \<Rightarrow> flush_shards e c is sm')"

definition executeFLUSHDB :: "env \<Rightarrow> Cmd \<Rightarrow> 'z ShardManager \<Rightarrow> 'z sreply" where
  "executeFLUSHDB e c sm = flush_shards e c [0..<length (sm_shards sm)] sm"

section \<open>The registry\<close>

text \<open>A command's metadata without its help texts. \<open>plain\<close> embeds the functions that leave the command as
  it is.\<close>

record 'z CommandMeta =
  cm_Name :: string
  cm_IsWatchable :: bool
  cm_Eval :: "env \<Rightarrow> Cmd \<Rightarrow> 'z Store \<Rightarrow> Cmd \<times> 'z reply"
  cm_Execute :: "env \<Rightarrow> Cmd \<Rightarrow> 'z ShardManager \<Rightarrow> Cmd \<times> 'z sreply"

definition plain :: "('e \<Rightarrow> 'c \<Rightarrow> 's \<Rightarrow> 'r) \<Rightarrow> 'e \<Rightarrow> 'c \<Rightarrow> 's \<Rightarrow> 'c \<times> 'r" where
  "plain f e c s = (c, f e c s)"

definition cDECR :: "'z CommandMeta" where
  "cDECR = \<lparr>cm_Name = ''DECR'', cm_IsWatchable = False,
     cm_Eval = plain (evalDECR), cm_Execute = plain (executeDECR)\<rparr>"

definition cDECRBY :: "'z CommandMeta" where
  "cDECRBY = \<lparr>cm_Name = ''DECRBY'', cm_IsWatchable = False,
     cm_Eval = plain (evalDECRBY), cm_Execute = plain (executeDECRBY)\<rparr>"

definition cDEL :: "'z CommandMeta" where
  "cDEL = \<lparr>cm_Name = ''DEL'', cm_IsWatchable = False,
     cm_Eval = plain (evalDEL), cm_Execute = plain (executeDEL)\<rparr>"

definition cECHO :: "'z CommandMeta" where
  "cECHO = \<lparr>cm_Name = ''ECHO'', cm_IsWatchable = False,
     cm_Eval = plain (evalECHO), cm_Execute = plain (executeECHO)\<rparr>"

definition cEXISTS :: "'z CommandMeta" where
  "cEXISTS = \<lparr>cm_Name = ''EXISTS'', cm_IsWatchable = False,
     cm_Eval = plain (evalEXISTS), cm_Execute = executeEXISTS\<rparr>"

definition cEXPIRE :: "'z CommandMeta" where
  "cEXPIRE = \<lparr>cm_Name = ''EXPIRE'', cm_IsWatchable = False,
     cm_Eval = plain (evalEXPIRE), cm_Execute = plain (executeEXPIRE)\<rparr>"

definition cEXPIREAT :: "'z CommandMeta" where
  "cEXPIREAT = \<lparr>cm_Name = ''EXPIREAT'', cm_IsWatchable = False,
     cm_Eval = plain (evalEXPIREAT), cm_Execute = plain (executeEXPIREAT)\<rparr>"

definition cExpireTime :: "'z CommandMeta" where
  "cExpireTime = \<lparr>cm_Name = ''EXPIRETIME'', cm_IsWatchable = False,
     cm_Eval = plain (evalEXPIRETIME), cm_Execute = plain (executeEXPIRETIME)\<rparr>"

definition cFLUSHDB :: "'z CommandMeta" where
  "cFLUSHDB = \<lparr>cm_Name = ''FLUSHDB'', cm_IsWatchable = False,
     cm_Eval = plain (evalFLUSHDB), cm_Execute = plain (executeFLUSHDB)\<rparr>"

definition cGET :: "'z CommandMeta" where
  "cGET = \<lparr>cm_Name = ''GET'', cm_IsWatchable = True,
     cm_Eval = plain (evalGET), cm_Execute = plain (executeGET)\<rparr>"

definition cGETWATCH :: "'z CommandMeta" where
  "cGETWATCH = \<lparr>cm_Name = ''GET.WATCH'', cm_IsWatchable = False,
     cm_Eval = plain (evalGETWATCH), cm_Execute = plain (executeGETWATCH)\<rparr>"

definition cGETDEL :: "'z CommandMeta" where
  "cGETDEL = \<lparr>cm_Name = ''GETDEL'', cm_IsWatchable = False,
     cm_Eval = plain (evalGETDEL), cm_Execute = plain (executeGETDEL)\<rparr>"

definition cGETEX :: "'z CommandMeta" where
  "cGETEX = \<lparr>cm_Name = ''GETEX'', cm_IsWatchable = False,
     cm_Eval = plain (evalGETEX), cm_Execute = plain (executeGETEX)\<rparr>"

definition cGETSET :: "'z CommandMeta" where
  "cGETSET = \<lparr>cm_Name = ''GETSET'', cm_IsWatchable = False,
     cm_Eval = plain (evalGETSET), cm_Execute = plain (executeGETSET)\<rparr>"

definition cHANDSHAKE :: "'z CommandMeta" where
  "cHANDSHAKE = \<lparr>cm_Name = ''HANDSHAKE'', cm_IsWatchable = False,
     cm_Eval = evalHANDSHAKE, cm_Execute = executeHANDSHAKE\<rparr>"

definition cHGET :: "'z CommandMeta" where
  "cHGET = \<lparr>cm_Name = ''HGET'', cm_IsWatchable = True,
     cm_Eval = plain (evalHGET), cm_Execute = plain (executeHGET)\<rparr>"

definition cHGETWATCH :: "'z CommandMeta" where
  "cHGETWATCH = \<lparr>cm_Name = ''HGET.WATCH'', cm_IsWatchable = False,
     cm_Eval = plain (evalHGETWATCH), cm_Execute = plain (executeHGETWATCH)\<rparr>"

definition cHGETALL :: "'z CommandMeta" where
  "cHGETALL = \<lparr>cm_Name = ''HGETALL'', cm_IsWatchable = True,
     cm_Eval = plain (evalHGETALL), cm_Execute = plain (executeHGETALL)\<rparr>"

definition cHGETALLWATCH :: "'z CommandMeta" where
  "cHGETALLWATCH = \<lparr>cm_Name = ''HGETALL.WATCH'', cm_IsWatchable = False,
     cm_Eval = plain (evalHGETALLWATCH), cm_Execute = plain (executeHGETALLWATCH)\<rparr>"

definition cHSET :: "'z CommandMeta" where
  "cHSET = \<lparr>cm_Name = ''HSET'', cm_IsWatchable = False,
     cm_Eval = plain (evalHSET), cm_Execute = plain (executeHSET)\<rparr>"

definition cINCR :: "'z CommandMeta" where
  "cINCR = \<lparr>cm_Name = ''INCR'', cm_IsWatchable = False,
     cm_Eval = plain (evalINCR), cm_Execute = plain (executeINCR)\<rparr>"

definition cINCRBY :: "'z CommandMeta" where
  "cINCRBY = \<lparr>cm_Name = ''INCRBY'', cm_IsWatchable = False,
     cm_Eval = plain (evalINCRBY), cm_Execute = plain (executeINCRBY)\<rparr>"

definition cKEYS :: "'z CommandMeta" where
  "cKEYS = \<lparr>cm_Name = ''KEYS'', cm_IsWatchable = False,
     cm_Eval = plain (evalKEYS), cm_Execute = plain (executeKEYS)\<rparr>"

definition cPING :: "'z CommandMeta" where
  "cPING = \<lparr>cm_Name = ''PING'', cm_IsWatchable = False,
     cm_Eval = plain (evalPING), cm_Execute = plain (executePING)\<rparr>"

definition cSET :: "'z CommandMeta" where
  "cSET = \<lparr>cm_Name = ''SET'', cm_IsWatchable = False,
     cm_Eval = plain (evalSET), cm_Execute = plain (executeSET)\<rparr>"

definition cTTL :: "'z CommandMeta" where
  "cTTL = \<lparr>cm_Name = ''TTL'', cm_IsWatchable = False,
     cm_Eval = plain (evalTTL), cm_Execute = plain (executeTTL)\<rparr>"

definition cType :: "'z CommandMeta" where
  "cType = \<lparr>cm_Name = ''TYPE'', cm_IsWatchable = False,
     cm_Eval = plain (evalTYPE), cm_Execute = plain (executeTYPE)\<rparr>"

definition cUNWATCH :: "'z CommandMeta" where
  "cUNWATCH = \<lparr>cm_Name = ''UNWATCH'', cm_IsWatchable = False,
     cm_Eval = plain (evalUNWATCH), cm_Execute = plain (executeUNWATCH)\<rparr>"

definition cZADD :: "'z zops \<Rightarrow> 'z CommandMeta" where
  "cZADD zo = \<lparr>cm_Name = ''ZADD'', cm_IsWatchable = False,
     cm_Eval = plain (evalZADD zo), cm_Execute = plain (executeZADD zo)\<rparr>"

definition cZCARD :: "'z zops \<Rightarrow> 'z CommandMeta" where
  "cZCARD zo = \<lparr>cm_Name = ''ZCARD'', cm_IsWatchable = True,
     cm_Eval = plain (evalZCARD zo), cm_Execute = plain (executeZCARD zo)\<rparr>"

definition cZCARDWATCH :: "'z zops \<Rightarrow> 'z CommandMeta" where
  "cZCARDWATCH zo = \<lparr>cm_Name = ''ZCARD.WATCH'', cm_IsWatchable = False,
     cm_Eval = plain (evalZCARDWATCH zo), cm_Execute = plain (executeZCARDWATCH zo)\<rparr>"

definition cZCOUNT :: "'z zops \<Rightarrow> 'z CommandMeta" where
  "cZCOUNT zo = \<lparr>cm_Name = ''ZCOUNT'', cm_IsWatchable = True,
     cm_Eval = plain (evalZCOUNT zo), cm_Execute = plain (executeZCOUNT zo)\<rparr>"

definition cZCOUNTWATCH :: "'z zops \<Rightarrow> 'z CommandMeta" where
  "cZCOUNTWATCH zo = \<lparr>cm_Name = ''ZCOUNT.WATCH'', cm_IsWatchable = False,
     cm_Eval = plain (evalZCOUNTWATCH zo), cm_Execute = plain (executeZCOUNTWATCH zo)\<rparr>"

definition cZPOPMAX :: "'z zops \<Rightarrow> 'z CommandMeta" where
  "cZPOPMAX zo = \<lparr>cm_Name = ''ZPOPMAX'', cm_IsWatchable = False,
     cm_Eval = plain (evalZPOPMAX zo), cm_Execute = plain (executeZPOPMAX zo)\<rparr>"

definition cZPOPMIN :: "'z zops \<Rightarrow> 'z CommandMeta" where
  "cZPOPMIN zo = \<lparr>cm_Name = ''ZPOPMIN'', cm_IsWatchable = False,
     cm_Eval = plain (evalZPOPMIN zo), cm_Execute = plain (executeZPOPMIN zo)\<rparr>"

definition cZRANGE :: "'z zops \<Rightarrow> 'z CommandMeta" where
  "cZRANGE zo = \<lparr>cm_Name = ''ZRANGE'', cm_IsWatchable = True,
     cm_Eval = plain (evalZRANGE zo), cm_Execute = plain (executeZRANGE zo)\<rparr>"

definition cZRANGEWATCH :: "'z zops \<Rightarrow> 'z CommandMeta" where
  "cZRANGEWATCH zo = \<lparr>cm_Name = ''ZRANGE.WATCH'', cm_IsWatchable = False,
     cm_Eval = plain (evalZRANGEWATCH zo), cm_Execute = plain (executeZRANGEWATCH zo)\<rparr>"

definition cZRANK :: "'z zops \<Rightarrow> 'z CommandMeta" where
  "cZRANK zo = \<lparr>cm_Name = ''ZRANK'', cm_IsWatchable = True,
     cm_Eval = plain (evalZRANK zo), cm_Execute = plain (executeZRANK zo)\<rparr>"

definition cZRANKWATCH :: "'z zops \<Rightarrow> 'z CommandMeta" where
  "cZRANKWATCH zo = \<lparr>cm_Name = ''ZRANK.WATCH'', cm_IsWatchable = False,
     cm_Eval = plain (evalZRANKWATCH zo), cm_Execute = plain (executeZRANKWATCH zo)\<rparr>"

definition cZREM :: "'z zops \<Rightarrow> 'z CommandMeta" where
  "cZREM zo = \<lparr>cm_Name = ''ZREM'', cm_IsWatchable = False,
     cm_Eval = plain (evalZREM zo), cm_Execute = plain (executeZREM zo)\<rparr>"

text \<open>A Go map from names to metadata is an association list with distinct keys; each file's \<^verbatim>\<open>init\<close> adds one.\<close>

definition AddCommand :: "'z CommandMeta \<Rightarrow> (string \<times> 'z CommandMeta) list \<Rightarrow> (string \<times> 'z CommandMeta) list" where
  "AddCommand cmd r = AList.update (cm_Name cmd) cmd r"

definition all_commands :: "'z zops \<Rightarrow> 'z CommandMeta list" where
  "all_commands zo =
     [cDECR, cDECRBY, cDEL, cECHO, cEXISTS, cEXPIRE, cEXPIREAT, cExpireTime, cFLUSHDB, cGET,
      cGETWATCH, cGETDEL, cGETEX, cGETSET, cHANDSHAKE, cHGET, cHGETWATCH, cHGETALL,
      cHGETALLWATCH, cHSET, cINCR, cINCRBY, cKEYS, cPING, cSET, cTTL, cType, cUNWATCH,
      cZADD zo, cZCARD zo, cZCARDWATCH zo, cZCOUNT zo, cZCOUNTWATCH zo, cZPOPMAX zo,
      cZPOPMIN zo, cZRANGE zo, cZRANGEWATCH zo, cZRANK zo, cZRANKWATCH zo, cZREM zo]"

definition CommandRegistry :: "'z zops \<Rightarrow> (string \<times> 'z CommandMeta) list" where
  "CommandRegistry zo = fold AddCommand (all_commands zo) []"

definition Total :: "'z zops \<Rightarrow> nat" where
  "Total zo = length (CommandRegistry zo)"

section \<open>Execute\<close>

text \<open>The result that \<open>Execute\<close> starts with.\<close>

definition empty_res :: Result where
  "empty_res = \<lparr>rs_Message = [], rs_Status = Status_OK, rs_Response = None, rs_Fingerprint64 = None, rs_Var = None\<rparr>"

definition Execute :: "'z zops \<Rightarrow> env \<Rightarrow> Cmd \<Rightarrow> 'z ShardManager \<Rightarrow> Cmd \<times> 'z sreply" where
  "Execute zo e c sm =
     (case C_Meta c of
        None \<Rightarrow>
          (case map_of (CommandRegistry zo) (C_Cmd c) of
             None \<Rightarrow> (c, Ret ((Some empty_res, Some (ErrUnknownCmd (C_Cmd c))), sm))
           | Some meta \<Rightarrow> cm_Execute meta e (c\<lparr>C_Meta := Some (C_Cmd c)\<rparr>) sm)
      | Some name \<Rightarrow>
          (case map_of (CommandRegistry zo) name of
             None \<Rightarrow> (c, Panic)
           | Some meta \<Rightarrow> cm_Execute meta e c sm))"

end
