(* ===== verification/CmdInv.thy ===== *)
theory CmdInv
  imports CmdCore
begin

text \<open>
  The invariant under which the commands run on a shard: the store's own invariant, and that the
  dynamic type of every stored value is the one its type tag announces, so that the type
  assertions of the commands cannot panic. \<open>zok\<close> is the invariant of the third-party sorted set.
  \<open>safe\<close> says that an evaluation returns and keeps the invariant, \<open>keeps\<close> that it keeps the
  invariant if it does not panic.
\<close>

fun value_ok :: "('z \<Rightarrow> bool) \<Rightarrow> ObjectType \<Rightarrow> 'z Value \<Rightarrow> bool" where
  "value_ok zok ObjTypeInt (VInt i) \<longleftrightarrow> in_i64 i"
| "value_ok zok ObjTypeString (VString t) \<longleftrightarrow> True"
| "value_ok zok ObjTypeFloat (VFloat f) \<longleftrightarrow> True"
| "value_ok zok ObjTypeByteArray (VBytes b) \<longleftrightarrow> True"
| "value_ok zok ObjTypeHLL (VBytes b) \<longleftrightarrow> True"
| "value_ok zok ObjTypeSSMap (VSSMap m) \<longleftrightarrow> distinct (map fst m)"
| "value_ok zok ObjTypeSortedSet (VSortedSet z) \<longleftrightarrow> zok z"
| "value_ok zok _ _ \<longleftrightarrow> False"

definition typed :: "('z \<Rightarrow> bool) \<Rightarrow> (string \<rightharpoonup> 'z entry) \<Rightarrow> bool" where
  "typed zok m \<longleftrightarrow> (\<forall>k ty v x. m k = Some (ty, v, x) \<longrightarrow> value_ok zok ty v)"

definition cmd_inv :: "('z \<Rightarrow> bool) \<Rightarrow> int \<Rightarrow> 'z Store \<Rightarrow> bool" where
  "cmd_inv zok mk s \<longleftrightarrow> good mk s \<and> typed zok (db s)"

definition keeps :: "('s \<Rightarrow> bool) \<Rightarrow> ('r \<times> 's) outcome \<Rightarrow> bool" where
  "keeps I m \<longleftrightarrow> (\<forall>r s'. m = Ret (r, s') \<longrightarrow> I s')"

definition safe :: "('s \<Rightarrow> bool) \<Rightarrow> ('r \<times> 's) outcome \<Rightarrow> bool" where
  "safe I m \<longleftrightarrow> (\<exists>r s'. m = Ret (r, s') \<and> I s')"

lemma safe_simps [simp]: "safe I (Ret (r, s)) \<longleftrightarrow> I s" "\<not> safe I Panic"
  by (auto simp: safe_def)

lemma keeps_simps [simp]: "keeps I (Ret (r, s)) \<longleftrightarrow> I s" "keeps I Panic"
  by (auto simp: keeps_def)

lemma safe_keeps: "safe I m \<Longrightarrow> keeps I m"
  by (auto simp: safe_def)

section \<open>Type correctness\<close>

lemma typed_upd: "typed zok m \<Longrightarrow> value_ok zok ty v \<Longrightarrow> typed zok (m(k \<mapsto> (ty, v, x)))"
  by (auto simp: typed_def)

lemma typed_del [simp]: "typed zok m \<Longrightarrow> typed zok (m(k := None))"
  by (auto simp: typed_def)

lemma typed_live [simp]: "typed zok m \<Longrightarrow> typed zok (live t m)"
  by (auto simp: typed_def live_def split: option.splits if_splits)

lemma value_okE:
  assumes "value_ok zok ty v"
  obtains (int) i where "ty = ObjTypeInt" "v = VInt i" "in_i64 i"
  | (str) t where "ty = ObjTypeString" "v = VString t"
  | (flt) f where "ty = ObjTypeFloat" "v = VFloat f"
  | (bytes) b where "ty = ObjTypeByteArray \<or> ty = ObjTypeHLL" "v = VBytes b"
  | (ssmap) m where "ty = ObjTypeSSMap" "v = VSSMap m" "distinct (map fst m)"
  | (zset) z where "ty = ObjTypeSortedSet" "v = VSortedSet z" "zok z"
  using assms by (cases "(zok, ty, v)" rule: value_ok.cases) auto

text \<open>The type and the value that a string is stored with.\<close>

definition string_type :: "env \<Rightarrow> string \<Rightarrow> ObjectType" where
  "string_type e t =
     (if ParseInt t \<noteq> None then ObjTypeInt else if env_ParseFloat e t \<noteq> None then ObjTypeFloat else ObjTypeString)"

definition string_value :: "env \<Rightarrow> string \<Rightarrow> 'z Value" where
  "string_value e t =
     (case ParseInt t of Some i \<Rightarrow> VInt i
      | None \<Rightarrow> (case env_ParseFloat e t of Some f \<Rightarrow> VFloat f | None \<Rightarrow> VString t))"

lemma CreateObject_eq: "CreateObjectFromValue e t d s = NewObj e (string_value e t) d (string_type e t) s"
  by (simp add: CreateObjectFromValue_def string_value_def string_type_def split: option.split)

lemma string_value_ok: "value_ok zok (string_type e t) (string_value e t)"
  using ParseInt_in_range by (auto simp: string_value_def string_type_def split: option.split)

lemma getWireValue_ok:
  "value_ok zok (obj_Type ob) (obj_Value ob) \<Longrightarrow> \<exists>r. getWireValueFromObj e (Some ob) = Ret r"
  by (erule value_okE) (auto simp: getWireValueFromObj_def)

lemma value_res_ok:
  "value_ok zok (obj_Type ob) (obj_Value ob) \<Longrightarrow> \<exists>r. value_res mk e (Some ob) = Ret r"
  using getWireValue_ok [of zok ob e] by (auto simp: value_res_def)

lemma value_res_None [simp]: "value_res mk e None = Ret (ok_res (mk ''''))"
  by (simp add: value_res_def getWireValueFromObj_def)

lemma value_reply_safe:
  assumes "value_ok zok (obj_Type ob) (obj_Value ob)" and "I s"
  shows "safe I (bind_outcome (value_res mk e (Some ob)) (\<lambda>r. reply_ok r s))"
  using value_res_ok [OF assms(1), of mk e] assms(2) by auto

section \<open>The primitives keep the invariant\<close>

lemma cmd_inv_wf: "cmd_inv zok mk s \<Longrightarrow> wf_store {} s"
  by (simp add: cmd_inv_def good_def)

lemma getHelper_db:
  "wf_store P s \<Longrightarrow> db (snd (getHelper e k tch s)) = (if view e s k = None then (db s)(k := None) else db s)"
  by (rule getHelper_cases [of s k e tch])
    (auto simp: deleteKey_db db_eq [of s k] fun_upd_idem_iff)

lemma getHelper_inv: "cmd_inv zok mk s \<Longrightarrow> cmd_inv zok mk (snd (getHelper e k tch s))"
  using getHelper_good [of mk s e k tch] cmd_inv_wf [of zok mk s]
  by (auto simp: cmd_inv_def getHelper_db)

text \<open>A lookup under the invariant, for elimination.\<close>

lemma lookup_cases:
  assumes "cmd_inv zok mk s"
  obtains (none) s1 where "getHelper e k tch s = (None, s1)" "cmd_inv zok mk s1" "view e s k = None"
      "db s1 = (db s)(k := None)" "tbl s1 k = None"
  | (some) p s1 where "getHelper e k tch s = (Some p, s1)" "cmd_inv zok mk s1" "tbl s1 k = Some p"
      "view e s k = Some (obj_Type (st_heap s1 p), obj_Value (st_heap s1 p), exps s1 p)" "db s1 = db s"
      "value_ok zok (obj_Type (st_heap s1 p)) (obj_Value (st_heap s1 p))"
proof -
  obtain r s1 where g: "getHelper e k tch s = (r, s1)" by (cases "getHelper e k tch s")
  have i: "cmd_inv zok mk s1" using getHelper_inv [OF assms, of e k tch] g by simp
  have d: "db s1 = (if view e s k = None then (db s)(k := None) else db s)"
    using getHelper_db [OF cmd_inv_wf [OF assms], of e k tch] g by simp
  show ?thesis
  proof (cases r)
    case None
    then have v: "view e s k = None" using getHelper_None [of e k tch s] g by simp
    have "tbl s1 k = None" using getHelper_tbl_None [of e k tch s] g None by simp
    then show ?thesis using none [OF _ i v] g None d v by simp
  next
    case (Some p)
    note gs = getHelper_Some [of e k tch s p, unfolded g fst_conv snd_conv, OF Some]
    have t: "tbl s1 k = Some p" using gs(1,2) by simp
    have v: "view e s k = Some (obj_Type (st_heap s1 p), obj_Value (st_heap s1 p), exps s1 p)"
      unfolding gs(3) gs(4) [of p, symmetric] by (simp add: entry_def)
    have d': "db s1 = db s" using d v by simp
    have "db s1 k = Some (obj_Type (st_heap s1 p), obj_Value (st_heap s1 p), exps s1 p)"
      using t by (simp add: db_eq entry_def)
    then have "value_ok zok (obj_Type (st_heap s1 p)) (obj_Value (st_heap s1 p))"
      using i by (auto simp: cmd_inv_def typed_def)
    with some [OF _ i t v d'] g Some show ?thesis by simp
  qed
qed

lemma put_new_inv:
  assumes "cmd_inv zok mk s" and "range_ok e" and "value_ok zok ty v"
  shows "cmd_inv zok mk (put_new e k v d ty o' s)"
proof -
  note wf = cmd_inv_wf [OF assms(1)]
  have "typed zok (db (put_new e k v d ty o' s))"
    using assms(1,3) unfolding put_new_db [OF wf] by (auto simp: cmd_inv_def typed_def)
  with put_new_good [of mk s e] assms(1,2) show ?thesis by (simp add: cmd_inv_def)
qed

lemma SetExpiry_Unix: "SetExpiry e p d s = SetUnixTimeExpiry p (i64 (env_now e + d)) s"
  by (simp add: SetExpiry_def SetUnixTimeExpiry_def)

lemma in_place_inv:
  assumes i: "cmd_inv zok mk s" and k: "tbl s k = Some p"
    and ok: "value_ok zok (obj_Type (st_heap s p)) (obj_Value (st_heap s p))"
  shows "cmd_inv zok mk (SetUnixTimeExpiry p t s)" and "cmd_inv zok mk (SetExpiry e p d s)"
    and "cmd_inv zok mk (DelExpiry p s)"
    and "value_ok zok (obj_Type (st_heap s p)) v \<Longrightarrow> cmd_inv zok mk (setValue p v s)"
proof -
  note wf = cmd_inv_wf [OF i]
  have g: "good mk s" and ty: "typed zok (db s)" using i by (simp_all add: cmd_inv_def)
  have gs: "good mk (SetUnixTimeExpiry p t s)" for t
    by (rule good_smaller [OF g expiry_wf(1) [OF wf k]]) simp_all
  then have u: "cmd_inv zok mk (SetUnixTimeExpiry p t s)" for t
    by (simp add: cmd_inv_def expiry_db(1) [OF wf k] typed_upd [OF ty ok])
  then show "cmd_inv zok mk (SetUnixTimeExpiry p t s)" and "cmd_inv zok mk (SetExpiry e p d s)"
    by (simp_all add: SetExpiry_Unix)
  have "good mk (DelExpiry p s)"
    by (rule good_smaller [OF g expiry_wf(2) [OF wf k]]) simp_all
  then show "cmd_inv zok mk (DelExpiry p s)"
    by (simp add: cmd_inv_def expiry_db(2) [OF wf k] typed_upd [OF ty ok])
  assume v: "value_ok zok (obj_Type (st_heap s p)) v"
  have "good mk (setValue p v s)" by (rule good_smaller [OF g]) (simp_all add: wf)
  then show "cmd_inv zok mk (setValue p v s)"
    by (simp add: cmd_inv_def setValue_db [OF wf k] typed_upd [OF ty v])
qed

lemma Del_inv: "cmd_inv zok mk s \<Longrightarrow> cmd_inv zok mk (snd (Del c k s))"
  using Del_good [of mk s c k] Del_db [OF cmd_inv_wf, of zok mk s c k]
  by (auto simp: cmd_inv_def)

lemma cycle_inv:
  assumes "cmd_inv zok mk s" and "range_ok e"
  shows "cmd_inv zok mk (DeleteExpiredKeys e s)"
proof -
  have "typed zok (view e s)"
    using assms(1) by (simp add: cmd_inv_def view_def)
  with DeleteExpiredKeys_spec(2) [OF cmd_inv_wf [OF assms(1)] assms(2)] cycle_good [of mk s e] assms
  show ?thesis by (simp add: cmd_inv_def)
qed

lemma expire_inv: "cmd_inv zok mk s \<Longrightarrow> cmd_inv zok mk (snd (EvaluateAndSetExpiry e subs t k s))"
proof -
  assume i: "cmd_inv zok mk s"
  show ?thesis
  proof (cases rule: EvaluateAndSetExpiry_cases [of e subs t k s])
    case same
    then show ?thesis using getHelper_inv [OF i] by (simp add: Get_def)
  next
    case (set p s1)
    from i show ?thesis
      by (cases rule: lookup_cases [where e = e and k = k and tch = True])
        (use set in_place_inv(1) in \<open>auto simp: Get_def\<close>)
  qed
qed

lemma Reset_inv:
  assumes "cmd_inv zok mk s"
  shows "cmd_inv zok mk (Reset s)"
proof -
  have g: "good mk s" using assms by (simp add: cmd_inv_def)
  have wf: "wf_store {} (Reset s)" by (rule empty_store_wf) (simp_all add: Reset_def)
  have "good mk (Reset s)"
    by (rule good_smaller [OF g wf]) (use good_wf [OF g] in \<open>simp_all add: Reset_def wf_store_def\<close>)
  moreover have "db (Reset s) = Map.empty"
    by (simp add: db_eq fun_eq_iff Reset_def RegGet_M NewRegMap_def)
  ultimately show ?thesis by (simp add: cmd_inv_def typed_def)
qed

lemma NewStore_inv: "cmd_inv zok mk (NewStore ch (Some (NewPrimitiveEvictionStrategy mk)) sid)"
proof -
  have "good mk (NewStore ch (Some (NewPrimitiveEvictionStrategy mk)) sid)"
    by (rule reachable_good [OF reachable.init])
  then show ?thesis by (simp add: cmd_inv_def typed_def)
qed

end
