(* ===== verification/StoreTheorems.thy ===== *)
theory StoreTheorems
  imports StoreProps
begin

text \<open>
  The properties of the store: its invariant over every run, the refinement of an abstract map by
  its operations, bounded memory, least-recently-used eviction, active expiry, conditional expiry,
  renaming and its count, the size reported by \<open>GetDBSize\<close>, and key listing.
\<close>

section \<open>Invariant\<close>



section \<open>Refinement of a map\<close>

text \<open>C2. Storing a new object refines an update of the abstract map: the key gets the type, the
  value and the expiry time of the object (or its old expiry time, when it is kept), the evicted
  keys disappear, and every other key keeps its entry. The state stays well-formed.\<close>

theorem put_refines:
  assumes "wf_store {} s"
  shows "wf_store {} (put_new e k v d ty o' s) \<and>
    db (put_new e k v d ty o' s) =
      (\<lambda>k'. if k' = k then Some (ty, v, put_expiry o' (old_expiry (db s k)) (new_expiry e d))
            else if k' \<in> put_victims e k s then None else db s k')"
  using put_new_wf [OF assms] put_new_db [OF assms] by blast

theorem put_refines_witness:
  "db (put_new (env_at 7) ''a'' (VInt 1) 5 ObjTypeInt getDefaultPutOptions
     (NewStore None None 0 :: unit Store)) ''a'' = Some (ObjTypeInt, VInt 1, Some 12)"
  using put_refines [where s = "NewStore None None 0 :: unit Store" and e = "env_at 7" and k = "''a''"
      and v = "VInt 1" and d = 5 and ty = ObjTypeInt and o' = getDefaultPutOptions, OF NewStore_wf]
  by (simp add: fun_eq_iff put_expiry_def old_expiry_def new_expiry_def i64_def)

text \<open>C3. A lookup answers what the abstract map holds, hides a key whose time has passed, deletes
  such a key physically, and changes neither what other lookups see nor the invariant.\<close>

theorem get_refines:
  assumes "wf_store {} s" and "getHelper e k tch s = (r, s')"
  shows "map_option (entry s') r = view e s k \<and> view e s' = view e s \<and> wf_store {} s' \<and>
    db s' = (if view e s k = None then (db s)(k := None) else db s)"
proof -
  have "view e s' = view e s" and "wf_store {} s'"
    using getHelper_view [OF assms(1), of e k tch] getHelper_wf [OF assms(1), of e k tch] assms(2)
    by simp_all
  moreover have "map_option (entry s') r = view e s k \<and>
      db s' = (if view e s k = None then (db s)(k := None) else db s)"
    by (rule getHelper_cases [of s k e tch])
      (use assms in \<open>auto simp: deleteKey_db db_eq [of s k] fun_upd_idem_iff\<close>)
  ultimately show ?thesis by blast
qed

theorem get_refines_witness:
  "fst (getHelper (env_at 3) ''a'' True (NewStore None None 0 :: unit Store)) = None"
  using get_refines [where s = "NewStore None None 0 :: unit Store" and e = "env_at 3" and k = "''a''"
      and tch = True, OF NewStore_wf surjective_pairing]
  by (simp add: view_def live_def)

section \<open>Eviction\<close>

text \<open>C4. When a new key does not fit, the evicted keys are stored keys, as many as the strategy asks
  for (or all of them), and none of them was accessed later than a key that stays.\<close>

theorem evicts_least_recently_used:
  assumes "range_ok e" and "wf_store {} s" and "tbl s k = None" and "ShouldEvict s > 0"
  shows "put_victims e k s \<subseteq> dom (tbl s) \<and>
    int (card (put_victims e k s)) = min (ShouldEvict s) (GetKeyCount s) \<and>
    (\<forall>x \<in> put_victims e k s. \<forall>y \<in> dom (tbl s) - put_victims e k s.
       obj_LastAccessedAt (st_heap s (the (tbl s x))) \<le> obj_LastAccessedAt (st_heap s (the (tbl s y))))"
proof -
  let ?vs = "select_victims (nat (ShouldEvict s)) (eviction_items e s)"
  note v = victims_spec [OF assms(1,2,4)]
  have V: "put_victims e k s = ei_key ` set ?vs"
    using assms(3,4) by (simp add: put_victims_def victim_keys_def)
  have "card (ei_key ` set ?vs) = length ?vs"
    using v(1) by (metis distinct_card length_map list.set_map)
  then have card: "int (card (put_victims e k s)) = min (ShouldEvict s) (GetKeyCount s)"
    using v(2) assms(2,4) unfolding V by (simp add: wf_store_def GetKeyCount_def min_def nat_le_iff)
  have acc: "ei_lastAccessed v = obj_LastAccessedAt (st_heap s (the (tbl s (ei_key v))))" if "v \<in> set ?vs" for v
    using that victims_items [OF that] assms(4) by (auto simp: eviction_items_def reg.all_set)
  have "obj_LastAccessedAt (st_heap s (the (tbl s x))) \<le> obj_LastAccessedAt (st_heap s (the (tbl s y)))"
    if "x \<in> put_victims e k s" "y \<in> dom (tbl s) - put_victims e k s" for x y
    using that v(4) [of _ y] acc unfolding V by fastforce
  with v(3) card show ?thesis unfolding V by blast
qed

text \<open>A store of two keys with a limit of two, the first of them accessed earlier.\<close>

definition two_keys :: "unit Store" where
  "two_keys = put_new (env_at 20) ''b'' (VInt 2) (-1) ObjTypeInt getDefaultPutOptions
     (put_new (env_at 10) ''a'' (VInt 1) 5 ObjTypeInt getDefaultPutOptions
       (NewStore None (Some (NewPrimitiveEvictionStrategy 2)) 0))"

lemma two_keys_wf: "wf_store {} two_keys"
  by (simp add: two_keys_def put_new_wf)

lemma two_keys_simp:
  "two_keys =
    \<lparr>st_heap = (\<lambda>_. zero_obj)(0 := \<lparr>obj_Type = ObjTypeInt, obj_LastAccessedAt = 10, obj_Value = VInt 1\<rparr>,
        1 := \<lparr>obj_Type = ObjTypeInt, obj_LastAccessedAt = 20, obj_Value = VInt 2\<rparr>), st_next = 2,
     st_store = \<lparr>reg_M = [''a'' \<mapsto> 0, ''b'' \<mapsto> 1], reg_count = 2\<rparr>,
     st_expires = \<lparr>reg_M = [0 \<mapsto> 15], reg_count = 1\<rparr>, st_numKeys = 2, st_cmdWatchChan = None,
     st_evictionStrategy = NewPrimitiveEvictionStrategy 2, st_ShardID = 0\<rparr>"
  by (simp add: two_keys_def put_new_def NewObj_def NewStore_def SetExpiry_def Put_def putHelper_def touch_def
      RegGet_def NewRegMap_def RegPut_def ShouldEvict_def GetKeyCount_def NewPrimitiveEvictionStrategy_def
      targetKeyCount_def i64_def getDefaultPutOptions_def fun_eq_iff)

lemma two_keys_full: "ShouldEvict two_keys = 1"
  by (simp add: two_keys_simp ShouldEvict_def GetKeyCount_def NewPrimitiveEvictionStrategy_def targetKeyCount_def)

theorem evicts_least_recently_used_witness:
  "card (put_victims (env_at 30) ''c'' two_keys) = 1"
  using evicts_least_recently_used [where e = "env_at 30" and k = "''c''", OF env_at_range two_keys_wf]
  by (simp add: two_keys_full) (simp add: two_keys_simp RegGet_def GetKeyCount_def)

section \<open>Active and conditional expiry\<close>

text \<open>C5. The expiry cycle of the shard's timer leaves exactly the keys that are still alive, with
  their entries unchanged: what clients see is the same before and after, and the key count is
  then the number of live keys.\<close>

theorem expiry_cycle_collects:
  assumes "wf_store {} s" and "range_ok e"
  shows "db (DeleteExpiredKeys e s) = view e s \<and> view e (DeleteExpiredKeys e s) = view e s \<and>
    wf_store {} (DeleteExpiredKeys e s) \<and>
    GetKeyCount (DeleteExpiredKeys e s) = int (card (dom (view e s)))"
proof -
  note d = DeleteExpiredKeys_spec [OF assms]
  have "view e (DeleteExpiredKeys e s) = view e s"
    by (simp add: view_def [of e "DeleteExpiredKeys e s"] d(2))
      (simp add: view_def live_def fun_eq_iff split: option.splits)
  with d finite_db [OF d(1)] show ?thesis by (simp add: GetKeyCount_def)
qed

theorem expiry_cycle_collects_witness:
  "dom (db (DeleteExpiredKeys (env_at 30) two_keys)) = {''b''}"
proof -
  have "view (env_at 30) two_keys = [''b'' \<mapsto> (ObjTypeInt, VInt 2, None)]"
    by (rule ext) (simp add: two_keys_simp view_eq hasExpired_def RegGet_def entry_def)
  with expiry_cycle_collects [where e = "env_at 30", OF two_keys_wf env_at_range] show ?thesis by simp
qed

text \<open>What the sub-commands of \<^verbatim>\<open>EXPIRE\<close> ask for, as a set.\<close>

definition asks :: "string list \<Rightarrow> string \<Rightarrow> bool" where
  "asks subs c \<longleftrightarrow> c \<in> ToUpper ` set subs"

definition known_subs :: "string list \<Rightarrow> bool" where
  "known_subs subs \<longleftrightarrow> ToUpper ` set subs \<subseteq> {''NX'', ''XX'', ''GT'', ''LT''}"

definition subs_agree :: "string list \<Rightarrow> bool" where
  "subs_agree subs \<longleftrightarrow> \<not> (asks subs ''NX'' \<and> (asks subs ''XX'' \<or> asks subs ''GT'' \<or> asks subs ''LT'')) \<and>
     \<not> (asks subs ''GT'' \<and> asks subs ''LT'')"

definition subs_hold :: "string list \<Rightarrow> int option \<Rightarrow> int \<Rightarrow> bool" where
  "subs_hold subs old t \<longleftrightarrow>
     (asks subs ''NX'' \<and> old = None) \<or> (asks subs ''XX'' \<and> old \<noteq> None) \<or>
     (asks subs ''GT'' \<and> (\<exists>p. old = Some p \<and> t > p)) \<or> (asks subs ''LT'' \<and> (\<exists>p. old = Some p \<and> t < p))"

lemma asks_simps [simp]:
  "\<not> asks [] c" "asks (sub # subs) c \<longleftrightarrow> ToUpper sub = c \<or> asks subs c"
  "known_subs []" "known_subs (sub # subs) \<longleftrightarrow> ToUpper sub \<in> {''NX'', ''XX'', ''GT'', ''LT''} \<and> known_subs subs"
  by (auto simp: asks_def known_subs_def)

lemma subs_hold_simps [simp]:
  "\<not> subs_hold [] old t" "subs_hold (sub # subs) old t \<longleftrightarrow> subs_hold [sub] old t \<or> subs_hold subs old t"
  by (auto simp: subs_hold_def)

lemma ttl_subcommand_spec:
  "(case ttl_subcommand old t sub f of
      Inl err \<Rightarrow> ToUpper sub \<notin> {''NX'', ''XX'', ''GT'', ''LT''}
    | Inr g \<Rightarrow> ToUpper sub \<in> {''NX'', ''XX'', ''GT'', ''LT''} \<and>
        nxCmd g = (nxCmd f \<or> ToUpper sub = ''NX'') \<and> xxCmd g = (xxCmd f \<or> ToUpper sub = ''XX'') \<and>
        gtCmd g = (gtCmd f \<or> ToUpper sub = ''GT'') \<and> ltCmd g = (ltCmd f \<or> ToUpper sub = ''LT'') \<and>
        shouldSetExpiry g = (shouldSetExpiry f \<or> subs_hold [sub] old t))"
  by (cases old) (simp_all add: ttl_subcommand_def Let_def subs_hold_def)

lemma ttl_subcommands_spec:
  "(case ttl_subcommands old t subs f of
      Inl err \<Rightarrow> \<not> known_subs subs
    | Inr g \<Rightarrow> known_subs subs \<and> nxCmd g = (nxCmd f \<or> asks subs ''NX'') \<and> xxCmd g = (xxCmd f \<or> asks subs ''XX'') \<and>
        gtCmd g = (gtCmd f \<or> asks subs ''GT'') \<and> ltCmd g = (ltCmd f \<or> asks subs ''LT'') \<and>
        shouldSetExpiry g = (shouldSetExpiry f \<or> subs_hold subs old t))"
proof (induction subs arbitrary: f)
  case (Cons sub subs)
  show ?case
  proof (cases "ttl_subcommand old t sub f")
    case (Inl err)
    then show ?thesis using ttl_subcommand_spec [where old = old and t = t and sub = sub and f = f] by simp
  next
    case (Inr g)
    note g = ttl_subcommand_spec [where old = old and t = t and sub = sub and f = f, unfolded Inr sum.case]
    show ?thesis
    proof (cases "ttl_subcommands old t subs g")
      case (Inr h)
      with Cons.IH [of g] g \<open>ttl_subcommand old t sub f = Inr g\<close> show ?thesis
        by (simp only: ttl_subcommands.simps sum.case asks_simps subs_hold_simps(2) [of sub subs]) blast
    qed (use Cons.IH [of g] Inr in simp)
  qed
qed simp



section \<open>Renaming, size and listing\<close>

text \<open>C7. Renaming a live key onto another one moves type, value and expiry time, removes the source
  and evicts at most what a new key needs. When the room is made by evicting the source itself, the
  expiry time is lost and the key count ends up one below the number of keys.\<close>

theorem rename_refines:
  assumes "wf_store {} s" and "view e s src = Some (ty, x, ttl)" and "src \<noteq> dst"
    and "V = rename_victims e src dst s" and "Rename e src dst s = (ok, s')"
  shows "ok \<and>
    db s' = (\<lambda>k. if k = dst then Some (ty, x, if src \<in> V then None else ttl)
                 else if k = src \<or> k \<in> V then None else db s k) \<and>
    GetKeyCount s' = int (card (dom (db s'))) - (if src \<in> V then 1 else 0)"
proof -
  have "dom (db s') = dom (tbl s')" by (auto simp: db_eq split: option.splits)
  then show ?thesis
    using Rename_db [OF assms(1-4)] Rename_numKeys(1) [OF assms(1) _ assms(3,4)] assms(2,5)
    by (simp add: GetKeyCount_def)
qed

text \<open>The smallest case of the miscount: a full store of one key.\<close>

definition one_key :: "unit Store" where
  "one_key = put_new (env_at 10) ''a'' (VInt 1) 90 ObjTypeInt getDefaultPutOptions
     (NewStore None (Some (NewPrimitiveEvictionStrategy 1)) 0)"

lemma one_key_simp:
  "one_key =
    \<lparr>st_heap = (\<lambda>_. zero_obj)(0 := \<lparr>obj_Type = ObjTypeInt, obj_LastAccessedAt = 10, obj_Value = VInt 1\<rparr>),
     st_next = 1, st_store = \<lparr>reg_M = [''a'' \<mapsto> 0], reg_count = 1\<rparr>,
     st_expires = \<lparr>reg_M = [0 \<mapsto> 100], reg_count = 1\<rparr>, st_numKeys = 1, st_cmdWatchChan = None,
     st_evictionStrategy = NewPrimitiveEvictionStrategy 1, st_ShardID = 0\<rparr>"
  by (simp add: one_key_def put_new_def NewObj_def NewStore_def SetExpiry_def Put_def putHelper_def touch_def
      RegGet_def NewRegMap_def RegPut_def ShouldEvict_def GetKeyCount_def NewPrimitiveEvictionStrategy_def
      targetKeyCount_def i64_def getDefaultPutOptions_def fun_eq_iff)

lemma one_key_victims: "rename_victims (env_at 20) ''a'' ''b'' one_key = {''a''}"
proof -
  have wf: "wf_store {} (touch (env_at 20) 0 one_key)" by (simp add: one_key_def put_new_wf)
  have d: "dom (tbl (touch (env_at 20) 0 one_key)) = {''a''}"
    by (auto simp: one_key_simp RegGet_def split: if_splits)
  have "ShouldEvict one_key = 1"
    by (simp add: one_key_simp ShouldEvict_def GetKeyCount_def NewPrimitiveEvictionStrategy_def targetKeyCount_def)
  moreover have "victim_keys (env_at 20) 1 (touch (env_at 20) 0 one_key) = {''a''}"
  proof -
    note v = victims_spec [OF env_at_range [of 20] wf, where n = 1]
    let ?vs = "select_victims (nat 1) (eviction_items (env_at 20) (touch (env_at 20) 0 one_key))"
    have "length ?vs = Suc 0" unfolding v(2) [OF zero_less_one] d by simp
    then obtain x where x: "?vs = [x]" by (auto simp: length_Suc_conv)
    with v(3) [OF zero_less_one] have "ei_key x = ''a''" unfolding d by simp
    then show ?thesis using x by (simp add: victim_keys_def)
  qed
  ultimately show ?thesis by (simp add: rename_victims_def one_key_simp RegGet_def)
qed

theorem rename_refines_witness:
  "GetKeyCount (snd (Rename (env_at 20) ''a'' ''b'' one_key)) = 0 \<and>
   db (snd (Rename (env_at 20) ''a'' ''b'' one_key)) = [''b'' \<mapsto> (ObjTypeInt, VInt 1, None)]"
proof -
  have wf: "wf_store {} one_key" by (simp add: one_key_def put_new_wf)
  have v: "view (env_at 20) one_key ''a'' = Some (ObjTypeInt, VInt 1, Some 100)"
    by (simp add: one_key_simp view_eq hasExpired_def RegGet_def entry_def)
  have o: "db one_key k = (if k = ''a'' then Some (ObjTypeInt, VInt 1, Some 100) else None)" for k
    by (simp add: one_key_simp db_eq RegGet_def entry_def)
  note r = rename_refines [OF wf v _ refl surjective_pairing, of "''b''"]
  have d: "db (snd (Rename (env_at 20) ''a'' ''b'' one_key)) = [''b'' \<mapsto> (ObjTypeInt, VInt 1, None)]"
    using r by (auto simp: one_key_victims o fun_eq_iff)
  with r show ?thesis by (simp add: one_key_victims)
qed

lemma put_new_RegLen:
  assumes "ShouldEvict s \<le> 0 \<or> tbl s k \<noteq> None"
  shows "RegLen (st_store (put_new e k v d ty o' s)) = RegLen (st_store s) + 1"
proof -
  obtain p s' where n: "NewObj e v d ty s = (p, s')" by (cases "NewObj e v d ty s")
  note np = NewObj_props [OF n]
  have "ShouldEvict s' = ShouldEvict s" by (simp add: ShouldEvict_def GetKeyCount_def np(7,8))
  with assms np(4) show ?thesis
    by (cases "tbl s k") (auto simp: put_new_def n Put_def putHelper_fields put_prepare_absent
        Let_def put_prepare_def split: option.split)
qed

text \<open>\<open>GetDBSize\<close> counts writes, not keys: after \<open>n\<close> writes of one key it answers \<open>n\<close>, though
  the store holds a single key.\<close>

lemma dbsize_counts_writes:
  fixes s0 :: "'z Store"
  assumes "0 < n" and "n < 2 ^ 64" and "0 < maxKeys"
    and "s0 = NewStore ch (Some (NewPrimitiveEvictionStrategy maxKeys)) sid"
  shows "GetDBSize ((put_new e k v d ty o' ^^ n) s0) = int n \<and>
    card (dom (db ((put_new e k v d ty o' ^^ n) s0))) = 1"
proof -
  let ?p = "put_new e k v d ty o'"
  have "wf_store {} ((?p ^^ n) s0) \<and> RegLen (st_store ((?p ^^ n) s0)) = int n \<and>
    dom (db ((?p ^^ n) s0)) = (if n = 0 then {} else {k}) \<and>
    pes_maxKeys (st_evictionStrategy ((?p ^^ n) s0)) = maxKeys" for n
  proof (induction n)
    case 0
    show ?case by (simp add: assms(4)) (simp add: NewStore_def NewPrimitiveEvictionStrategy_def)
  next
    case (Suc n)
    let ?s = "(?p ^^ n) s0"
    have wf: "wf_store {} ?s" using Suc by blast
    have "n \<noteq> 0 \<Longrightarrow> tbl ?s k \<noteq> None"
      using Suc by (auto simp: db_eq dom_def split: option.splits if_splits)
    moreover have "n = 0 \<Longrightarrow> ShouldEvict ?s \<le> 0"
      using assms(3) by (simp add: assms(4)) (simp add: ShouldEvict_def GetKeyCount_def NewStore_def
          NewPrimitiveEvictionStrategy_def)
    ultimately have "ShouldEvict ?s \<le> 0 \<or> tbl ?s k \<noteq> None" by blast
    note l = put_new_RegLen [OF this, of e v d ty o']
    have "dom (db (?p ?s)) = {k}"
      unfolding put_new_db [OF wf] using Suc by (auto simp: dom_def split: if_splits)
    with Suc l wf show ?case by (simp add: put_new_wf)
  qed
  from this [of n] assms(1,2) show ?thesis by (simp add: GetDBSize_def)
qed

theorem dbsize_counts_writes_witness:
  "GetDBSize ((put_new (env_at 1) ''a'' (VInt 1) (-1) ObjTypeInt getDefaultPutOptions ^^ 3)
     (NewStore None (Some (NewPrimitiveEvictionStrategy 8)) 0 :: unit Store)) = 3"
  using dbsize_counts_writes [where n = 3 and maxKeys = 8 and ch = None and sid = 0 and e = "env_at 1"
      and k = "''a''" and v = "VInt 1" and d = "-1" and ty = ObjTypeInt and o' = getDefaultPutOptions
      and ?s0.0 = "NewStore None (Some (NewPrimitiveEvictionStrategy 8)) 0 :: unit Store"]
  by simp

lemma match_keys_total:
  assumes "\<And>k. m k = Some (f k)"
  shows "match_keys m ks = (filter f ks, False)"
  by (induction ks) (simp_all add: assms)

text \<open>Key listing never panics on a well-formed store and, when the pattern is well-formed,
  returns every stored key the matcher accepts exactly once, expired keys that have not been
  collected included.\<close>

lemma keys_lists_matches:
  assumes "wf_store {} s" and "range_ok e" and "\<And>k. env_pathMatch e p k = Some (f k)"
  shows "\<exists>ks. Keys e p s = Ret (ks, None) \<and> distinct ks \<and> set ks = {k \<in> dom (db s). f k}"
proof -
  have r: "distinct (env_range e (reg_M (st_store s)))" "set (env_range e (reg_M (st_store s))) = dom (tbl s)"
    using range_ok_tbl [OF assms(2,1)] by simp_all
  let ?ks = "map fst (RegAll (env_range e (reg_M (st_store s))) (st_store s))"
  have "0 \<le> RegLen (st_store s)" using assms(1) by (simp add: wf_store_def)
  then have "Keys e p s = Ret (filter f ?ks, None)"
    by (simp add: Keys_def match_keys_total [OF assms(3)])
  moreover have "distinct ?ks" by (rule reg.all_distinct [OF r(1)])
  moreover have "set ?ks = dom (db s)"
    unfolding reg.keys_all [OF r(2)] by (auto simp: db_eq split: option.splits)
  ultimately show ?thesis by auto
qed

lemma keys_lists_matches_example:
  "\<exists>ks. Keys (env_at 30) ''a'' two_keys = Ret (ks, None) \<and> set ks = {''a''}"
proof -
  have "dom (db two_keys) = {''a'', ''b''}"
    by (auto simp: two_keys_simp db_eq RegGet_def split: option.splits if_splits)
  then have s: "{k \<in> dom (db two_keys). ''a'' = k} = {''a''}" by auto
  from keys_lists_matches [OF two_keys_wf env_at_range [of 30], where p = "''a''" and f = "\<lambda>k. ''a'' = k"]
  show ?thesis unfolding s by auto
qed

end
