(* ===== verification/CmdStringProps.thy ===== *)
theory CmdStringProps
  imports CmdString CmdInv StoreTheorems
begin

text \<open>
  The commands on plain values keep the invariant and panic only where a parameter lacks its
  value; \<^verbatim>\<open>SET\<close>, \<^verbatim>\<open>GET\<close> and the counters against the abstract store.
\<close>

section \<open>Panics and the invariant\<close>

fun dangling :: "string list \<Rightarrow> bool" where
  "dangling [] \<longleftrightarrow> False"
| "dangling (a # args) \<longleftrightarrow>
     (if takes_value (ToUpper a) then
        (case args of [] \<Rightarrow> True | v # rest \<Rightarrow> dangling rest)
      else dangling args)"

lemma parse_loop_Panic: "parse_loop args ps np = Panic \<longleftrightarrow> dangling args"
proof (induction args ps np rule: parse_loop.induct)
  case (2 a args ps np)
  show ?case
  proof (cases "takes_value (ToUpper a)")
    case True
    show ?thesis by (cases args) (use True 2(1) in \<open>simp_all add: fun_upd_def\<close>)
  next
    case False
    then show ?thesis using 2(2,3) by (simp add: fun_upd_def takes_value_def)
  qed
qed simp

lemma getex_params_Panic: "getex_params args ps = Panic \<longleftrightarrow> dangling args"
proof (induction args ps rule: getex_params.induct)
  case (2 a args ps)
  show ?case
  proof (cases "takes_value (ToUpper a)")
    case True
    show ?thesis by (cases args) (use True 2(1) in \<open>simp_all add: fun_upd_def\<close>)
  next
    case False
    then show ?thesis using 2(2,3) by (simp add: fun_upd_def takes_value_def)
  qed
qed simp

lemma evalGET_safe:
  assumes i: "cmd_inv zok mk s"
  shows "safe (cmd_inv zok mk) (evalGET e c s)"
  by (rule lookup_cases [OF i, where e = e and k = "C_Args c ! 0" and tch = True])
    (auto simp: i evalGET_def Get_def newGETRes_def load_def intro: value_reply_safe)

lemma put_created_inv:
  assumes "cmd_inv zok mk s" and "range_ok e" and "CreateObjectFromValue e v d s = (p, s')"
  shows "cmd_inv zok mk (Put e k p o' s')"
  using put_new_inv [OF assms(1,2) string_value_ok [where e = e and t = v], where k = k and d = d and o' = o']
    assms(3) [unfolded CreateObject_eq]
  by (simp add: put_new_def)

lemma set_store_inv:
  assumes "cmd_inv zok mk s" and "range_ok e"
  shows "cmd_inv zok mk (set_store e key value ps d s)"
proof -
  obtain p s1 where g: "Get e key s = (p, s1)" by (cases "Get e key s")
  then have "cmd_inv zok mk s1" using getHelper_inv [OF assms(1), of e key True] by (simp add: Get_def)
  from put_created_inv [OF this assms(2)] this show ?thesis
    by (auto simp: set_store_def g split: prod.split)
qed

lemma evalSET_keeps:
  assumes "cmd_inv zok mk s" and "range_ok e"
  shows "keeps (cmd_inv zok mk) (evalSET e c s)"
    and "evalSET e c s = Panic \<longleftrightarrow> 2 \<le> length (C_Args c) \<and> dangling (drop 2 (C_Args c))"
proof -
  note p = parse_loop_Panic [of "drop 2 (C_Args c)" Map.empty "[]", folded parseParams_def]
  show "keeps (cmd_inv zok mk) (evalSET e c s)"
  proof (cases "parseParams (drop 2 (C_Args c))")
    case (Ret pn)
    obtain ps np where "pn = (ps, np)" by (cases pn)
    with Ret set_store_inv [OF assms] assms(1) show ?thesis
      by (simp add: evalSET_def split: sum.split)
  qed (simp add: evalSET_def assms(1))
  show "evalSET e c s = Panic \<longleftrightarrow> 2 \<le> length (C_Args c) \<and> dangling (drop 2 (C_Args c))"
  proof (cases "parseParams (drop 2 (C_Args c))")
    case (Ret pn)
    obtain ps np where "pn = (ps, np)" by (cases pn)
    with Ret p show ?thesis by (auto simp add: evalSET_def split: sum.split)
  qed (use p in \<open>auto simp: evalSET_def\<close>)
qed

lemma evalGETSET_safe:
  assumes "cmd_inv zok mk s" and "range_ok e"
  shows "safe (cmd_inv zok mk) (evalGETSET e c s)"
proof -
  let ?k = "C_Args c ! 0" and ?v = "C_Args c ! 1"
  from assms(1) show ?thesis
  proof (cases rule: lookup_cases [where e = e and k = ?k and tch = True])
    case (none s1)
    obtain q s2 where c: "CreateObjectFromValue e ?v (-1) s1 = (q, s2)" by (cases "CreateObjectFromValue e ?v (-1) s1")
    from put_created_inv [OF none(2) assms(2) c] none(1) c assms(1) show ?thesis
      by (simp add: evalGETSET_def Get_def)
  next
    case (some p s1)
    obtain q s2 where c: "CreateObjectFromValue e ?v (-1) s1 = (q, s2)" by (cases "CreateObjectFromValue e ?v (-1) s1")
    have np: "NewObj e (string_value e ?v) (-1) (string_type e ?v) s1 = (q, s2)"
      using c unfolding CreateObject_eq .
    have "p \<noteq> q" using wf_alloc [OF cmd_inv_wf [OF some(2)] some(3)] NewObj_props(1) [OF np] by simp
    then have "value_ok zok (obj_Type (st_heap (Put e ?k q o' s2) p)) (obj_Value (st_heap (Put e ?k q o' s2) p))" for o'
      using some(6) NewObj_props(5) [OF np] by (simp add: Put_def)
    with put_created_inv [OF some(2) assms(2) c] some(1) c assms(1) show ?thesis
      by (auto simp: evalGETSET_def Get_def newGETSETRes_def load_def Let_def intro: value_reply_safe)
  qed
qed

lemma evalGETDEL_safe:
  assumes "cmd_inv zok mk s"
  shows "safe (cmd_inv zok mk) (evalGETDEL e c s)"
  using assms
proof (cases rule: lookup_cases [where e = e and k = "C_Args c ! 0" and tch = False])
  case (none s1)
  then show ?thesis using assms by (simp add: evalGETDEL_def GetNoTouch_def)
next
  case (some p s1)
  let ?s2 = "snd (deleteKey (C_Args c ! 0) (Some p) cmdDel s1)"
  have i: "cmd_inv zok mk ?s2"
    using Del_inv [OF some(2), of cmdDel "C_Args c ! 0"] some(3) by (simp add: Del_cases)
  show ?thesis
    using assms some(1,3) i some(6)
    by (auto simp: evalGETDEL_def GetNoTouch_def GetDel_def Let_def newGETDELRes_def load_def intro: value_reply_safe)
qed

lemma getex_reply_safe:
  assumes "cmd_inv zok mk s"
  shows "safe (cmd_inv zok mk) (getex_reply e k ps d s)"
  using assms
proof (cases rule: lookup_cases [where e = e and k = k and tch = True])
  case (some p s1)
  note ip = in_place_inv [OF some(2,3,6)]
  show ?thesis
    using some ip by (auto simp: getex_reply_def Get_def newGETEXRes_def load_def SetExpiry_Unix Let_def
        intro!: value_reply_safe)
qed (simp add: getex_reply_def Get_def)

lemma evalGETEX_keeps:
  assumes "cmd_inv zok mk s"
  shows "keeps (cmd_inv zok mk) (evalGETEX e c s)"
    and "evalGETEX e c s = Panic \<longleftrightarrow> C_Args c \<noteq> [] \<and> dangling (drop 1 (C_Args c))"
proof -
  note p = getex_params_Panic [of "drop 1 (C_Args c)" Map.empty]
  note r = getex_reply_safe [OF assms]
  have n: "getex_reply e k ps d s \<noteq> Panic" for k ps d using r [of e k ps d] by auto
  show "keeps (cmd_inv zok mk) (evalGETEX e c s)"
    using r assms by (cases "getex_params (drop 1 (C_Args c)) Map.empty")
      (auto simp: evalGETEX_def intro!: safe_keeps split: sum.split)
  show "evalGETEX e c s = Panic \<longleftrightarrow> C_Args c \<noteq> [] \<and> dangling (drop 1 (C_Args c))"
    using p n by (cases "getex_params (drop 1 (C_Args c)) Map.empty")
      (auto simp: evalGETEX_def split: sum.split)
qed

lemma doIncr_inv:
  assumes "cmd_inv zok mk s" and "range_ok e" and "in_i64 delta"
  shows "cmd_inv zok mk (snd (doIncr e c delta s))"
  using assms(1)
proof (cases rule: lookup_cases [where e = e and k = "C_Args c ! 0" and tch = True])
  case (none s1)
  obtain q s2 where n: "NewObj e (VInt delta) (-1) ObjTypeInt s1 = (q, s2)"
    by (cases "NewObj e (VInt delta :: 'a Value) (-1) ObjTypeInt s1")
  have "cmd_inv zok mk (put_new e (C_Args c ! 0) (VInt delta) (-1) ObjTypeInt getDefaultPutOptions s1)"
    using none(2) assms(2,3) by (intro put_new_inv) auto
  with none(1) n show ?thesis by (simp add: doIncr_def Get_def put_new_def)
next
  case (some p s1)
  note ip = in_place_inv(4) [OF some(2,3,6)]
  show ?thesis using some(1,2) ip by (auto simp: doIncr_def Get_def Let_def)
qed

lemma counters_safe:
  assumes "cmd_inv zok mk s" and "range_ok e"
  shows "safe (cmd_inv zok mk) (evalINCR e c s)" and "safe (cmd_inv zok mk) (evalINCRBY e c s)"
    and "safe (cmd_inv zok mk) (evalDECR e c s)" and "safe (cmd_inv zok mk) (evalDECRBY e c s)"
proof -
  have d: "in_i64 1" "in_i64 (-1)" by (simp_all add: in_i64_def)
  note i = doIncr_inv [OF assms]
  show "safe (cmd_inv zok mk) (evalINCR e c s)"
    using i [OF d(1), where c = c] assms(1) by (auto simp: evalINCR_def split: prod.split sum.split)
  show "safe (cmd_inv zok mk) (evalDECR e c s)"
    using i [OF d(2), where c = c] assms(1) by (auto simp: evalDECR_def split: prod.split sum.split)
  show "safe (cmd_inv zok mk) (evalINCRBY e c s)"
    using i [OF ParseInt_in_range, where c = c] assms(1)
    by (auto simp: evalINCRBY_def split: prod.split sum.split option.split) (metis snd_conv)+
  show "safe (cmd_inv zok mk) (evalDECRBY e c s)"
    using i [OF i64_in_range, where c = c] assms(1)
    by (auto simp: evalDECRBY_def split: prod.split sum.split option.split) (metis snd_conv)+
qed

section \<open>What the clients see\<close>

text \<open>The answer of the value commands for what the abstract store holds.\<close>

fun wire_value :: "env \<Rightarrow> ObjectType \<Rightarrow> 'z Value \<Rightarrow> dice_error + string" where
  "wire_value e ObjTypeInt (VInt i) = Inr (FormatInt i)"
| "wire_value e ObjTypeString (VString t) = Inr t"
| "wire_value e ObjTypeByteArray (VBytes b) = Inr b"
| "wire_value e ObjTypeHLL (VBytes b) = Inr b"
| "wire_value e ObjTypeFloat (VFloat f) = Inr (env_FormatFloat e f)"
| "wire_value e _ _ = Inl ErrUnknownObjectType"

definition value_answer :: "(string \<Rightarrow> Response) \<Rightarrow> env \<Rightarrow> 'z entry option \<Rightarrow> Result" where
  "value_answer mk e x =
     (case x of None \<Rightarrow> ok_res (mk '''')
      | Some (ty, v, _) \<Rightarrow> (case wire_value e ty v of Inl err \<Rightarrow> err_res err | Inr t \<Rightarrow> ok_res (mk t)))"

definition canonical :: "env \<Rightarrow> string \<Rightarrow> string" where
  "canonical e t =
     (case ParseInt t of Some i \<Rightarrow> FormatInt i
      | None \<Rightarrow> (case env_ParseFloat e t of Some f \<Rightarrow> env_FormatFloat e f | None \<Rightarrow> t))"

lemma wire_string [simp]: "wire_value e (string_type e t) (string_value e t) = Inr (canonical e t)"
  by (simp add: string_type_def string_value_def canonical_def split: option.split)

lemma value_res_answer:
  assumes "value_ok zok (obj_Type ob) (obj_Value ob)"
  shows "value_res mk e (Some ob) = Ret (value_answer mk e (Some (obj_Type ob, obj_Value ob, x)))"
  using assms
  by (rule value_okE) (auto simp: value_res_def getWireValueFromObj_def value_answer_def)

lemma evalGET_spec:
  assumes i: "cmd_inv zok mk s" and c: "C_Args c = [k]"
  shows "\<exists>s'. evalGET e c s = Ret ((Some (value_answer GETRes e (view e s k)), None), s') \<and>
    view e s' = view e s \<and> cmd_inv zok mk s'"
  using i
proof (cases rule: lookup_cases [where e = e and k = k and tch = True])
  case (none s1)
  have "view e s1 = view e s"
    using getHelper_view [OF cmd_inv_wf [OF i], of e k True] none(1) by simp
  with none c show ?thesis
    by (auto simp: evalGET_def Get_def newGETRes_def load_def value_answer_def)
next
  case (some p s1)
  have "view e s1 = view e s" by (simp add: view_def some(5))
  with some c value_res_answer [OF some(6), where x = "exps s1 p" and mk = GETRes and e = e] show ?thesis
    by (auto simp: evalGET_def Get_def newGETRes_def load_def)
qed

section \<open>SET and GET\<close>

definition set_blocked :: "params \<Rightarrow> 'z entry option \<Rightarrow> bool" where
  "set_blocked ps x \<longleftrightarrow> (given ps ''XX'' \<and> x = None) \<or> (given ps ''NX'' \<and> x \<noteq> None)"

lemma set_store_spec:
  fixes s :: "'z Store" and e :: env
  assumes i: "cmd_inv zok mk s" and s': "s' = set_store e key val ps d s"
  shows "if set_blocked ps (view e s key) then view e s' = view e s
    else db s' = (\<lambda>k. if k = key then Some (string_type e val, string_value e val,
        put_expiry (getDefaultPutOptions\<lparr>KeepTTL := given ps ''KEEPTTL''\<rparr>) (old_expiry (view e s key)) (new_expiry e d))
      else if k \<in> put_victims e key (snd (Get e key s)) then None else db s k)"
  using i
proof (cases rule: lookup_cases [where e = e and k = key and tch = True])
  case (none s1)
  have v: "view e s1 = view e s"
    using getHelper_view [OF cmd_inv_wf [OF i], of e key True] none(1) by simp
  have k: "db s1 key = None" "old_expiry (view e s key) = None" using none(3,4) by (simp_all add: old_expiry_def)
  let ?o = "getDefaultPutOptions\<lparr>KeepTTL := given ps ''KEEPTTL''\<rparr>"
  have "s' = (if given ps ''XX'' then s1 else put_new e key (string_value e val) d (string_type e val) ?o s1)"
    using none(1) by (simp add: s' set_store_def Get_def put_new_def CreateObject_eq)
  moreover note put_new_db [OF cmd_inv_wf [OF none(2)], where e = e and k = key and v = "string_value e val" and d = d
      and ty = "string_type e val" and o' = ?o]
  ultimately show ?thesis
    using none(1,3,4) v k by (auto simp: set_blocked_def Get_def fun_eq_iff old_expiry_def)
next
  case (some p s1)
  have v: "view e s1 = view e s" by (simp add: view_def some(5))
  have "db s1 key = Some (entry s1 p)" using some(3) by (simp add: db_eq)
  then have k: "old_expiry (db s1 key) = old_expiry (view e s key)"
    using some(4) by (simp add: old_expiry_def entry_def)
  let ?o = "getDefaultPutOptions\<lparr>KeepTTL := given ps ''KEEPTTL''\<rparr>"
  have "s' = (if given ps ''NX'' then s1 else put_new e key (string_value e val) d (string_type e val) ?o s1)"
    using some(1) by (simp add: s' set_store_def Get_def put_new_def CreateObject_eq)
  moreover note put_new_db [OF cmd_inv_wf [OF some(2)], where e = e and k = key and v = "string_value e val" and d = d
      and ty = "string_type e val" and o' = ?o]
  ultimately show ?thesis
    using some(1,4,5) v k by (auto simp: set_blocked_def Get_def fun_eq_iff)
qed

text \<open>C9. A \<^verbatim>\<open>SET\<close> whose parameters parse and do not conflict answers OK. With an unmet NX or XX
  nothing visible changes; otherwise the key holds the value under its native type, with the new
  expiry time or, under KEEPTTL, the old one, and all other keys but the evicted ones are as before.\<close>

theorem set_refines:
  fixes s :: "'z Store"
  assumes "cmd_inv zok mk s" and "C_Args c = key # val # opts" and "parseParams opts = Ret (ps, [])"
    and "\<not> set_conflict ps" and "exDuration e ''SET'' ps = Inr d"
  shows "\<exists>s'. evalSET e c s = Ret ((Some SETResOKRes, None), s') \<and>
    (if set_blocked ps (view e s key) then view e s' = view e s
     else db s' = (\<lambda>k. if k = key then Some (string_type e val, string_value e val,
         put_expiry (getDefaultPutOptions\<lparr>KeepTTL := given ps ''KEEPTTL''\<rparr>) (old_expiry (view e s key)) (new_expiry e d))
       else if k \<in> put_victims e key (snd (Get e key s)) then None else db s k))"
proof -
  have "evalSET e c s = Ret ((Some SETResOKRes, None), set_store e key val ps d s)"
    using assms(2-5) by (simp add: evalSET_def)
  with set_store_spec [OF assms(1) refl, of ps e key val d] show ?thesis by blast
qed

lemma exDuration_bounds:
  assumes "exDuration e cmd ps = Inr d"
  shows "d = -1 \<or> (0 < d \<and> d < MaxEXDurationSec * 1000)"
proof -
  define ok where "ok d \<longleftrightarrow> d = -1 \<or> (0 < d \<and> d < MaxEXDurationSec * 1000)" for d
  have small: "in_i64 (sec * 1000)" if "0 < sec" "sec < MaxEXDurationSec" for sec
    using that by (simp add: in_i64_def MaxEXDurationSec_def)
  have s1: "ok d1 \<Longrightarrow> dur_EX cmd ps d1 = Inr d2 \<Longrightarrow> ok d2" for d1 d2
    using small by (auto simp: dur_EX_def ok_def split: if_splits option.splits)
  have s2: "ok d1 \<Longrightarrow> dur_PX cmd ps d1 = Inr d2 \<Longrightarrow> ok d2" for d1 d2
    by (auto simp: dur_PX_def ok_def MaxEXDurationSec_def split: if_splits option.splits)
  have s3: "ok d1 \<Longrightarrow> dur_EXAT e cmd ps d1 = Inr d2 \<Longrightarrow> ok d2" for d1 d2
    using small by (auto simp: dur_EXAT_def ok_def Let_def split: if_splits option.splits)
  have s4: "ok d1 \<Longrightarrow> dur_PXAT e cmd ps d1 = Inr d2 \<Longrightarrow> ok d2" for d1 d2
    by (auto simp: dur_PXAT_def ok_def Let_def split: if_splits option.splits)
  from assms obtain d1 where 1: "dur_EX cmd ps (-1) = Inr d1"
    by (cases "dur_EX cmd ps (-1)") (auto simp: exDuration_def)
  with assms obtain d2 where 2: "dur_PX cmd ps d1 = Inr d2"
    by (cases "dur_PX cmd ps d1") (auto simp: exDuration_def)
  with assms 1 obtain d3 where 3: "dur_EXAT e cmd ps d2 = Inr d3"
    by (cases "dur_EXAT e cmd ps d2") (auto simp: exDuration_def)
  with assms 1 2 have 4: "dur_PXAT e cmd ps d3 = Inr d" by (simp add: exDuration_def)
  have "ok (-1)" by (simp add: ok_def)
  then have "ok d" using s4 [OF s3 [OF s2 [OF s1 [OF _ 1] 2] 3] 4] by blast
  then show ?thesis by (simp add: ok_def)
qed

lemma upper_EX: "ToUpper ''EX'' = ''EX''"
  by code_simp

theorem set_refines_witness:
  "\<exists>s'. evalSET (env_at 5) \<lparr>C_Cmd = ''SET'', C_Args = [''k'', ''7'', ''XX''], C_IsReplay = False, C_ClientID = [],
       C_Mode = [],
       C_Meta = None\<rparr> (NewStore None (Some (NewPrimitiveEvictionStrategy 9)) 0 :: unit Store) =
     Ret ((Some SETResOKRes, None), s') \<and> view (env_at 5) s' = Map.empty"
proof -
  have u: "ToUpper ''XX'' = ''XX''" by code_simp
  have p: "parseParams [''XX''] = Ret ([''XX'' \<mapsto> ''true''], [])"
    unfolding parseParams_def parse_loop.simps u by (simp add: takes_value_def is_flag_def)
  have x: "\<not> set_conflict [''XX'' \<mapsto> ''true'']" "exDuration (env_at 5) ''SET'' [''XX'' \<mapsto> ''true''] = Inr (-1)"
    by (simp_all add: set_conflict_def expiry_conflict_def any_expiry_def given_def param_def exDuration_def
        dur_EX_def dur_PX_def dur_EXAT_def dur_PXAT_def)
  let ?s = "NewStore None (Some (NewPrimitiveEvictionStrategy 9)) 0 :: unit Store"
  have v: "view (env_at 5) ?s = Map.empty" by (simp add: view_def live_def fun_eq_iff)
  show ?thesis
    using set_refines [where s = ?s and zok = "\<lambda>_. True" and mk = 9 and key = "''k''" and val = "''7''"
        and c = "\<lparr>C_Cmd = ''SET'', C_Args = [''k'', ''7'', ''XX''], C_IsReplay = False, C_ClientID = [], C_Mode = [],
       C_Meta = None\<rparr>",
        OF NewStore_inv _ p x]
    by (simp add: v set_blocked_def given_def param_def)
qed

lemma canonical_now [simp]: "canonical (e\<lparr>env_now := t\<rparr>) v = canonical e v"
  by (simp add: canonical_def split: option.split)

lemma string_now [simp]:
  "string_type (e\<lparr>env_now := t\<rparr>) v = string_type e v" "string_value (e\<lparr>env_now := t\<rparr>) v = string_value e v"
  by (simp_all add: string_type_def string_value_def split: option.split)

text \<open>After \<^verbatim>\<open>SET key val EX n\<close>, a \<^verbatim>\<open>GET\<close> of the key answers the value in its canonical form at
  every time before the deadline of \<open>n\<close> seconds and the empty string from the deadline on.\<close>

lemma set_ex_then_get:
  fixes s :: "'z Store"
  assumes i: "cmd_inv zok mk s" and r: "range_ok e" and now: "0 \<le> env_now e" "env_now e < 2 ^ 62"
    and c: "C_Args c = [key, val, ''EX'', FormatInt n]" and n: "0 < n" "n < MaxEXDurationSec"
    and g: "C_Args g = [key]"
  shows "\<exists>s' s''. evalSET e c s = Ret ((Some SETResOKRes, None), s') \<and>
    evalGET (e\<lparr>env_now := t\<rparr>) g s' =
      Ret ((Some (ok_res (GETRes (if t < env_now e + 1000 * n then canonical e val else ''''))), None), s'')"
proof -
  let ?ps = "[''EX'' \<mapsto> FormatInt n]"
  have n64: "in_i64 n" and n1000: "in_i64 (n * 1000)" and sum: "in_i64 (env_now e + n * 1000)"
    using n now by (simp_all add: in_i64_def MaxEXDurationSec_def)
  have fi: "FormatInt n \<noteq> []" using n by (simp add: FormatInt_def)
  have p: "parseParams [''EX'', FormatInt n] = Ret (?ps, [])"
    unfolding parseParams_def parse_loop.simps upper_EX by (simp add: takes_value_def)
  have x: "\<not> set_conflict ?ps" "exDuration e ''SET'' ?ps = Inr (n * 1000)"
    using n n1000 by (simp_all add: set_conflict_def expiry_conflict_def any_expiry_def given_def param_def
        exDuration_def dur_EX_def dur_PX_def dur_EXAT_def dur_PXAT_def ParseInt_FormatInt [OF n64] fi)
  have ev: "evalSET e c s = Ret ((Some SETResOKRes, None), set_store e key val ?ps (n * 1000) s)"
    using c p x by (simp add: evalSET_def)
  let ?s = "set_store e key val ?ps (n * 1000) s"
  have "db ?s key = Some (string_type e val, string_value e val, Some (env_now e + n * 1000))"
    using set_store_spec [OF i refl, of ?ps e key val "n * 1000"] n sum
    by (simp add: set_blocked_def given_def param_def put_expiry_def new_expiry_def getDefaultPutOptions_def
        split: option.split)
  then have v: "view (e\<lparr>env_now := t\<rparr>) ?s key = (if t < env_now e + 1000 * n
      then Some (string_type e val, string_value e val, Some (env_now e + n * 1000)) else None)"
    by (simp add: view_def live_def expired_at_def)
  have w: "wire_value (e\<lparr>env_now := t\<rparr>) (string_type e val) (string_value e val :: 'z Value) = Inr (canonical e val)"
    using wire_string [of "e\<lparr>env_now := t\<rparr>" val, where ?'a = 'z] by simp
  have inv: "cmd_inv zok mk ?s" by (rule set_store_inv [OF i r])
  show ?thesis
    using evalGET_spec [OF inv g, of "e\<lparr>env_now := t\<rparr>"] ev
    unfolding v by (auto simp: value_answer_def w)
qed

definition mk_cmd :: "string \<Rightarrow> string list \<Rightarrow> Cmd" where
  "mk_cmd name args = \<lparr>C_Cmd = name, C_Args = args, C_IsReplay = False, C_ClientID = [], C_Mode = [],
       C_Meta = None\<rparr>"

lemma mk_cmd_args [simp]: "C_Args (mk_cmd name args) = args" "C_Cmd (mk_cmd name args) = name"
  by (simp_all add: mk_cmd_def)

theorem set_ex_then_get_witness:
  "\<exists>s' s''. evalSET (env_at 1000) (mk_cmd ''SET'' [''k'', ''007'', ''EX'', FormatInt 9])
       (NewStore None (Some (NewPrimitiveEvictionStrategy 9)) 0 :: unit Store) = Ret ((Some SETResOKRes, None), s') \<and>
     evalGET ((env_at 1000)\<lparr>env_now := 9999\<rparr>) (mk_cmd ''GET'' [''k'']) s' = Ret ((Some (ok_res (GETRes ''7'')), None), s'')"
proof -
  have "ParseInt ''007'' = Some 7"
    by (simp add: ParseInt_def parse_nat_def is_digit_def digit_val_def of_char_def)
  moreover have "digit_char 7 = CHR ''7''" by code_simp
  then have "FormatInt 7 = ''7''" by (simp add: FormatInt_def nat_digits.simps)
  ultimately have 7: "canonical (env_at 1000) ''007'' = ''7''" by (simp add: canonical_def)
  show ?thesis
    using set_ex_then_get [where s = "NewStore None (Some (NewPrimitiveEvictionStrategy 9)) 0 :: unit Store"
        and zok = "\<lambda>_. True" and mk = 9 and key = "''k''" and val = "''007''" and n = 9 and t = 9999,
        OF NewStore_inv env_at_range [of 1000], where c = "mk_cmd ''SET'' [''k'', ''007'', ''EX'', FormatInt 9]"
        and g = "mk_cmd ''GET'' [''k'']"]
    by (simp add: MaxEXDurationSec_def 7)
qed

section \<open>Counters\<close>

lemma doIncr_spec:
  fixes s :: "'z Store"
  assumes i: "cmd_inv zok mk s" and c: "C_Args c ! 0 = k"
  shows "case view e s k of
      None \<Rightarrow> fst (doIncr e c delta s) = Inr (0, delta) \<and>
        db (snd (doIncr e c delta s)) k = Some (ObjTypeInt, VInt delta, None)
    | Some (ty, v, x) \<Rightarrow>
        (case v of
           VInt n \<Rightarrow> fst (doIncr e c delta s) = Inr (n, i64 (n + delta)) \<and>
             db (snd (doIncr e c delta s)) = (db s)(k \<mapsto> (ObjTypeInt, VInt (i64 (n + delta)), x))
         | _ \<Rightarrow> fst (doIncr e c delta s) = Inl ErrWrongTypeOperation \<and> db (snd (doIncr e c delta s)) = db s)"
  using i
proof (cases rule: lookup_cases [where e = e and k = k and tch = True])
  case (none s1)
  have p: "snd (doIncr e c delta s) = put_new e k (VInt delta) (-1) ObjTypeInt getDefaultPutOptions s1"
    and f: "fst (doIncr e c delta s) = Inr (0, delta)"
    using none(1) c by (simp_all add: doIncr_def Get_def put_new_def split: prod.split)
  have "db s1 k = None" using none(4) by simp
  then show ?thesis
    unfolding p f put_new_db [OF cmd_inv_wf [OF none(2)]] none(3)
    by (simp add: put_expiry_def old_expiry_def new_expiry_def)
next
  case (some p s1)
  note sv = setValue_db [OF cmd_inv_wf [OF some(2)] some(3)]
  from some(6) show ?thesis
    by (rule value_okE) (use some(1,4,5) c sv in \<open>auto simp: doIncr_def Get_def Let_def\<close>)
qed

text \<open>C10. \<^verbatim>\<open>INCRBY\<close>: an absent or expired key starts at the increment without an expiry time; an integer
  is replaced in place by the 64-bit wrapped sum, keeping its expiry time, and the new value is the
  answer; any other type is a type error that changes nothing.\<close>

theorem incrby_refines:
  fixes s :: "'z Store"
  assumes "cmd_inv zok mk s" and "C_Args c = [k, FormatInt delta]" and "in_i64 delta"
  shows "\<exists>s'. case view e s k of
      None \<Rightarrow> evalINCRBY e c s = Ret ((Some (newINCRBYRes delta), None), s') \<and>
        db s' k = Some (ObjTypeInt, VInt delta, None)
    | Some (ty, v, x) \<Rightarrow>
        (case v of
           VInt n \<Rightarrow> evalINCRBY e c s = Ret ((Some (newINCRBYRes (i64 (n + delta))), None), s') \<and>
             db s' = (db s)(k \<mapsto> (ObjTypeInt, VInt (i64 (n + delta)), x))
         | _ \<Rightarrow> evalINCRBY e c s = Ret ((Some INCRBYResNilRes, Some ErrWrongTypeOperation), s') \<and> db s' = db s)"
proof -
  obtain r s' where d: "doIncr e c delta s = (r, s')" by (cases "doIncr e c delta s")
  have c0: "C_Args c ! 0 = k" using assms(2) by simp
  have ev: "evalINCRBY e c s = (case r of
      Inl err \<Rightarrow> reply_err INCRBYResNilRes err s' | Inr (_, new) \<Rightarrow> reply_ok (newINCRBYRes new) s')"
    using assms(2,3) d by (simp add: evalINCRBY_def ParseInt_FormatInt)
  show ?thesis
    by (rule exI [of _ s']) (use doIncr_spec [OF assms(1) c0, of e delta] in
      \<open>auto simp: d ev split: option.splits prod.splits Value.splits\<close>)
qed

theorem incrby_refines_witness:
  "\<exists>s' :: unit Store. evalINCRBY (env_at 30) (mk_cmd ''INCRBY'' [''b'', FormatInt MaxInt64]) two_keys =
     Ret ((Some (newINCRBYRes (MinInt64 + 1)), None), s')"
proof -
  have v: "view (env_at 30) two_keys ''b'' = Some (ObjTypeInt, VInt 2, None)"
    by (simp add: two_keys_simp view_eq hasExpired_def RegGet_def entry_def)
  have inv: "cmd_inv (\<lambda>_. True) 2 two_keys"
    unfolding two_keys_def by (intro put_new_inv NewStore_inv) (simp_all add: in_i64_def)
  have w: "i64 (2 + MaxInt64) = MinInt64 + 1" by (simp add: i64_def)
  show ?thesis
    using incrby_refines [OF inv, where c = "mk_cmd ''INCRBY'' [''b'', FormatInt MaxInt64]" and k = "''b''"
        and delta = MaxInt64 and e = "env_at 30"]
    unfolding v w by (auto simp: in_i64_def i64_def)
qed

end
