(* ===== verification/CmdKeysProps.thy ===== *)
theory CmdKeysProps
  imports CmdKeys CmdStringProps
begin

text \<open>
  The key commands keep the invariant; \<^verbatim>\<open>DEL\<close>, \<^verbatim>\<open>EXISTS\<close>, \<^verbatim>\<open>EXPIRE\<close> and \<^verbatim>\<open>TTL\<close> against the abstract
  store. The counting loops rest on the interface \<open>kv_store\<close>, interpreted here with the commands'
  invariant.
\<close>

interpretation cmdkv: kv_store "cmd_inv zok mk" db "view e" "Del c" "lookup_entry e tch" for zok mk e c tch
proof
  fix s k
  assume i: "cmd_inv zok mk s"
  note wf = cmd_inv_wf [OF i]
  show "cmd_inv zok mk (snd (Del c k s))" by (rule Del_inv [OF i])
  show "db (snd (Del c k s)) = (db s)(k := None)" by (rule Del_db [OF wf])
  show "view e (snd (Del c k s)) = (view e s)(k := None)" by (rule kv.content_del [OF wf])
  show "cmd_inv zok mk (snd (lookup_entry e tch k s))"
    by (simp add: lookup_entry_simps getHelper_inv [OF i])
  show "view e (snd (lookup_entry e tch k s)) = view e s" by (rule kv.content_look [OF wf])
next
  fix s k
  show "fst (Del c k s) = (db s k \<noteq> None)" by (rule kv.del_result)
  show "fst (lookup_entry e tch k s) = view e s k" by (rule kv.look_result)
qed

lemma finite_dom_db: "wf_store P s \<Longrightarrow> finite (dom (db s))"
  by (auto simp: wf_store_def db_eq dom_def split: option.splits)

section \<open>DEL and EXISTS\<close>

lemma evalDEL_spec:
  assumes i: "cmd_inv zok mk s" and c: "C_Args c \<noteq> []"
  shows "\<exists>s'. evalDEL e c s = Ret ((Some (newDELRes (int (card (set (C_Args c) \<inter> dom (db s))))), None), s') \<and>
    cmd_inv zok mk s' \<and> db s' = (\<lambda>k. if k \<in> set (C_Args c) then None else db s k)"
proof -
  obtain n s' where f: "fold (\<lambda>key (n, s). let (ok, s') = Del cmdDel key s in (if ok then n + 1 else n, s'))
      (C_Args c) (0 :: int, s) = (n, s')" by force
  from cmdkv.del_loop [OF f i finite_dom_db [OF cmd_inv_wf [OF i]]] f c
  show ?thesis by (simp add: evalDEL_def Suc_le_eq)
qed

lemma exists_loop:
  "(\<lambda>key (n :: int, s). let (obj, s') = GetNoTouch e key s in (if obj \<noteq> None then n + 1 else n, s')) =
   (\<lambda>key (n, s). let (r, s') = lookup_entry e False key s in (if r \<noteq> None then n + 1 else n, s'))"
  by (intro ext) (simp add: GetNoTouch_def lookup_entry_def case_prod_unfold Let_def del: not_None_eq)

lemma evalEXISTS_spec:
  assumes i: "cmd_inv zok mk s" and c: "C_Args c \<noteq> []"
  shows "\<exists>s'. evalEXISTS e c s =
      Ret ((Some (newEXISTSRes (int (length (filter (\<lambda>k. view e s k \<noteq> None) (C_Args c))))), None), s') \<and>
    cmd_inv zok mk s' \<and> view e s' = view e s"
proof -
  obtain n s' where f: "fold (\<lambda>key (n, s). let (r, s') = lookup_entry e False key s in (if r \<noteq> None then n + 1 else n, s'))
      (C_Args c) (0 :: int, s) = (n, s')" by force
  from cmdkv.look_loop [OF f i] f c
  show ?thesis unfolding evalEXISTS_def exists_loop by (simp add: Suc_le_eq del: not_None_eq)
qed

text \<open>\<^verbatim>\<open>EXISTS\<close> answers how many of its arguments, repetitions counted, are live keys, without
  changing what clients see; \<^verbatim>\<open>DEL\<close> removes its arguments and answers how many distinct keys were
  stored, expired but uncollected ones included.\<close>

lemma del_exists_counts:
  assumes "cmd_inv zok mk s" and "C_Args c \<noteq> []"
  shows "(\<exists>s'. evalEXISTS e c s =
        Ret ((Some (newEXISTSRes (int (length (filter (\<lambda>k. view e s k \<noteq> None) (C_Args c))))), None), s') \<and>
      view e s' = view e s) \<and>
    (\<exists>s'. evalDEL e c s = Ret ((Some (newDELRes (int (card (set (C_Args c) \<inter> dom (db s))))), None), s') \<and>
      db s' = (\<lambda>k. if k \<in> set (C_Args c) then None else db s k))"
  using evalEXISTS_spec [OF assms, of e] evalDEL_spec [OF assms, of e] by blast

lemma two_keys_inv: "cmd_inv (\<lambda>_. True) 2 two_keys"
  unfolding two_keys_def by (intro put_new_inv NewStore_inv) (simp_all add: in_i64_def)

lemma del_exists_counts_example:
  "\<exists>s1 s2. evalEXISTS (env_at 30) (mk_cmd ''EXISTS'' [''a'', ''b'', ''b'']) two_keys =
      Ret ((Some (newEXISTSRes 2), None), s1) \<and>
    evalDEL (env_at 30) (mk_cmd ''DEL'' [''a'', ''b'', ''b'']) two_keys = Ret ((Some (newDELRes 2), None), s2)"
proof -
  have v: "view (env_at 30) two_keys k = (if k = ''b'' then Some (ObjTypeInt, VInt 2, None) else None)" for k
    by (simp add: two_keys_simp view_eq hasExpired_def RegGet_def entry_def)
  have d: "dom (db two_keys) = {''a'', ''b''}"
    by (auto simp: two_keys_simp db_eq RegGet_def split: option.splits if_splits)
  show ?thesis
    using del_exists_counts [OF two_keys_inv, where e = "env_at 30" and c = "mk_cmd ''DEL'' [''a'', ''b'', ''b'']"]
    by (auto simp: v d evalEXISTS_def)
qed

section \<open>Expiry commands\<close>

lemma evalEXPIRE_safe:
  assumes i: "cmd_inv zok mk s"
  shows "safe (cmd_inv zok mk) (evalEXPIRE e c s)"
proof -
  have body: "safe (cmd_inv zok mk) (case Get e k s of
      (None, s1) \<Rightarrow> reply_ok EXPIREResNotSetRes s1
    | (Some _, s1) \<Rightarrow> (case EvaluateAndSetExpiry e subs t k s1 of
        (Inl err, s2) \<Rightarrow> reply_err EXPIREResNilRes err s2
      | (Inr isSet, s2) \<Rightarrow> reply_ok (if isSet then EXPIREResSetRes else EXPIREResNotSetRes) s2))" for k subs t
    using i
  proof (cases rule: lookup_cases [where e = e and k = k and tch = True])
    case (some p s1)
    with expire_inv [OF some(2), of e subs t k] show ?thesis
      by (auto simp: Get_def split: prod.split sum.split)
  qed (simp add: Get_def)
  show ?thesis
    using i body by (simp add: evalEXPIRE_def Let_def split: option.split)
qed

lemma evalEXPIREAT_safe:
  assumes i: "cmd_inv zok mk s"
  shows "safe (cmd_inv zok mk) (evalEXPIREAT e c s)"
  using i expire_inv [OF i, of e]
  by (auto simp: evalEXPIREAT_def Let_def split: prod.split sum.split option.split) (metis snd_conv)+

lemma evalEXPIRETIME_safe:
  assumes i: "cmd_inv zok mk s" and c: "C_Args c \<noteq> []"
  shows "safe (cmd_inv zok mk) (evalEXPIRETIME e c s)"
  by (rule lookup_cases [OF i, where e = e and k = "C_Args c ! 0" and tch = True])
    (auto simp: c evalEXPIRETIME_def Get_def split: option.split)

lemma evalTTL_safe:
  assumes i: "cmd_inv zok mk s"
  shows "safe (cmd_inv zok mk) (evalTTL e c s)"
  by (rule lookup_cases [OF i, where e = e and k = "C_Args c ! 0" and tch = True])
    (auto simp: i evalTTL_def Get_def split: option.split)

lemma evalTYPE_safe:
  assumes i: "cmd_inv zok mk s"
  shows "safe (cmd_inv zok mk) (evalTYPE e c s)"
  by (rule lookup_cases [OF i, where e = e and k = "C_Args c ! 0" and tch = True])
    (auto simp: i evalTYPE_def Get_def)

lemma evalKEYS_safe:
  assumes i: "cmd_inv zok mk s"
  shows "safe (cmd_inv zok mk) (evalKEYS e c s)"
proof -
  have "0 \<le> RegLen (st_store s)" using cmd_inv_wf [OF i] by (simp add: wf_store_def)
  then have "Keys e (C_Args c ! 0) s \<noteq> Panic" by (simp add: Keys_def Let_def case_prod_unfold)
  then show ?thesis
    using i by (cases "Keys e (C_Args c ! 0) s") (auto simp: evalKEYS_def split: option.split)
qed

lemma evalFLUSHDB_safe: "cmd_inv zok mk s \<Longrightarrow> safe (cmd_inv zok mk) (evalFLUSHDB e c s)"
  by (simp add: evalFLUSHDB_def Reset_inv)

lemma connection_safe:
  assumes "cmd_inv zok mk s"
  shows "safe (cmd_inv zok mk) (evalECHO e c s)" and "safe (cmd_inv zok mk) (evalPING e c s)"
    and "safe (cmd_inv zok mk) (snd (evalHANDSHAKE e c s))" and "safe (cmd_inv zok mk) (evalUNWATCH e c s)"
  using assms by (simp_all add: evalECHO_def evalPING_def evalHANDSHAKE_def evalUNWATCH_def)

text \<open>What \<^verbatim>\<open>TTL\<close> answers for an entry at a time.\<close>

definition ttl_answer :: "env \<Rightarrow> 'z entry option \<Rightarrow> Result" where
  "ttl_answer e x =
     (case x of None \<Rightarrow> TTLResNotFoundRes
      | Some (_, _, None) \<Rightarrow> TTLResNoExpiryRes
      | Some (_, _, Some t) \<Rightarrow> newTTLRes (go_div (i64 (t - env_now e)) 1000))"

lemma evalTTL_spec:
  assumes i: "cmd_inv zok mk s" and c: "C_Args c = [k]"
  shows "\<exists>s'. evalTTL e c s = Ret ((Some (ttl_answer e (view e s k)), None), s') \<and> view e s' = view e s"
  using i
proof (cases rule: lookup_cases [where e = e and k = k and tch = True])
  case (none s1)
  have "view e s1 = view e s"
    using getHelper_view [OF cmd_inv_wf [OF i], of e k True] none(1) by simp
  with none c show ?thesis by (auto simp: evalTTL_def Get_def ttl_answer_def)
next
  case (some p s1)
  have "view e s1 = view e s" by (simp add: view_def some(5))
  with some c show ?thesis
    by (auto simp: evalTTL_def Get_def ttl_answer_def GetExpiry_def split: option.split)
qed

lemma evalEXPIRE_spec:
  fixes s :: "'z Store"
  assumes i: "cmd_inv zok mk s" and c: "C_Args c = [k, FormatInt n]" and n: "0 \<le> n" "in_i64 n"
    and v: "view e s k = Some (ty, v, x)"
  shows "\<exists>s'. evalEXPIRE e c s = Ret ((Some EXPIREResSetRes, None), s') \<and> cmd_inv zok mk s' \<and>
    db s' = (db s)(k \<mapsto> (ty, v, Some (i64 (env_now e + i64 (n * 1000)))))"
  using i
proof (cases rule: lookup_cases [where e = e and k = k and tch = True])
  case (some p s1)
  let ?t = "i64 (env_now e + i64 (n * 1000))"
  have v1: "view e s1 k = view e s k" by (simp add: view_def some(5))
  from some(2) show ?thesis
  proof (cases rule: lookup_cases [where e = e and k = k and tch = True])
    case none
    then show ?thesis using v v1 by simp
  next
    case (some p2 s2)
    note ip = in_place_inv(1) [OF some(2,3,6), of ?t]
    note ex = expiry_db(1) [OF cmd_inv_wf [OF some(2)] some(3), of ?t]
    have "evalEXPIRE e c s = Ret ((Some EXPIREResSetRes, None), SetUnixTimeExpiry p2 ?t s2)"
      using c n \<open>getHelper e k True s = (Some p, s1)\<close> some(1)
      by (simp add: evalEXPIRE_def ParseInt_FormatInt Get_def EvaluateAndSetExpiry_def)
    with ip ex some(4,5) \<open>db s1 = db s\<close> v v1 show ?thesis by auto
  qed
qed (use v in simp)

text \<open>C11. After \<^verbatim>\<open>EXPIRE key n\<close> on a live key, at every time before the deadline \<^verbatim>\<open>TTL\<close> answers the whole
  seconds that are left, and from the deadline on the key is gone, whatever expiry time it had.\<close>

theorem expire_then_ttl:
  fixes s :: "'z Store"
  assumes i: "cmd_inv zok mk s" and c: "C_Args c = [k, FormatInt n]" and n: "0 \<le> n" "n < 2 ^ 50"
    and now: "0 \<le> env_now e" "env_now e < 2 ^ 61" "env_now e \<le> t"
    and v: "view e s k \<noteq> None" and g: "C_Args g = [k]"
  shows "\<exists>s' s''. evalEXPIRE e c s = Ret ((Some EXPIREResSetRes, None), s') \<and>
    evalTTL (e\<lparr>env_now := t\<rparr>) g s' =
      Ret ((Some (if t < env_now e + 1000 * n then newTTLRes ((env_now e + 1000 * n - t) div 1000)
                  else TTLResNotFoundRes), None), s'')"
proof -
  obtain ty w x where w: "view e s k = Some (ty, w, x)" using v by (cases "view e s k") auto
  have n64: "in_i64 n" "in_i64 (n * 1000)" "in_i64 (env_now e + n * 1000)"
    using n now by (simp_all add: in_i64_def)
  from evalEXPIRE_spec [OF i c n(1) n64(1) w] obtain s' where
    s': "evalEXPIRE e c s = Ret ((Some EXPIREResSetRes, None), s')" "cmd_inv zok mk s'"
      "db s' = (db s)(k \<mapsto> (ty, w, Some (env_now e + n * 1000)))"
    using n64(2,3) by auto
  have v': "view (e\<lparr>env_now := t\<rparr>) s' k =
      (if t < env_now e + 1000 * n then Some (ty, w, Some (env_now e + n * 1000)) else None)"
    by (simp add: view_def live_def s'(3) expired_at_def)
  have "in_i64 (env_now e + n * 1000 - t)" if "t < env_now e + 1000 * n"
    using that n now by (simp add: in_i64_def)
  then have "ttl_answer (e\<lparr>env_now := t\<rparr>) (view (e\<lparr>env_now := t\<rparr>) s' k) =
      (if t < env_now e + 1000 * n then newTTLRes ((env_now e + 1000 * n - t) div 1000) else TTLResNotFoundRes)"
    by (simp add: v' ttl_answer_def go_div_nonneg algebra_simps)
  with evalTTL_spec [OF s'(2) g, of "e\<lparr>env_now := t\<rparr>"] s'(1) show ?thesis by auto
qed

theorem expire_then_ttl_witness:
  "\<exists>s' s''. evalEXPIRE (env_at 30) (mk_cmd ''EXPIRE'' [''b'', FormatInt 10]) two_keys =
      Ret ((Some EXPIREResSetRes, None), s') \<and>
    evalTTL ((env_at 30)\<lparr>env_now := 1000\<rparr>) (mk_cmd ''TTL'' [''b'']) s' = Ret ((Some (newTTLRes 9), None), s'')"
proof -
  have v: "view (env_at 30) two_keys ''b'' \<noteq> None"
    by (simp add: two_keys_simp view_eq hasExpired_def RegGet_def)
  show ?thesis
    using expire_then_ttl [OF two_keys_inv _ _ _ _ _ _ v, where n = 10 and t = 1000
        and c = "mk_cmd ''EXPIRE'' [''b'', FormatInt 10]" and g = "mk_cmd ''TTL'' [''b'']"]
    by simp
qed

text \<open>\<^verbatim>\<open>EXPIRE\<close> accepts any non-negative number of seconds, but the product with 1000 wraps around:
  with the largest one the command reports success and the key is gone at once.\<close>

lemma expire_overflow_deletes:
  fixes s :: "'z Store"
  assumes "cmd_inv zok mk s" and "view e s k \<noteq> None" and "C_Args c = [k, FormatInt MaxInt64]"
    and "0 \<le> env_now e" and "env_now e < 2 ^ 61"
  shows "\<exists>s'. evalEXPIRE e c s = Ret ((Some EXPIREResSetRes, None), s') \<and> view e s' k = None"
proof -
  obtain ty w x where w: "view e s k = Some (ty, w, x)" using assms(2) by (cases "view e s k") auto
  have "i64 (MaxInt64 * 1000) = -1000" by (simp add: i64_def)
  moreover have "in_i64 (env_now e + -1000)" using assms(4,5) by (simp add: in_i64_def)
  ultimately have t: "i64 (env_now e + i64 (MaxInt64 * 1000)) = env_now e - 1000" by simp
  have "(0::int) \<le> MaxInt64" "in_i64 MaxInt64" by (simp_all add: in_i64_def)
  from evalEXPIRE_spec [OF assms(1,3) this w, unfolded t] show ?thesis
    by (auto simp: view_def live_def expired_at_def)
qed

theorem expire_overflow_deletes_witness:
  "\<exists>s' :: unit Store. evalEXPIRE (env_at 30) (mk_cmd ''EXPIRE'' [''b'', FormatInt MaxInt64]) two_keys =
      Ret ((Some EXPIREResSetRes, None), s') \<and> view (env_at 30) s' ''b'' = None"
proof -
  have v: "view (env_at 30) two_keys ''b'' \<noteq> None"
    by (simp add: two_keys_simp view_eq hasExpired_def RegGet_def)
  show ?thesis
    by (rule expire_overflow_deletes [OF two_keys_inv v, of "mk_cmd ''EXPIRE'' [''b'', FormatInt MaxInt64]"]) simp_all
qed

end
