(* ===== verification/SortedSetProps.thy ===== *)
theory SortedSetProps
  imports CmdZset CmdStringProps
begin

text \<open>
  \<^verbatim>\<open>ZADD\<close>, \<^verbatim>\<open>ZRANGE\<close> and the pops against the map from members to scores, for every package that keeps
  its documented promises (\<open>zset_laws\<close>); \<open>map_zops\<close> is a package that does.
\<close>

section \<open>The laws, one by one\<close>

lemma zset_lawsD:
  assumes "zset_laws zo ok m" and "ok z"
  shows "finite (dom (m z))" and "zs_GetCount zo z = int (card (dom (m z)))"
    and "zs_GetByKey zo z k = map_option (Pair k) (m z k)"
    and "ok (snd (zs_AddOrUpdate zo z k sc))" and "fst (zs_AddOrUpdate zo z k sc) \<longleftrightarrow> m z k = None"
    and "m (snd (zs_AddOrUpdate zo z k sc)) = (m z)(k \<mapsto> sc)"
    and "ok (snd (zs_Remove zo z k))" and "fst (zs_Remove zo z k) = map_option (Pair k) (m z k)"
    and "m (snd (zs_Remove zo z k)) = (m z)(k := None)"
    and "ok (snd (zs_PopMin zo z))" and "ok (snd (zs_PopMax zo z))"
    and "zs_FindRank zo z k = zrank (m z) k"
    and "a \<le> b \<Longrightarrow> zs_GetByScoreRange zo z a b = filter (\<lambda>(_, sc). a \<le> sc \<and> sc \<le> b) (zelems (m z))"
    and "1 \<le> a \<Longrightarrow> a \<le> b \<Longrightarrow> zs_GetByRankRange zo z a b = take (nat (b - a + 1)) (drop (nat (a - 1)) (zelems (m z)))"
proof -
  have "zset_laws_at zo ok m z" using assms unfolding zset_laws_def by blast
  note l = this [unfolded zset_laws_at_def]
  show "finite (dom (m z))" and "zs_GetCount zo z = int (card (dom (m z)))"
    and "zs_GetByKey zo z k = map_option (Pair k) (m z k)"
    and "ok (snd (zs_AddOrUpdate zo z k sc))" and "fst (zs_AddOrUpdate zo z k sc) \<longleftrightarrow> m z k = None"
    and "m (snd (zs_AddOrUpdate zo z k sc)) = (m z)(k \<mapsto> sc)"
    and "ok (snd (zs_Remove zo z k))" and "fst (zs_Remove zo z k) = map_option (Pair k) (m z k)"
    and "m (snd (zs_Remove zo z k)) = (m z)(k := None)"
    and "ok (snd (zs_PopMin zo z))" and "ok (snd (zs_PopMax zo z))"
    and "zs_FindRank zo z k = zrank (m z) k"
    and "a \<le> b \<Longrightarrow> zs_GetByScoreRange zo z a b = filter (\<lambda>(_, sc). a \<le> sc \<and> sc \<le> b) (zelems (m z))"
    and "1 \<le> a \<Longrightarrow> a \<le> b \<Longrightarrow> zs_GetByRankRange zo z a b = take (nat (b - a + 1)) (drop (nat (a - 1)) (zelems (m z)))"
    by (simp_all add: l)
qed

lemma zset_laws_New: "zset_laws zo ok m \<Longrightarrow> ok (zs_New zo) \<and> m (zs_New zo) = Map.empty"
  unfolding zset_laws_def by blast

lemma zset_laws_PopMin:
  assumes "zset_laws zo ok m" and "ok z"
  shows "zelems (m z) = [] \<Longrightarrow> fst (zs_PopMin zo z) = None \<and> m (snd (zs_PopMin zo z)) = m z"
    and "zelems (m z) = x # xs \<Longrightarrow> fst (zs_PopMin zo z) = Some x \<and> m (snd (zs_PopMin zo z)) = (m z)(fst x := None)"
proof -
  have "zset_laws_at zo ok m z" using assms unfolding zset_laws_def by blast
  note l = this [unfolded zset_laws_at_def]
  show "zelems (m z) = [] \<Longrightarrow> fst (zs_PopMin zo z) = None \<and> m (snd (zs_PopMin zo z)) = m z"
    and "zelems (m z) = x # xs \<Longrightarrow> fst (zs_PopMin zo z) = Some x \<and> m (snd (zs_PopMin zo z)) = (m z)(fst x := None)"
    using l by simp_all
qed

section \<open>The order of the elements\<close>

lemma finite_scores: "finite (dom m) \<Longrightarrow> finite {(sc, k). m k = Some sc}"
proof -
  assume "finite (dom m)"
  then have "finite ((\<lambda>k. (the (m k), k)) ` dom m)" by simp
  moreover have "{(sc, k). m k = Some sc} \<subseteq> (\<lambda>k. (the (m k), k)) ` dom m" by force
  ultimately show ?thesis by (rule finite_subset [rotated])
qed

lemma zelems_set: "finite (dom m) \<Longrightarrow> set (zelems m) = {(k, sc). m k = Some sc}"
  using finite_scores [of m] by (force simp: zelems_def)

lemma zelems_map: "map (\<lambda>(k, sc). (sc, k)) (zelems m) = sorted_list_of_set {(sc, k). m k = Some sc}"
  by (simp add: zelems_def o_def case_prod_unfold)

lemma zelems_distinct: "distinct (zelems m)"
proof -
  have "distinct (map (\<lambda>(k, sc). (sc, k)) (zelems m))" unfolding zelems_map by simp
  then show ?thesis by (simp add: distinct_map)
qed

lemma zelems_length:
  assumes "finite (dom m)"
  shows "length (zelems m) = card (dom m)"
proof -
  have "bij_betw (\<lambda>(k, sc). k) {(k, sc). m k = Some sc} (dom m)"
    by (rule bij_betw_byWitness [where f' = "\<lambda>k. (k, the (m k))"]) auto
  then have "card {(k, sc). m k = Some sc} = card (dom m)" by (rule bij_betw_same_card)
  with zelems_set [OF assms] distinct_card [OF zelems_distinct [of m]] show ?thesis by simp
qed

lemma zelems_rank:
  assumes fin: "finite (dom m)" and i: "i < length (zelems m)"
  shows "zrank m (fst (zelems m ! i)) = int i + 1"
proof -
  let ?S = "{(sc, k). m k = Some sc}" and ?l = "sorted_list_of_set {(sc, k). m k = Some sc}"
  obtain k sc where e: "zelems m ! i = (k, sc)" by force
  have li: "i < length ?l" using i zelems_map [of m] by (metis length_map)
  have l: "?l ! i = (sc, k)" using arg_cong [OF zelems_map [of m], of "\<lambda>l. l ! i"] i e by simp
  have k: "m k = Some sc" using zelems_set [OF fin] nth_mem [OF i] e by simp
  have sorted: "sorted ?l" and dist: "distinct ?l" and set: "set ?l = ?S"
    using finite_scores [OF fin] by simp_all
  have "{(sc', k'). m k' = Some sc' \<and> (sc', k') \<le> (sc, k)} = {x \<in> set ?l. x \<le> ?l ! i}"
    unfolding set l by auto
  also have "\<dots> = (\<lambda>j. ?l ! j) ` {..i}"
  proof (intro equalityI subsetI)
    fix x assume "x \<in> {x \<in> set ?l. x \<le> ?l ! i}"
    then obtain j where j: "j < length ?l" "x = ?l ! j" "?l ! j \<le> ?l ! i" by (auto simp: in_set_conv_nth)
    have "j \<le> i"
    proof (rule ccontr)
      assume "\<not> j \<le> i"
      then have "?l ! i \<le> ?l ! j" using sorted j(1) by (simp add: sorted_iff_nth_mono)
      then have "?l ! i = ?l ! j" using j(3) by (rule antisym)
      then have "i = j" using dist li j(1) by (simp add: nth_eq_iff_index_eq)
      with \<open>\<not> j \<le> i\<close> show False by simp
    qed
    with j(2) show "x \<in> (\<lambda>j. ?l ! j) ` {..i}" by blast
  next
    fix x assume "x \<in> (\<lambda>j. ?l ! j) ` {..i}"
    then obtain j where "j \<le> i" "x = ?l ! j" by blast
    then show "x \<in> {x \<in> set ?l. x \<le> ?l ! i}"
      using sorted li by (auto simp: sorted_iff_nth_mono intro: nth_mem)
  qed
  finally have "card {(sc', k'). m k' = Some sc' \<and> (sc', k') \<le> (sc, k)} = card ((\<lambda>j. ?l ! j) ` {..i})" by simp
  also have "\<dots> = i + 1"
    using dist li by (subst card_image) (auto simp: inj_on_def nth_eq_iff_index_eq)
  finally show ?thesis using k e by (simp add: zrank_def)
qed

lemma zelems_del_hd:
  assumes fin: "finite (dom m)" and x: "zelems m = x # xs"
  shows "zelems (m(fst x := None)) = xs"
proof -
  let ?S = "{(sc, k). m k = Some sc}"
  obtain k sc where kx: "x = (k, sc)" by force
  have k: "m k = Some sc" using zelems_set [OF fin] x kx by auto
  have d: "{(sc', k'). (m(k := None)) k' = Some sc'} = ?S - {(sc, k)}" using k by (auto split: if_splits)
  have "sorted_list_of_set ?S = (sc, k) # map (\<lambda>(k, sc). (sc, k)) xs"
    using zelems_map [of m] x kx by simp
  moreover have "sorted_list_of_set (?S - {(sc, k)}) = remove1 (sc, k) (sorted_list_of_set ?S)"
    by (rule sorted_list_of_set_remove [OF finite_scores [OF fin]])
  ultimately have "sorted_list_of_set (?S - {(sc, k)}) = map (\<lambda>(k, sc). (sc, k)) xs" by simp
  then show ?thesis unfolding zelems_def kx fst_conv d by (simp add: o_def case_prod_unfold)
qed

section \<open>ZADD\<close>

text \<open>When a pair is skipped, given the member's current score, and what a list of pairs does to the map.\<close>

definition zskip :: "params \<Rightarrow> int option \<Rightarrow> int \<Rightarrow> bool" where
  "zskip ps cur score \<longleftrightarrow> (given ps ''NX'' \<and> cur \<noteq> None) \<or> (given ps ''XX'' \<and> cur = None) \<or>
     (\<exists>c. cur = Some c \<and> (given ps ''GT'' \<and> score \<le> c \<or> given ps ''LT'' \<and> score \<ge> c))"

definition zadd_abs :: "params \<Rightarrow> (int \<times> string) list \<Rightarrow> (string \<rightharpoonup> int) \<Rightarrow> (string \<rightharpoonup> int)" where
  "zadd_abs ps pairs m =
     fold (\<lambda>(score, member) m. if zskip ps (m member) score then m else m(member \<mapsto> score)) pairs m"

lemma zadd_abs_simps [simp]:
  "zadd_abs ps [] m = m"
  "zadd_abs ps ((score, member) # pairs) m =
     zadd_abs ps pairs (if zskip ps (m member) score then m else m(member \<mapsto> score))"
  by (simp_all add: zadd_abs_def)

lemma zadd_abs_NX: "given ps ''NX'' \<Longrightarrow> m k = Some s \<Longrightarrow> zadd_abs ps pairs m k = Some s"
proof (induction pairs arbitrary: m)
  case (Cons p pairs)
  show ?case
  proof (cases p)
    case (Pair score member)
    let ?m = "if zskip ps (m member) score then m else m(member \<mapsto> score)"
    have "?m k = Some s" using Cons.prems by (auto simp: zskip_def)
    from Cons.IH [of ?m, OF Cons.prems(1) this] Pair show ?thesis by simp
  qed
qed simp

lemma zadd_abs_XX: "given ps ''XX'' \<Longrightarrow> dom (zadd_abs ps pairs m) = dom m"
proof (induction pairs arbitrary: m)
  case (Cons p pairs)
  show ?case
  proof (cases p)
    case (Pair score member)
    have "dom (if zskip ps (m member) score then m else m(member \<mapsto> score)) = dom m"
      using Cons.prems by (auto simp: zskip_def)
    with Cons Pair show ?thesis by simp
  qed
qed simp

lemma zadd_abs_mono:
  assumes "given ps ''GT''" and "m k = Some s"
  shows "\<exists>s'. s' \<ge> s \<and> zadd_abs ps pairs m k = Some s'"
  using assms(2)
proof (induction pairs arbitrary: m s)
  case (Cons p pairs)
  show ?case
  proof (cases p)
    case (Pair score member)
    let ?m = "if zskip ps (m member) score then m else m(member \<mapsto> score)"
    have "\<exists>s'. s' \<ge> s \<and> ?m k = Some s'" using Cons.prems assms(1) by (auto simp: zskip_def)
    then obtain s' where s': "s \<le> s'" "?m k = Some s'" by blast
    from Cons.IH [of ?m s', OF s'(2)] s'(1) obtain s'' where "s' \<le> s''" "zadd_abs ps pairs ?m k = Some s''" by blast
    with s'(1) Pair show ?thesis by (intro exI [of _ s'']) simp
  qed
qed simp

lemma zadd_abs_antimono:
  assumes "given ps ''LT''" and "m k = Some s"
  shows "\<exists>s'. s' \<le> s \<and> zadd_abs ps pairs m k = Some s'"
  using assms(2)
proof (induction pairs arbitrary: m s)
  case (Cons p pairs)
  show ?case
  proof (cases p)
    case (Pair score member)
    let ?m = "if zskip ps (m member) score then m else m(member \<mapsto> score)"
    have "\<exists>s'. s' \<le> s \<and> ?m k = Some s'" using Cons.prems assms(1) by (auto simp: zskip_def)
    then obtain s' where s': "s' \<le> s" "?m k = Some s'" by blast
    from Cons.IH [of ?m s', OF s'(2)] s'(1) obtain s'' where "s'' \<le> s'" "zadd_abs ps pairs ?m k = Some s''" by blast
    with s'(1) Pair show ?thesis by (intro exI [of _ s'']) simp
  qed
qed simp

lemma zadd_one_spec:
  assumes l: "zset_laws zo ok m" and z: "ok z" and i: "\<not> given ps ''INCR''"
  shows "\<exists>a u z'. zadd_one zo ps score member z = Inr (a, u, z') \<and> ok z' \<and>
    m z' = (if zskip ps (m z member) score then m z else (m z)(member \<mapsto> score)) \<and>
    a = int (card (dom (m z'))) - int (card (dom (m z)))"
proof -
  note d = zset_lawsD [OF l z]
  obtain ins z' where au: "zs_AddOrUpdate zo z member score = (ins, z')" by force
  have z': "ok z'" "ins \<longleftrightarrow> m z member = None" "m z' = (m z)(member \<mapsto> score)"
    using d(4-6) [of member score] au by simp_all
  have card: "int (card (dom ((m z)(member \<mapsto> score)))) - int (card (dom (m z))) =
      (if m z member = None then 1 else 0)"
  proof (cases "m z member")
    case None
    then have "member \<notin> dom (m z)" by blast
    with d(1) None show ?thesis by simp
  next
    case (Some x)
    then have "insert member (dom (m z)) = dom (m z)" by blast
    with Some show ?thesis by simp
  qed
  show ?thesis
  proof (cases "m z member")
    case None
    with d(3) [of member] i au z z' card show ?thesis
      by (simp add: zadd_one_def zskip_def)
  next
    case (Some cur)
    with d(3) [of member] i au z z' card show ?thesis
      by (simp add: zadd_one_def zskip_def)
  qed
qed

lemma zadd_loop_spec:
  assumes l: "zset_laws zo ok m" and z: "ok z" and i: "\<not> given ps ''INCR''"
  shows "\<exists>n z'. zadd_loop zo ps pairs a u z = (n, z') \<and> ok z' \<and> m z' = zadd_abs ps pairs (m z) \<and>
    (\<not> given ps ''CH'' \<longrightarrow> n = a + int (card (dom (m z'))) - int (card (dom (m z))))"
  using z
proof (induction pairs arbitrary: a u z)
  case (Cons p pairs)
  obtain score member where p: "p = (score, member)" by force
  obtain a1 u1 z1 where one: "zadd_one zo ps score member z = Inr (a1, u1, z1)" "ok z1"
    "m z1 = (if zskip ps (m z member) score then m z else (m z)(member \<mapsto> score))"
    "a1 = int (card (dom (m z1))) - int (card (dom (m z)))"
    using zadd_one_spec [OF l Cons.prems i, of score member] by blast
  from Cons.IH [OF one(2), of "a + a1" "u + u1"] obtain n z' where
    "zadd_loop zo ps pairs (a + a1) (u + u1) z1 = (n, z')" "ok z'" "m z' = zadd_abs ps pairs (m z1)"
    "\<not> given ps ''CH'' \<longrightarrow> n = a + a1 + int (card (dom (m z'))) - int (card (dom (m z1)))" by blast
  with one show ?case by (simp add: p)
qed simp

lemma zadd_loop_ok:
  assumes l: "zset_laws zo ok m" and z: "ok z"
  shows "ok (snd (zadd_loop zo ps pairs a u z))"
proof (cases "given ps ''INCR'' \<and> pairs \<noteq> []")
  case True
  then obtain p ps' where "pairs = p # ps'" by (cases pairs) auto
  with True zset_lawsD(4) [OF l z] show ?thesis by (simp add: zadd_one_def Let_def)
next
  case False
  show ?thesis
  proof (cases "given ps ''INCR''")
    case True
    with False z show ?thesis by simp
  next
    case nincr: False
    from zadd_loop_spec [OF l z nincr, of pairs a u] show ?thesis by auto
  qed
qed

lemma ZADD_ok:
  assumes "zset_laws zo ok m" and "ok z"
  shows "ok (snd (ZADD zo pairs ps z))"
  using zadd_loop_ok [OF assms] assms(2) by (simp add: ZADD_def case_prod_unfold Let_def)


section \<open>A package that keeps the promises\<close>

text \<open>For the witnesses: the map itself, with every operation computed from its ordered elements.\<close>

definition map_pop :: "(string \<times> int) list \<Rightarrow> (string \<rightharpoonup> int) \<Rightarrow> (string \<times> int) option \<times> (string \<rightharpoonup> int)" where
  "map_pop xs m = (case xs of [] \<Rightarrow> (None, m) | x # _ \<Rightarrow> (Some x, m(fst x := None)))"

definition map_zops :: "(string \<rightharpoonup> int) zops" where
  "map_zops = \<lparr>zs_New = Map.empty, zs_GetCount = (\<lambda>m. int (card (dom m))),
     zs_GetByKey = (\<lambda>m k. map_option (Pair k) (m k)),
     zs_AddOrUpdate = (\<lambda>m k sc. (m k = None, m(k \<mapsto> sc))),
     zs_Remove = (\<lambda>m k. (map_option (Pair k) (m k), m(k := None))),
     zs_PopMin = (\<lambda>m. map_pop (zelems m) m), zs_PopMax = (\<lambda>m. map_pop (rev (zelems m)) m),
     zs_FindRank = zrank,
     zs_GetByScoreRange = (\<lambda>m a b. filter (\<lambda>(_, sc). a \<le> sc \<and> sc \<le> b) (zelems m)),
     zs_GetByRankRange = (\<lambda>m a b. take (nat (b - a + 1)) (drop (nat (a - 1)) (zelems m)))\<rparr>"

lemma map_zops_laws: "zset_laws map_zops (\<lambda>m. finite (dom m)) id"
proof -
  have "zset_laws_at map_zops (\<lambda>m. finite (dom m)) id m" if "finite (dom m)" for m
    using that by (simp add: zset_laws_at_def map_zops_def map_pop_def split: list.split)
  then show ?thesis by (simp add: zset_laws_def map_zops_def)
qed


section \<open>Ranges and pops\<close>

text \<open>The rank of a node's position is that position counted from one.\<close>

lemma enumerate_ranks:
  assumes fin: "finite (dom m)" and len: "int (length (zelems m)) < 2 ^ 62"
    and ns: "ns = take j (drop i (zelems m))"
  shows "map (\<lambda>(q, node). (i64 ((if length ns > 0 then zrank m (fst (ns ! 0)) else 0) + int q), snd node, fst node))
      (enumerate 0 ns) = map (\<lambda>q. (int (i + q) + 1, snd (ns ! q), fst (ns ! q))) [0..<length ns]"
proof -
  have l: "i + length ns \<le> length (zelems m)" if "ns \<noteq> []"
    using that ns by (auto simp: min_def split: if_splits)
  have r: "zrank m (fst (ns ! 0)) = int i + 1" if "ns \<noteq> []"
  proof -
    have "ns ! 0 = zelems m ! i" and "i < length (zelems m)" using that ns by auto
    with zelems_rank [OF fin] show ?thesis by simp
  qed
  show ?thesis
  proof (rule nth_equalityI)
    fix q
    assume "q < length (map (\<lambda>(q, node). (i64 ((if length ns > 0 then zrank m (fst (ns ! 0)) else 0) + int q),
        snd node, fst node)) (enumerate 0 ns))"
    then have q: "q < length ns" by simp
    then have ne: "ns \<noteq> []" by auto
    have "in_i64 (int i + 1 + int q)" using q l [OF ne] len by (simp add: in_i64_def)
    then show "map (\<lambda>(q, node). (i64 ((if length ns > 0 then zrank m (fst (ns ! 0)) else 0) + int q), snd node, fst node))
      (enumerate 0 ns) ! q = map (\<lambda>q. (int (i + q) + 1, snd (ns ! q), fst (ns ! q))) [0..<length ns] ! q"
      using q ne r [OF ne] by (simp add: nth_enumerate_eq algebra_simps)
  qed simp
qed

text \<open>\<^verbatim>\<open>ZRANGE\<close> by rank answers, for ranks from \<open>a\<close> to \<open>b\<close>, the members at these positions of the order
  by score and member, each with its rank and its score.\<close>

lemma zrange_by_rank:
  assumes "zset_laws zo ok m" and "ok z" and "1 \<le> a" and "a \<le> b" and "int (card (dom (m z))) < 2 ^ 62"
  shows "ZRANGE zo a b False True z =
    map (\<lambda>q. (a + int q, snd (zelems (m z) ! (nat (a - 1) + q)), fst (zelems (m z) ! (nat (a - 1) + q))))
      [0..<min (nat (b - a + 1)) (card (dom (m z)) - nat (a - 1))]"
proof -
  note d = zset_lawsD [OF assms(1,2)]
  let ?ns = "take (nat (b - a + 1)) (drop (nat (a - 1)) (zelems (m z)))"
  have len: "length (zelems (m z)) = card (dom (m z))" by (rule zelems_length [OF d(1)])
  have nodes: "zs_GetByRankRange zo z a b = ?ns" by (rule d(14) [OF assms(3,4)])
  have small: "int (length (zelems (m z))) < 2 ^ 62" using assms(5) len by simp
  have "ZRANGE zo a b False True z = map (\<lambda>(q, node). (i64 ((if length ?ns > 0 then zrank (m z) (fst (?ns ! 0)) else 0) +
      int q), snd node, fst node)) (enumerate 0 ?ns)"
    by (simp only: ZRANGE_def nodes d(12) Let_def if_False)
  also have "\<dots> = map (\<lambda>q. (int (nat (a - 1) + q) + 1, snd (?ns ! q), fst (?ns ! q))) [0..<length ?ns]"
    by (rule enumerate_ranks [OF d(1) small refl])
  also have "\<dots> = map (\<lambda>q. (a + int q, snd (zelems (m z) ! (nat (a - 1) + q)), fst (zelems (m z) ! (nat (a - 1) + q))))
      [0..<length ?ns]"
    using assms(3) by (intro map_cong refl) (auto simp: min_def split: if_splits)
  also have "length ?ns = min (nat (b - a + 1)) (card (dom (m z)) - nat (a - 1))" by (simp add: len min.commute)
  finally show ?thesis .
qed

lemma one_elem: "zelems [k \<mapsto> sc] = [(k, sc)]"
proof -
  have "{(sc', k'). [k \<mapsto> sc] k' = Some sc'} = {(sc, k)}" by (auto split: if_splits)
  then show ?thesis by (simp add: zelems_def)
qed

theorem zrange_by_rank_witness: "ZRANGE map_zops 1 9 False True [''a'' \<mapsto> 5] = [(1, 5, ''a'')]"
proof -
  show ?thesis
    using zrange_by_rank [OF map_zops_laws, where z = "[''a'' \<mapsto> 5]" and a = 1 and b = 9]
    by (simp add: one_elem)
qed

lemma zpop_loop_spec:
  assumes l: "zset_laws zo ok m" and "ok z"
  shows "\<exists>z'. zpop_loop (zs_PopMin zo) (\<lambda>i. i + 1) n i z =
      (map (\<lambda>q. (i + int q + 1, snd (zelems (m z) ! q), fst (zelems (m z) ! q))) [0..<min n (length (zelems (m z)))], z') \<and>
    ok z' \<and> zelems (m z') = drop n (zelems (m z))"
  using assms(2)
proof (induction n arbitrary: i z)
  case (Suc n)
  note d = zset_lawsD [OF l Suc.prems]
  obtain r z1 where p: "zs_PopMin zo z = (r, z1)" by force
  have ok1: "ok z1" using d(10) p by simp
  show ?case
  proof (cases "zelems (m z)")
    case Nil
    with zset_laws_PopMin(1) [OF l Suc.prems] p ok1 show ?thesis by simp
  next
    case (Cons x xs)
    have r: "r = Some x" and m1: "m z1 = (m z)(fst x := None)"
      using zset_laws_PopMin(2) [OF l Suc.prems Cons] p by simp_all
    have e1: "zelems (m z1) = xs" unfolding m1 by (rule zelems_del_hd [OF d(1) Cons])
    from Suc.IH [OF ok1, of "i + 1"] obtain z' where
      z': "zpop_loop (zs_PopMin zo) (\<lambda>i. i + 1) n (i + 1) z1 =
        (map (\<lambda>q. (i + 1 + int q + 1, snd (xs ! q), fst (xs ! q))) [0..<min n (length xs)], z')"
      "ok z'" "zelems (m z') = drop n xs" unfolding e1 by blast
    have "[0..<min (Suc n) (length (zelems (m z)))] = 0 # map Suc [0..<min n (length xs)]"
      by (simp add: Cons upt_conv_Cons map_Suc_upt del: upt_Suc)
    then show ?thesis
      using p r z' by (cases x) (simp add: Cons o_def algebra_simps)
  qed
qed simp

end
