(* ===== verification/CmdHashProps.thy ===== *)
theory CmdHashProps
  imports CmdHash CmdKeysProps
begin

text \<open>
  The hash commands keep the invariant and refine updates of a map from fields to values.
\<close>

section \<open>The field loop\<close>

fun field_pairs :: "string list \<Rightarrow> (string \<times> string) list" where
  "field_pairs (k # v # kvs) = (k, v) # field_pairs kvs"
| "field_pairs _ = []"

lemma hset_loop_map: "map_of (snd (hset_loop kvs n m)) = map_of m ++ map_of (rev (field_pairs kvs))"
  by (induction kvs n m rule: hset_loop.induct) (simp_all add: update_conv' map_add_def fun_eq_iff split: option.split)

lemma hset_loop_distinct: "distinct (map fst m) \<Longrightarrow> distinct (map fst (snd (hset_loop kvs n m)))"
  by (induction kvs n m rule: hset_loop.induct) (simp_all add: distinct_update)

lemma hset_loop_count:
  "fst (hset_loop kvs n m) = n + int (card (fst ` set (field_pairs kvs) - dom (map_of m)))"
proof (induction kvs n m rule: hset_loop.induct)
  case (1 k v kvs cnt m)
  have d: "dom (map_of (AList.update k v m)) = insert k (dom (map_of m))"
    by (simp add: update_conv')
  have fin: "finite (fst ` set (field_pairs kvs))" by simp
  show ?case
  proof (cases "map_of m k")
    case None
    then have "fst ` set (field_pairs (k # v # kvs)) - dom (map_of m) =
        insert k (fst ` set (field_pairs kvs) - insert k (dom (map_of m)))" by auto
    then show ?thesis using 1 None d fin by simp
  next
    case (Some x)
    then have "insert k (dom (map_of m)) = dom (map_of m)" by auto
    then have "fst ` set (field_pairs (k # v # kvs)) - dom (map_of m) = fst ` set (field_pairs kvs) - dom (map_of m)"
      using Some by auto
    then show ?thesis using 1 Some d \<open>insert k (dom (map_of m)) = dom (map_of m)\<close> by simp
  qed
qed simp_all

section \<open>HSET\<close>

lemma hset_put_eq:
  "hset_put e k kvs m s = (if length kvs mod 2 = 1 then reply_err HSETResNilRes (ErrWrongArgumentCount ''HSET'') s
    else reply_ok (newHSETRes (fst (hset_loop kvs 0 m)))
      (put_new e k (VSSMap (snd (hset_loop kvs 0 m))) (-1) ObjTypeSSMap getDefaultPutOptions s))"
  by (simp add: hset_put_def put_new_def case_prod_unfold Let_def)

lemma hset_put_safe:
  assumes "cmd_inv zok mk s" and "range_ok e" and "distinct (map fst m)"
  shows "safe (cmd_inv zok mk) (hset_put e k kvs m s)"
  using assms by (auto simp: hset_put_eq intro!: put_new_inv hset_loop_distinct)

lemma evalHSET_safe:
  assumes i: "cmd_inv zok mk s" and "range_ok e" and "C_Args c \<noteq> []"
  shows "safe (cmd_inv zok mk) (evalHSET e c s)"
  using i
proof (cases rule: lookup_cases [where e = e and k = "C_Args c ! 0" and tch = True])
  case (none s1)
  with hset_put_safe [OF none(2) assms(2)] assms(3) show ?thesis by (simp add: evalHSET_def Get_def)
next
  case (some p s1)
  from some(6) show ?thesis
    by (rule value_okE) (use some(1,2) hset_put_safe [OF some(2) assms(2)] assms(3) in
        \<open>auto simp: evalHSET_def Get_def\<close>)
qed

lemma evalHGET_safe:
  assumes i: "cmd_inv zok mk s" and "2 \<le> length (C_Args c)"
  shows "safe (cmd_inv zok mk) (evalHGET e c s)"
  by (rule lookup_cases [OF i, where e = e and k = "C_Args c ! 0" and tch = True])
    (use assms(2) in \<open>auto simp: evalHGET_def Get_def SSMap_Get_def split: option.split Value.split\<close>)

lemma evalHGETALL_safe:
  assumes i: "cmd_inv zok mk s" and "C_Args c \<noteq> []"
  shows "safe (cmd_inv zok mk) (evalHGETALL e c s)"
  using i
proof (cases rule: lookup_cases [where e = e and k = "C_Args c ! 0" and tch = True])
  case (some p s1)
  from some(6) show ?thesis
    by (rule value_okE) (use some(1,2) assms(2) in \<open>auto simp: evalHGETALL_def Get_def hgetall_reply_def\<close>)
qed (use assms in \<open>simp add: evalHGETALL_def Get_def hgetall_reply_def\<close>)

text \<open>The fields a key holds; an absent key has none.\<close>

definition fields :: "'z entry option \<Rightarrow> SSMap option" where
  "fields x = (case x of None \<Rightarrow> Some [] | Some (ty, VSSMap m, t) \<Rightarrow> Some m | _ \<Rightarrow> None)"

lemma fields_cases:
  assumes "fields x = Some m"
  obtains "x = None" "m = []" | ty t where "x = Some (ty, VSSMap m, t)"
  using assms by (auto simp: fields_def split: option.splits prod.splits Value.splits)

lemma evalHSET_spec:
  fixes s :: "'z Store"
  assumes i: "cmd_inv zok mk s" and c: "C_Args c = k # kvs" and e: "even (length kvs)"
    and f: "fields (view e s k) = Some m"
  shows "\<exists>s1. evalHSET e c s = Ret ((Some (newHSETRes (fst (hset_loop kvs 0 m))), None),
      put_new e k (VSSMap (snd (hset_loop kvs 0 m))) (-1) ObjTypeSSMap getDefaultPutOptions s1) \<and> cmd_inv zok mk s1"
  using i
proof (cases rule: lookup_cases [where e = e and k = k and tch = True])
  case (none s1)
  with f have "m = []" by (simp add: fields_def)
  with none c e show ?thesis by (auto simp: evalHSET_def Get_def hset_put_eq)
next
  case (some p s1)
  from f show ?thesis
  proof (cases rule: fields_cases)
    case (2 ty t)
    then have v: "obj_Value (st_heap s1 p) = VSSMap m" using some(4) by simp
    moreover have "obj_Type (st_heap s1 p) = ObjTypeSSMap"
      using some(6) unfolding v by (rule value_okE) simp_all
    ultimately show ?thesis
      using some(1,2) c e by (auto simp: evalHSET_def Get_def hset_put_eq)
  qed (use some(4) in simp)
qed

text \<open>C12. \<^verbatim>\<open>HSET key f1 v1 ... fn vn\<close> on an absent key or a hash answers how many of the distinct fields
  are new, and a following \<^verbatim>\<open>HGET\<close> answers, for every field, the last value given for it, or else the
  value it had before. The key is left without an expiry time.\<close>

theorem hset_then_hget:
  fixes s :: "'z Store"
  assumes i: "cmd_inv zok mk s" and r: "range_ok e" and c: "C_Args c = k # kvs" "even (length kvs)"
    and m: "fields (view e s k) = Some m" and g: "C_Args g = [k, f]"
  shows "\<exists>s' s''. evalHSET e c s =
      Ret ((Some (newHSETRes (int (card (fst ` set (field_pairs kvs) - dom (map_of m))))), None), s') \<and>
    evalHGET e g s' = Ret ((Some (case (map_of m ++ map_of (rev (field_pairs kvs))) f of
        None \<Rightarrow> HGETResNilRes | Some v \<Rightarrow> newHGETRes v), None), s'') \<and>
    (\<exists>m'. db s' k = Some (ObjTypeSSMap, VSSMap m', None))"
proof -
  let ?m' = "snd (hset_loop kvs 0 m)"
  from evalHSET_spec [OF i c m] obtain s1 where
    s1: "evalHSET e c s = Ret ((Some (newHSETRes (fst (hset_loop kvs 0 m))), None),
      put_new e k (VSSMap ?m') (-1) ObjTypeSSMap getDefaultPutOptions s1)" "cmd_inv zok mk s1" by blast
  let ?s' = "put_new e k (VSSMap ?m') (-1) ObjTypeSSMap getDefaultPutOptions s1"
  have dist: "distinct (map fst m)"
    using m
  proof (cases rule: fields_cases)
    case (2 ty t)
    then have "db s k = Some (ty, VSSMap m, t)"
      by (auto simp: view_def live_def split: option.splits if_splits)
    then have "value_ok zok ty (VSSMap m)" using i by (auto simp: cmd_inv_def typed_def)
    then show ?thesis by (rule value_okE) simp_all
  qed simp
  have i': "cmd_inv zok mk ?s'"
    using s1(2) r dist by (auto intro!: put_new_inv hset_loop_distinct)
  have d: "db ?s' k = Some (ObjTypeSSMap, VSSMap ?m', None)"
    unfolding put_new_db [OF cmd_inv_wf [OF s1(2)]]
    by (simp add: put_expiry_def getDefaultPutOptions_def new_expiry_def split: option.split)
  then have v: "view e ?s' k = Some (ObjTypeSSMap, VSSMap ?m', None)"
    by (simp add: view_def live_def expired_at_def)
  from i' have "\<exists>s''. evalHGET e g ?s' = Ret ((Some (case map_of ?m' f of
        None \<Rightarrow> HGETResNilRes | Some v \<Rightarrow> newHGETRes v), None), s'')"
  proof (cases rule: lookup_cases [where e = e and k = k and tch = True])
    case (some p s2)
    with v g show ?thesis by (auto simp: evalHGET_def Get_def SSMap_Get_def split: option.split)
  qed (use v in simp)
  with s1(1) d show ?thesis by (auto simp: hset_loop_map hset_loop_count)
qed

theorem hset_then_hget_witness:
  "\<exists>s' s''. evalHSET (env_at 30) (mk_cmd ''HSET'' [''h'', ''f'', ''1'', ''g'', ''2'', ''f'', ''3'']) two_keys =
      Ret ((Some (newHSETRes 2), None), s') \<and>
    evalHGET (env_at 30) (mk_cmd ''HGET'' [''h'', ''f'']) s' = Ret ((Some (newHGETRes ''3''), None), s'')"
proof -
  have f: "fields (view (env_at 30) two_keys ''h'') = Some []"
    by (simp add: two_keys_simp view_eq RegGet_def fields_def)
  show ?thesis
    using hset_then_hget [OF two_keys_inv env_at_range [of 30] _ _ f, where f = "''f''"
        and c = "mk_cmd ''HSET'' [''h'', ''f'', ''1'', ''g'', ''2'', ''f'', ''3'']"
        and g = "mk_cmd ''HGET'' [''h'', ''f'']"]
    by (auto simp: card_insert_if)
qed

end
