(* ===== verification/CmdZsetProps.thy ===== *)
theory CmdZsetProps
  imports SortedSetProps CmdHashProps
begin

text \<open>
  The sorted-set commands keep the invariant, for every package that keeps its promises, and panic
  only on a dangling parameter, a missing argument or an absurd count; \<^verbatim>\<open>ZADD\<close> and \<^verbatim>\<open>ZPOPMIN\<close>
  against the abstract store.
\<close>

section \<open>Invariant\<close>

lemma setZ_inv:
  assumes "cmd_inv ok mk s" and "tbl s k = Some p" and "obj_Type (st_heap s p) = ObjTypeSortedSet"
    and "value_ok ok (obj_Type (st_heap s p)) (obj_Value (st_heap s p))" and "ok z"
  shows "cmd_inv ok mk (setValue p (VSortedSet z) s)"
  using in_place_inv(4) [OF assms(1,2,4), of "VSortedSet z"] assms(3,5) by simp

text \<open>A lookup of a sorted set, for elimination.\<close>

lemma zset_lookup:
  assumes i: "cmd_inv ok mk s"
  obtains (absent) s1 where "with_zset e k absent wrong f s = reply_ok absent s1" "cmd_inv ok mk s1" "view e s k = None"
  | (wrong) s1 where "with_zset e k absent wrong f s = reply_err wrong ErrWrongTypeOperation s1" "cmd_inv ok mk s1"
      "db s1 = db s"
  | (zset) p z s1 x where "with_zset e k absent wrong f s = f p z s1" "cmd_inv ok mk s1" "tbl s1 k = Some p"
      "obj_Type (st_heap s1 p) = ObjTypeSortedSet" "obj_Value (st_heap s1 p) = VSortedSet z" "ok z"
      "value_ok ok (obj_Type (st_heap s1 p)) (obj_Value (st_heap s1 p))"
      "view e s k = Some (ObjTypeSortedSet, VSortedSet z, x)" "exps s1 p = x" "db s1 = db s"
  using i
proof (cases rule: lookup_cases [where e = e and k = k and tch = True])
  case (none s1)
  with absent show ?thesis by (simp add: with_zset_def Get_def)
next
  case (some p s1)
  show ?thesis
  proof (cases "obj_Type (st_heap s1 p) = ObjTypeSortedSet")
    case True
    from some(6) obtain z where z: "obj_Value (st_heap s1 p) = VSortedSet z" "ok z"
      unfolding True by (rule value_okE) auto
    show ?thesis
    proof (rule zset [OF _ some(2,3) True z(1) z(2) some(6) _ refl some(5)])
      show "with_zset e k absent wrong f s = f p z s1"
        using some(1) True z by (simp add: with_zset_def Get_def)
      show "view e s k = Some (ObjTypeSortedSet, VSortedSet z, exps s1 p)"
        using some(4) True z by simp
    qed
  next
    case False
    with some wrong show ?thesis by (simp add: with_zset_def Get_def)
  qed
qed

lemma with_zset_safe:
  assumes "cmd_inv ok mk s"
    and "\<And>p z s1. \<lbrakk>cmd_inv ok mk s1; ok z; \<And>z'. ok z' \<Longrightarrow> cmd_inv ok mk (setValue p (VSortedSet z') s1)\<rbrakk>
      \<Longrightarrow> safe (cmd_inv ok mk) (f p z s1)"
  shows "safe (cmd_inv ok mk) (with_zset e k absent wrong f s)"
using assms(1)
proof (cases rule: zset_lookup [where e = e and k = k and absent = absent and wrong = wrong and f = f])
  case (zset p z s1 x)
  show ?thesis unfolding zset(1) by (rule assms(2) [OF zset(2,6)]) (rule setZ_inv [OF zset(2,3,4,7)])
qed simp_all

lemma zadd_reply_safe:
  assumes l: "zset_laws zo ok m" and z: "ok z"
    and "\<And>z'. ok z' \<Longrightarrow> cmd_inv ok mk (setValue p (VSortedSet z') s)"
  shows "safe (cmd_inv ok mk) (zadd_reply zo pairs ps p z s)"
  using assms(3) ZADD_ok [OF l z, of pairs ps]
  by (cases "ZADD zo pairs ps z") (auto simp: zadd_reply_def split: sum.split)

text \<open>The freshly created empty set sits at its key.\<close>

lemma zadd_absent:
  assumes l: "zset_laws zo ok m" and i: "cmd_inv ok mk s" and r: "range_ok e" and v: "view e s k = None"
  shows "\<exists>p s3. zadd_key zo e k pairs ps s = zadd_reply zo pairs ps p (zs_New zo) s3 \<and> cmd_inv ok mk s3 \<and>
    tbl s3 k = Some p \<and> db s3 k = Some (ObjTypeSortedSet, VSortedSet (zs_New zo), None) \<and>
    obj_Type (st_heap s3 p) = ObjTypeSortedSet \<and> obj_Value (st_heap s3 p) = VSortedSet (zs_New zo) \<and>
    exps s3 p = None"
  using i
proof (cases rule: lookup_cases [where e = e and k = k and tch = True])
  case (none s1)
  let ?o = "getDefaultPutOptions\<lparr>PutCmd := cmdZAdd\<rparr>"
  let ?s3 = "put_new e k (VSortedSet (zs_New zo)) (-1) ObjTypeSortedSet ?o s1"
  obtain p s2 where n: "NewObj e (VSortedSet (zs_New zo)) (-1) ObjTypeSortedSet s1 = (p, s2)" by force
  have s3: "?s3 = Put e k p ?o s2" by (simp add: put_new_def n)
  have eq: "zadd_key zo e k pairs ps s = zadd_reply zo pairs ps p (zs_New zo) ?s3"
    using none(1) n by (simp add: zadd_key_def Get_def NewSortedSet_def put_new_def)
  have i3: "cmd_inv ok mk ?s3" using none(2) r zset_laws_New [OF l] by (intro put_new_inv) auto
  have d3: "db ?s3 k = Some (ObjTypeSortedSet, VSortedSet (zs_New zo), None)"
    unfolding put_new_db [OF cmd_inv_wf [OF none(2)]]
    by (simp add: put_expiry_def getDefaultPutOptions_def new_expiry_def split: option.split)
  have t3: "tbl ?s3 k = Some p" by (simp add: s3 Put_def putHelper_tbl)
  show ?thesis
    by (intro exI [of _ p] exI [of _ ?s3] conjI eq i3 t3 d3)
      (use d3 t3 in \<open>simp_all add: db_eq entry_def\<close>)
qed (use v in simp)

lemma zadd_key_safe:
  assumes l: "zset_laws zo ok m" and i: "cmd_inv ok mk s" and r: "range_ok e"
  shows "safe (cmd_inv ok mk) (zadd_key zo e k pairs ps s)"
proof (cases "view e s k")
  case None
  from zadd_absent [OF l i r None] obtain p s3 where
    a: "zadd_key zo e k pairs ps s = zadd_reply zo pairs ps p (zs_New zo) s3" "cmd_inv ok mk s3" "tbl s3 k = Some p"
      "obj_Type (st_heap s3 p) = ObjTypeSortedSet" "obj_Value (st_heap s3 p) = VSortedSet (zs_New zo)" by blast
  have vo: "value_ok ok (obj_Type (st_heap s3 p)) (obj_Value (st_heap s3 p))"
    using a(4,5) zset_laws_New [OF l] by simp
  show ?thesis unfolding a(1)
    by (rule zadd_reply_safe [OF l conjunct1 [OF zset_laws_New [OF l]]]) (rule setZ_inv [OF a(2,3,4) vo])
next
  case (Some x)
  have "zadd_key zo e k pairs ps s =
      with_zset e k ZADDResNilRes ZADDResNilRes (\<lambda>p z s1. zadd_reply zo pairs ps p z s1) s"
    using i
  proof (cases rule: lookup_cases [where e = e and k = k and tch = True])
    case (some p s1)
    then show ?thesis by (simp add: zadd_key_def with_zset_def Get_def)
  qed (use Some in simp)
  with with_zset_safe [OF i, of "\<lambda>p z s1. zadd_reply zo pairs ps p z s1"] zadd_reply_safe [OF l]
  show ?thesis by metis
qed

lemma evalZADD_keeps:
  assumes l: "zset_laws zo ok m" and i: "cmd_inv ok mk s" and r: "range_ok e"
  shows "keeps (cmd_inv ok mk) (evalZADD zo e c s)"
    and "evalZADD zo e c s = Panic \<longleftrightarrow> 3 \<le> length (C_Args c) \<and> dangling (drop 1 (C_Args c))"
proof -
  note p = parse_loop_Panic [of "drop 1 (C_Args c)" Map.empty "[]", folded parseParams_def]
  have s: "safe (cmd_inv ok mk) (zadd_key zo e k pairs ps s)" for k pairs ps by (rule zadd_key_safe [OF l i r])
  have n: "zadd_key zo e k pairs ps s \<noteq> Panic" for k pairs ps
    using s [of k pairs ps] by (auto simp: safe_def)
  show "keeps (cmd_inv ok mk) (evalZADD zo e c s)"
    using i safe_keeps [OF s] by (cases "parseParams (drop 1 (C_Args c))")
      (auto simp: evalZADD_def split: option.split prod.split)
  show "evalZADD zo e c s = Panic \<longleftrightarrow> 3 \<le> length (C_Args c) \<and> dangling (drop 1 (C_Args c))"
    using p n by (cases "parseParams (drop 1 (C_Args c))")
      (auto simp: evalZADD_def split: option.split prod.split)
qed

lemma zset_readers_safe:
  assumes l: "zset_laws zo ok m" and i: "cmd_inv ok mk s"
  shows "safe (cmd_inv ok mk) (evalZCARD zo e c s)" and "safe (cmd_inv ok mk) (evalZCOUNT zo e c s)"
    and "safe (cmd_inv ok mk) (evalZRANGE zo e c s)"
    and "2 \<le> length (C_Args c) \<Longrightarrow> safe (cmd_inv ok mk) (evalZRANK zo e c s)"
  using i by (auto simp: evalZCARD_def evalZCOUNT_def evalZRANGE_def evalZRANK_def Let_def
      intro!: with_zset_safe split: option.split prod.split)

lemma zrem_loop_spec:
  assumes l: "zset_laws zo ok m" and z: "ok z"
  shows "ok (snd (zrem_loop zo ks z)) \<and> m (snd (zrem_loop zo ks z)) = (\<lambda>k. if k \<in> set ks then None else m z k)"
proof -
  have "ok (snd (fold (\<lambda>member (n :: int, ss). let (node, ss') = zs_Remove zo ss member
        in (if node \<noteq> None then n + 1 else n, ss')) ks (n, z))) \<and>
    m (snd (fold (\<lambda>member (n :: int, ss). let (node, ss') = zs_Remove zo ss member
        in (if node \<noteq> None then n + 1 else n, ss')) ks (n, z))) = (\<lambda>k. if k \<in> set ks then None else m z k)" for n
    using z
  proof (induction ks arbitrary: n z)
    case (Cons k ks)
    obtain node z1 where r: "zs_Remove zo z k = (node, z1)" by force
    have z1: "ok z1" "m z1 = (m z)(k := None)" using zset_lawsD(7,9) [OF l Cons.prems, of k] r by simp_all
    from Cons.IH [OF z1(1), of "if node \<noteq> None then n + 1 else n"] r z1(2) show ?case by (auto simp: fun_eq_iff)
  qed simp
  then show ?thesis by (simp add: zrem_loop_def)
qed

lemma evalZREM_safe:
  assumes l: "zset_laws zo ok m" and i: "cmd_inv ok mk s"
  shows "safe (cmd_inv ok mk) (evalZREM zo e c s)"
  using i zrem_loop_spec [OF l]
  by (auto simp: evalZREM_def Let_def case_prod_unfold intro!: with_zset_safe)

lemma zpop_loop_ok:
  assumes "\<And>z. ok z \<Longrightarrow> ok (snd (pop_fn z))" and "ok z"
  shows "ok (snd (zpop_loop pop_fn rk n i z))"
  using assms(2)
proof (induction n arbitrary: i z)
  case (Suc n)
  have "ok (snd (pop_fn z))" by (rule assms(1) [OF Suc.prems])
  with Suc.IH [OF this] show ?case
    by (cases "pop_fn z") (auto simp: case_prod_unfold Let_def split: option.split)
qed simp

lemma zpop_safe:
  assumes l: "zset_laws zo ok m" and i: "cmd_inv ok mk s" and c: "\<And>n. pop_count c = Some n \<Longrightarrow> make_ok n"
  shows "safe (cmd_inv ok mk) (evalZPOPMIN zo e c s)" and "safe (cmd_inv ok mk) (evalZPOPMAX zo e c s)"
  using i c zpop_loop_ok [of ok "zs_PopMin zo", OF zset_lawsD(10) [OF l]] zpop_loop_ok [of ok "zs_PopMax zo", OF zset_lawsD(11) [OF l]]
  by (auto simp: evalZPOPMIN_def evalZPOPMAX_def case_prod_unfold Let_def intro!: with_zset_safe split: option.split)

section \<open>ZADD and ZPOPMIN on a key\<close>

text \<open>\<^verbatim>\<open>ZADD\<close> on an absent key with options that exclude each other answers an error and yet creates
  the key, as an empty sorted set.\<close>

lemma zadd_error_creates_key:
  assumes "zset_laws zo ok m" and "cmd_inv ok mk s" and "range_ok e" and "view e s k = None"
    and "3 \<le> length (C_Args c)" and "C_Args c ! 0 = k" and "parseParams (drop 1 (C_Args c)) = Ret (ps, np)"
    and "even (length np)" and "score_pairs np = Some pairs" and "given ps ''XX''" and "given ps ''NX''"
  shows "\<exists>err s'. evalZADD zo e c s = Ret ((Some ZADDResNilRes, Some err), s') \<and>
    db s' k = Some (ObjTypeSortedSet, VSortedSet (zs_New zo), None)"
proof -
  from zadd_absent [OF assms(1-4)] obtain p s3 where
    a: "zadd_key zo e k pairs ps s = zadd_reply zo pairs ps p (zs_New zo) s3" "cmd_inv ok mk s3"
      "tbl s3 k = Some p" "obj_Type (st_heap s3 p) = ObjTypeSortedSet" "exps s3 p = None" by blast
  have "evalZADD zo e c s = zadd_reply zo pairs ps p (zs_New zo) s3"
    using assms(5-9) a(1) by (simp add: evalZADD_def)
  moreover have "db (setValue p (VSortedSet (zs_New zo)) s3) k = Some (ObjTypeSortedSet, VSortedSet (zs_New zo), None)"
    using setValue_db [OF cmd_inv_wf [OF a(2)] a(3)] a(4,5) by simp
  ultimately show ?thesis using assms(10,11) by (simp add: zadd_reply_def ZADD_def)
qed

definition zs_store :: "(string \<rightharpoonup> int) Store" where
  "zs_store = put_new (env_at 10) ''z'' (VSortedSet [''a'' \<mapsto> 5]) (-1) ObjTypeSortedSet getDefaultPutOptions
     (NewStore None (Some (NewPrimitiveEvictionStrategy 9)) 0)"

lemma zs_store_inv: "cmd_inv (\<lambda>m. finite (dom m)) 9 zs_store"
  unfolding zs_store_def by (intro put_new_inv NewStore_inv) simp_all

lemma zs_store_view: "view (env_at 30) zs_store k =
    (if k = ''z'' then Some (ObjTypeSortedSet, VSortedSet [''a'' \<mapsto> 5], None) else None)"
proof -
  have "db zs_store = [''z'' \<mapsto> (ObjTypeSortedSet, VSortedSet [''a'' \<mapsto> 5], None)]"
    unfolding zs_store_def put_new_db [OF NewStore_wf]
    by (auto simp: put_expiry_def old_expiry_def new_expiry_def fun_eq_iff)
  then show ?thesis by (simp add: view_def live_def expired_at_def)
qed

theorem zadd_error_creates_key_witness:
  "\<exists>err s'. evalZADD map_zops (env_at 30) (mk_cmd ''ZADD'' [''q'', ''XX'', ''NX'']) zs_store =
      Ret ((Some ZADDResNilRes, Some err), s') \<and>
    db s' ''q'' = Some (ObjTypeSortedSet, VSortedSet (zs_New map_zops), None)"
proof -
  have u: "ToUpper ''XX'' = ''XX''" "ToUpper ''NX'' = ''NX''" by code_simp+
  have p: "parseParams (drop 1 (C_Args (mk_cmd ''ZADD'' [''q'', ''XX'', ''NX'']))) =
      Ret ([''XX'' \<mapsto> ''true'', ''NX'' \<mapsto> ''true''], [])"
    unfolding mk_cmd_args drop_Suc_Cons One_nat_def drop_0 parseParams_def parse_loop.simps u
    by (simp add: takes_value_def is_flag_def)
  show ?thesis
    by (rule zadd_error_creates_key [OF map_zops_laws zs_store_inv env_at_range _ _ _ p])
      (simp_all add: zs_store_view given_def param_def)
qed

text \<open>\<^verbatim>\<open>ZPOPMIN key n\<close> on a sorted set answers its \<open>n\<close> smallest members in order, ranked from one,
  and leaves the others; type and expiry time of the key stay as they were.\<close>

lemma zpopmin_takes_smallest:
  assumes l: "zset_laws zo ok m" and i: "cmd_inv ok mk s" and c: "C_Args c = [k, FormatInt n]"
    and n: "0 < n" "n \<le> 2 ^ 45" and v: "view e s k = Some (ObjTypeSortedSet, VSortedSet z, x)"
  shows "\<exists>s' z'. evalZPOPMIN zo e c s = Ret ((Some (newZPOPMINRes (map (\<lambda>q. (int q + 1, snd (zelems (m z) ! q),
        fst (zelems (m z) ! q))) [0..<min (nat n) (length (zelems (m z)))])), None), s') \<and>
    zelems (m z') = drop (nat n) (zelems (m z)) \<and> db s' = (db s)(k \<mapsto> (ObjTypeSortedSet, VSortedSet z', x))"
proof -
  have n64: "in_i64 n" and mo: "make_ok n" using n by (simp_all add: in_i64_def make_ok_def)
  have pc: "pop_count c = Some n" using c n n64 by (simp add: pop_count_def ParseInt_FormatInt)
  let ?f = "\<lambda>obj ss s1. if \<not> make_ok n then Panic
    else let (elements, ss') = zpop_loop (zs_PopMin zo) (\<lambda>i. i + 1) (nat n) 0 ss
         in reply_ok (newZPOPMINRes elements) (setValue obj (VSortedSet ss') s1)"
  have ev: "evalZPOPMIN zo e c s = with_zset e k ZPOPMINResNilRes ZPOPMINResNilRes ?f s"
    using c pc by (simp add: evalZPOPMIN_def)
  from i show ?thesis
  proof (cases rule: zset_lookup [where e = e and k = k and absent = ZPOPMINResNilRes and wrong = ZPOPMINResNilRes and f = ?f])
    case (zset p z2 s1 x2)
    then have e: "z2 = z" "x2 = x" using v by simp_all
    from zpop_loop_spec [OF l zset(6), of "nat n" 0] obtain z' where z':
      "zpop_loop (zs_PopMin zo) (\<lambda>i. i + 1) (nat n) 0 z2 =
        (map (\<lambda>q. (0 + int q + 1, snd (zelems (m z2) ! q), fst (zelems (m z2) ! q))) [0..<min (nat n) (length (zelems (m z2)))], z')"
      "zelems (m z') = drop (nat n) (zelems (m z2))" by blast
    have d: "db (setValue p (VSortedSet z') s1) = (db s)(k \<mapsto> (ObjTypeSortedSet, VSortedSet z', x))"
      using setValue_db [OF cmd_inv_wf [OF zset(2)] zset(3)] zset(4,9,10) e by simp
    show ?thesis
      unfolding ev zset(1) using mo z' d e by auto
  next
    case (wrong s1)
    have "fst (Get e k s) \<noteq> None" using v getHelper_None [of e k True s] by (simp add: Get_def)
    from i show ?thesis
    proof (cases rule: lookup_cases [where e = e and k = k and tch = True])
      case (some p s2)
      with v wrong(1) mo show ?thesis by (auto simp: with_zset_def Get_def split: prod.splits)
    qed (use v in simp)
  qed (use v in simp)
qed

theorem zpopmin_takes_smallest_witness:
  "\<exists>s'. evalZPOPMIN map_zops (env_at 30) (mk_cmd ''ZPOPMIN'' [''z'', FormatInt 3]) zs_store =
     Ret ((Some (newZPOPMINRes [(1, 5, ''a'')]), None), s')"
proof -
  have v: "view (env_at 30) zs_store ''z'' = Some (ObjTypeSortedSet, VSortedSet [''a'' \<mapsto> 5], None)"
    by (simp add: zs_store_view)
  show ?thesis
    using zpopmin_takes_smallest [OF map_zops_laws zs_store_inv _ _ _ v, where n = 3
        and c = "mk_cmd ''ZPOPMIN'' [''z'', FormatInt 3]"]
    by (auto simp: one_elem)
qed

end
