(* ===== verification/ExecProps.thy ===== *)
theory ExecProps
  imports Exec CmdKeysProps CmdZsetProps
begin

text \<open>
  What an execution keeps: every shard keeps the invariant of its store, and every key is stored on
  the shard its hash selects (placement), so that single-key commands find what others stored and
  the commands on several shards count every key once.
\<close>

section \<open>The keys of a store\<close>

text \<open>Every operation stores at most the key it is given.\<close>

definition within :: "string set \<Rightarrow> 'z Store \<Rightarrow> bool" where
  "within K s \<longleftrightarrow> dom (tbl s) \<subseteq> K"

lemma within_tbl: "tbl s' = tbl s \<Longrightarrow> within K s \<Longrightarrow> within K s'"
  by (simp add: within_def)

lemma within_Del [simp]: "within K s \<Longrightarrow> within K (snd (Del c k s))"
  by (auto simp: within_def Del_tbl)

lemma within_getHelper [simp]: "within K s \<Longrightarrow> within K (snd (getHelper e k t s))"
  by (cases "fst (getHelper e k t s)") (auto simp: within_def getHelper_tbl_None getHelper_Some split: if_splits)

lemma within_Get [simp]: "within K s \<Longrightarrow> within K (snd (Get e k s))"
  using within_getHelper [of K s e k True] by (simp add: Get_def)

lemma within_GetNoTouch [simp]: "within K s \<Longrightarrow> within K (snd (GetNoTouch e k s))"
  using within_getHelper [of K s e k False] by (simp add: GetNoTouch_def)

lemma within_GetDel [simp]: "within K s \<Longrightarrow> within K (snd (GetDel e k s))"
  by (simp add: GetDel_eq)

lemma within_NewObj [simp]: "within K s \<Longrightarrow> within K (snd (NewObj e v d ty s))"
  using NewObj_props(3) [of e v d ty s "fst (NewObj e v d ty s)" "snd (NewObj e v d ty s)"] by (simp add: within_def)

lemma within_Create [simp]: "within K s \<Longrightarrow> within K (snd (CreateObjectFromValue e t d s))"
  by (simp add: CreateObject_eq)

lemma within_Put [simp]: "k \<in> K \<Longrightarrow> within K s \<Longrightarrow> within K (Put e k p o' s)"
  by (auto simp: within_def Put_def putHelper_tbl subset_iff dom_def split: if_splits)

lemma within_setValue [simp]: "within K s \<Longrightarrow> within K (setValue p v s)"
  by (simp add: within_def)

lemma within_expiry [simp]:
  "within K s \<Longrightarrow> within K (SetUnixTimeExpiry p t s)" "within K s \<Longrightarrow> within K (DelExpiry p s)"
  "within K s \<Longrightarrow> within K (SetExpiry e p d s)"
  by (simp_all add: within_def SetExpiry_Unix)

lemma within_Evaluate [simp]: "within K s \<Longrightarrow> within K (snd (EvaluateAndSetExpiry e subs t k s))"
  using within_Get [of K s e k]
  by (cases rule: EvaluateAndSetExpiry_cases [where e = e and subs = subs and t = t and k = k and s = s]) auto

lemma within_Reset [simp]: "within K (Reset s)"
  by (simp add: within_def Reset_def NewRegMap_def RegGet_M)

lemma within_fold:
  assumes "\<And>k n s. within K s \<Longrightarrow> within K (snd (f k (n, s)))"
  shows "within K s \<Longrightarrow> within K (snd (fold f ks (n, s)))"
proof (induction ks arbitrary: n s)
  case (Cons k ks)
  from Cons.IH [of "snd (f k (n, s))" "fst (f k (n, s))"] assms [OF Cons.prems] show ?case by simp
qed simp

lemma keeps_bind [intro!]: "(\<And>x. m = Ret x \<Longrightarrow> keeps I (f x)) \<Longrightarrow> keeps I (bind_outcome m f)"
  by (cases m) auto

section \<open>Evaluations stay within the keys\<close>

named_theorems evals_within \<open>an evaluation stores at most its key\<close>

lemma strings_within [evals_within]:
  assumes "within K s" and "C_Args c ! 0 \<in> K"
  shows "keeps (within K) (evalGET e c s)" and "keeps (within K) (evalGETSET e c s)"
    and "keeps (within K) (evalGETDEL e c s)" and "keeps (within K) (evalGETEX e c s)"
    and "keeps (within K) (evalSET e c s)"
  using assms
  by (auto simp: evalGET_def evalGETSET_def evalGETDEL_def evalGETEX_def evalSET_def getex_reply_def set_store_def
      Let_def case_prod_unfold split: option.split sum.split)

lemma counters_within [evals_within]:
  assumes "within K s" and "C_Args c ! 0 \<in> K"
  shows "keeps (within K) (evalINCR e c s)" and "keeps (within K) (evalINCRBY e c s)"
    and "keeps (within K) (evalDECR e c s)" and "keeps (within K) (evalDECRBY e c s)"
proof -
  have "within K (snd (doIncr e c d s))" for d
    using assms by (auto simp: doIncr_def Let_def case_prod_unfold split: option.split Value.split)
  note [simp] = this
  show "keeps (within K) (evalINCR e c s)" and "keeps (within K) (evalINCRBY e c s)"
    and "keeps (within K) (evalDECR e c s)" and "keeps (within K) (evalDECRBY e c s)"
    using assms(1) by (auto simp: evalINCR_def evalINCRBY_def evalDECR_def evalDECRBY_def Let_def
        case_prod_unfold split: option.split sum.split)
qed

lemma keys_within [evals_within]:
  assumes "within K s"
  shows "keeps (within K) (evalEXPIRE e c s)" and "keeps (within K) (evalEXPIREAT e c s)"
    and "keeps (within K) (evalEXPIRETIME e c s)" and "keeps (within K) (evalTTL e c s)"
    and "keeps (within K) (evalTYPE e c s)" and "keeps (within K) (evalFLUSHDB e c s)"
    and "keeps (within K) (evalECHO e c s)" and "keeps (within K) (evalPING e c s)"
    and "keeps (within K) (evalUNWATCH e c s)" and "keeps (within K) (snd (evalHANDSHAKE e c s))"
  using assms
  by (auto simp: evalEXPIRE_def evalEXPIREAT_def evalEXPIRETIME_def evalTTL_def evalTYPE_def evalFLUSHDB_def
      evalECHO_def evalPING_def evalUNWATCH_def evalHANDSHAKE_def Let_def case_prod_unfold
      split: option.split sum.split)

lemma multi_within [evals_within]:
  assumes "within K s"
  shows "keeps (within K) (evalDEL e c s)" and "keeps (within K) (evalEXISTS e c s)"
    and "keeps (within K) (evalKEYS e c s)"
  using assms
  by (auto simp: evalDEL_def evalEXISTS_def evalKEYS_def Let_def case_prod_unfold
      intro!: within_fold split: option.split sum.split outcome.split)

lemma hashes_within [evals_within]:
  assumes "within K s" and "C_Args c ! 0 \<in> K"
  shows "keeps (within K) (evalHSET e c s)" and "keeps (within K) (evalHGET e c s)"
    and "keeps (within K) (evalHGETALL e c s)"
  using assms
  by (auto simp: evalHSET_def evalHGET_def evalHGETALL_def hset_put_def hgetall_reply_def Let_def case_prod_unfold
      split: option.split Value.split)

lemma with_zset_within:
  assumes "within K s" and "\<And>p z s1. within K s1 \<Longrightarrow> keeps (within K) (f p z s1)"
  shows "keeps (within K) (with_zset e k absent wrong f s)"
  using assms by (auto simp: with_zset_def case_prod_unfold split: option.split Value.split)

lemma zsets_within [evals_within]:
  assumes "within K s" and "C_Args c ! 0 \<in> K"
  shows "keeps (within K) (evalZCARD zo e c s)" and "keeps (within K) (evalZCOUNT zo e c s)"
    and "keeps (within K) (evalZREM zo e c s)" and "keeps (within K) (evalZRANGE zo e c s)"
    and "keeps (within K) (evalZRANK zo e c s)" and "keeps (within K) (evalZPOPMAX zo e c s)"
    and "keeps (within K) (evalZPOPMIN zo e c s)"
  using assms
  by (auto simp: evalZCARD_def evalZCOUNT_def evalZREM_def evalZRANGE_def evalZRANK_def evalZPOPMAX_def
      evalZPOPMIN_def Let_def case_prod_unfold intro!: with_zset_within split: option.split)

lemma zadd_reply_within: "within K s \<Longrightarrow> keeps (within K) (zadd_reply zo prs ps p z s)"
  by (auto simp: zadd_reply_def split: prod.split sum.split)

lemma zadd_within [evals_within]:
  assumes "within K s" and "C_Args c ! 0 \<in> K"
  shows "keeps (within K) (evalZADD zo e c s)"
  using assms
  by (auto simp: evalZADD_def zadd_key_def Let_def case_prod_unfold intro!: zadd_reply_within
      split: option.split Value.split)

lemma with_fingerprint_keeps: "keeps I m \<Longrightarrow> keeps I (with_fingerprint e c onErr m)"
  by (cases m) (auto simp: with_fingerprint_def split: option.split)

lemma watch_within [evals_within]:
  assumes "within K s" and "C_Args c ! 0 \<in> K"
  shows "keeps (within K) (evalGETWATCH e c s)" and "keeps (within K) (evalHGETWATCH e c s)"
    and "keeps (within K) (evalHGETALLWATCH e c s)" and "keeps (within K) (evalZCARDWATCH zo e c s)"
    and "keeps (within K) (evalZCOUNTWATCH zo e c s)" and "keeps (within K) (evalZRANGEWATCH zo e c s)"
    and "keeps (within K) (evalZRANKWATCH zo e c s)"
  unfolding evalGETWATCH_def evalHGETWATCH_def evalHGETALLWATCH_def evalZCARDWATCH_def evalZCOUNTWATCH_def
    evalZRANGEWATCH_def evalZRANKWATCH_def
  by (rule with_fingerprint_keeps, rule evals_within, rule assms, rule assms)+

section \<open>The system invariant\<close>

definition shard_of :: "(string \<Rightarrow> 64 word) \<Rightarrow> nat \<Rightarrow> string \<Rightarrow> nat" where
  "shard_of h n key = unat (h key) mod n"

definition shard_inv ::
  "('z \<Rightarrow> bool) \<Rightarrow> int \<Rightarrow> (string \<Rightarrow> 64 word) \<Rightarrow> nat \<Rightarrow> nat \<Rightarrow> 'z Store \<Rightarrow> bool" where
  "shard_inv ok mk h n i s \<longleftrightarrow> cmd_inv ok mk s \<and> within {k. shard_of h n k = i} s"

definition sys_inv :: "('z \<Rightarrow> bool) \<Rightarrow> int \<Rightarrow> (string \<Rightarrow> 64 word) \<Rightarrow> nat \<Rightarrow> 'z ShardManager \<Rightarrow> bool" where
  "sys_inv ok mk h n sm \<longleftrightarrow>
     length (sm_shards sm) = n \<and> 0 < n \<and> n \<le> 127 \<and> (\<forall>i<n. shard_inv ok mk h n i (shard_store sm i))"

lemma sys_invD:
  assumes "sys_inv ok mk h n sm"
  shows "length (sm_shards sm) = n" and "0 < n" and "n \<le> 127"
    and "i < n \<Longrightarrow> cmd_inv ok mk (shard_store sm i)"
    and "i < n \<Longrightarrow> within {k. shard_of h n k = i} (shard_store sm i)"
  using assms by (auto simp: sys_inv_def shard_inv_def)

lemma sys_inv_set:
  "sys_inv ok mk h n sm \<Longrightarrow> i < n \<Longrightarrow> shard_inv ok mk h n i s \<Longrightarrow> sys_inv ok mk h n (set_shard_store i s sm)"
  by (simp add: sys_inv_def)

lemma GetShard_sys:
  assumes "sys_inv ok mk h n sm" and "env_xxhash e = h"
  shows "GetShardForKey e key sm = Ret (shard_of h n key)" and "shard_of h n key < n"
  using GetShardForKey_exact [of sm e key] assms by (auto simp: sys_inv_def shard_of_def)

lemma on_store_keeps:
  assumes "sys_inv ok mk h n sm" and "i < n"
    and "keeps (cmd_inv ok mk) (f (shard_store sm i))" and "keeps (within {k. shard_of h n k = i}) (f (shard_store sm i))"
  shows "keeps (sys_inv ok mk h n) (on_store i f sm)"
  using assms(3,4) by (cases "f (shard_store sm i)")
    (auto simp: on_store_def shard_inv_def intro!: sys_inv_set [OF assms(1,2)])

lemma on_store_Panic: "on_store i f sm = Panic \<longleftrightarrow> f (shard_store sm i) = Panic"
  by (cases "f (shard_store sm i)") (auto simp: on_store_def split: prod.split)

lemma safe_iff: "safe I m \<longleftrightarrow> keeps I m \<and> m \<noteq> Panic"
  by (cases m) (auto simp: safe_def keeps_def)

lemma on_key_keeps:
  assumes s: "sys_inv ok mk h n sm" and e: "env_xxhash e = h"
    and f: "\<And>s. cmd_inv ok mk s \<Longrightarrow> keeps (cmd_inv ok mk) (f s)"
    and w: "\<And>K s. within K s \<Longrightarrow> key \<in> K \<Longrightarrow> keeps (within K) (f s)"
  shows "keeps (sys_inv ok mk h n) (on_key e key f sm)"
  using GetShard_sys [OF s e, of key] sys_invD(4,5) [OF s, of "shard_of h n key"]
  by (auto simp: on_key_def intro!: on_store_keeps [OF s] f w)

lemma on_key_safe:
  assumes s: "sys_inv ok mk h n sm" and e: "env_xxhash e = h"
    and f: "\<And>s. cmd_inv ok mk s \<Longrightarrow> safe (cmd_inv ok mk) (f s)"
    and w: "\<And>K s. within K s \<Longrightarrow> key \<in> K \<Longrightarrow> keeps (within K) (f s)"
  shows "safe (sys_inv ok mk h n) (on_key e key f sm)"
  unfolding safe_iff
proof
  show "keeps (sys_inv ok mk h n) (on_key e key f sm)" by (rule on_key_keeps [OF s e safe_keeps [OF f] w])
  show "on_key e key f sm \<noteq> Panic"
    using GetShard_sys [OF s e, of key] f [OF sys_invD(4) [OF s], of "shard_of h n key"]
    by (auto simp: on_key_def on_store_Panic)
qed

text \<open>What an execution on one key needs of the environment.\<close>

definition env_ok :: "(string \<Rightarrow> 64 word) \<Rightarrow> env \<Rightarrow> bool" where
  "env_ok h e \<longleftrightarrow> range_ok e \<and> env_xxhash e = h \<and>
     (\<forall>S. finite S \<longrightarrow> distinct (env_rangeN e S) \<and> set (env_rangeN e S) = S)"

lemma env_okD [simp]:
  assumes "env_ok h e"
  shows "range_ok e" and "env_xxhash e = h" and "finite S \<Longrightarrow> set (env_rangeN e S) = S"
    and "finite S \<Longrightarrow> distinct (env_rangeN e S)"
  using assms by (auto simp: env_ok_def)

text \<open>Every evaluation answers a result, so that the watch variants do not dereference nil.\<close>

definition answers :: "'z reply \<Rightarrow> bool" where
  "answers m \<longleftrightarrow> (\<forall>r err s. m = Ret ((r, err), s) \<longrightarrow> r \<noteq> None)"

lemma answers_simps [simp]: "answers (Ret ((Some r, err), s))" "answers Panic"
  by (auto simp: answers_def)

lemma answers_bind [intro!]: "(\<And>x. m = Ret x \<Longrightarrow> answers (f x)) \<Longrightarrow> answers (bind_outcome m f)"
  by (cases m) auto

lemma with_zset_answers [intro!]: "(\<And>p z s. answers (f p z s)) \<Longrightarrow> answers (with_zset e k absent wrong f s)"
  by (auto simp: with_zset_def split: option.split Value.split prod.split)

lemma watchable_answers:
  "answers (evalGET e c s)" "answers (evalHGET e c s)" "answers (evalHGETALL e c s)" "answers (evalZCARD zo e c s)"
  "answers (evalZCOUNT zo e c s)" "answers (evalZRANGE zo e c s)" "answers (evalZRANK zo e c s)"
  by (auto simp: evalGET_def evalHGET_def evalHGETALL_def evalZCARD_def evalZCOUNT_def evalZRANGE_def evalZRANK_def
      hgetall_reply_def Let_def split: option.split prod.split Value.split)

lemma with_fingerprint_safe: "safe I m \<Longrightarrow> answers m \<Longrightarrow> safe I (with_fingerprint e c onErr m)"
  by (fastforce simp: safe_def with_fingerprint_def answers_def split: option.split)

section \<open>Executions on one key\<close>

named_theorems exec_safe \<open>an execution returns and keeps the system invariant\<close>

lemma strings_exec_safe [exec_safe]:
  assumes "sys_inv ok mk h n sm" and "env_ok h e"
  shows "safe (sys_inv ok mk h n) (executeGET e c sm)" and "safe (sys_inv ok mk h n) (executeGETSET e c sm)"
    and "safe (sys_inv ok mk h n) (executeGETDEL e c sm)" and "safe (sys_inv ok mk h n) (executeINCR e c sm)"
    and "safe (sys_inv ok mk h n) (executeINCRBY e c sm)" and "safe (sys_inv ok mk h n) (executeDECR e c sm)"
    and "safe (sys_inv ok mk h n) (executeDECRBY e c sm)"
  using assms by (auto simp: executeGET_def executeGETSET_def executeGETDEL_def executeINCR_def executeINCRBY_def
      executeDECR_def executeDECRBY_def
      intro!: on_key_safe [OF assms(1)] evalGET_safe evalGETSET_safe evalGETDEL_safe counters_safe intro: evals_within)

lemma executeHANDSHAKE_on_key:
  "snd (executeHANDSHAKE e c sm) = on_key e ''-'' (\<lambda>s. snd (evalHANDSHAKE e c s)) sm"
  by (simp add: executeHANDSHAKE_def on_key_def split: outcome.split)

lemma keys_exec_safe [exec_safe]:
  assumes "sys_inv ok mk h n sm" and "env_ok h e"
  shows "safe (sys_inv ok mk h n) (executeEXPIRE e c sm)" and "safe (sys_inv ok mk h n) (executeEXPIREAT e c sm)"
    and "safe (sys_inv ok mk h n) (executeEXPIRETIME e c sm)" and "safe (sys_inv ok mk h n) (executeTTL e c sm)"
    and "safe (sys_inv ok mk h n) (executeTYPE e c sm)" and "safe (sys_inv ok mk h n) (executeECHO e c sm)"
    and "safe (sys_inv ok mk h n) (executePING e c sm)" and "safe (sys_inv ok mk h n) (executeUNWATCH e c sm)"
    and "safe (sys_inv ok mk h n) (snd (executeHANDSHAKE e c sm))"
  using assms by (auto simp: executeEXPIRE_def executeEXPIREAT_def executeEXPIRETIME_def executeTTL_def
      executeTYPE_def executeECHO_def executePING_def executeUNWATCH_def executeHANDSHAKE_on_key
      intro!: on_key_safe [OF assms(1)] evalEXPIRE_safe evalEXPIREAT_safe evalEXPIRETIME_safe evalTTL_safe evalTYPE_safe
        connection_safe intro: evals_within)

lemma hashes_exec_safe [exec_safe]:
  assumes "sys_inv ok mk h n sm" and "env_ok h e"
  shows "safe (sys_inv ok mk h n) (executeHSET e c sm)" and "safe (sys_inv ok mk h n) (executeHGET e c sm)"
    and "safe (sys_inv ok mk h n) (executeHGETALL e c sm)"
  using assms by (auto simp: executeHSET_def executeHGET_def executeHGETALL_def
      intro!: on_key_safe [OF assms(1)] evalHSET_safe evalHGET_safe evalHGETALL_safe intro: evals_within)

lemma zsets_exec_safe [exec_safe]:
  assumes "sys_inv ok mk h n sm" and "env_ok h e" and l: "zset_laws zo ok m"
  shows "safe (sys_inv ok mk h n) (executeZCARD zo e c sm)" and "safe (sys_inv ok mk h n) (executeZCOUNT zo e c sm)"
    and "safe (sys_inv ok mk h n) (executeZRANGE zo e c sm)" and "safe (sys_inv ok mk h n) (executeZRANK zo e c sm)"
    and "safe (sys_inv ok mk h n) (executeZREM zo e c sm)"
  using assms by (auto simp: executeZCARD_def executeZCOUNT_def executeZRANGE_def executeZRANK_def executeZREM_def
      intro!: on_key_safe [OF assms(1)] zset_readers_safe [OF l] evalZREM_safe [OF l] intro: evals_within)

lemma watch_exec_safe [exec_safe]:
  assumes "sys_inv ok mk h n sm" and "env_ok h e" and l: "zset_laws zo ok m"
  shows "safe (sys_inv ok mk h n) (executeGETWATCH e c sm)"
    and "length (C_Args c) \<noteq> 1 \<Longrightarrow> safe (sys_inv ok mk h n) (executeHGETWATCH e c sm)"
    and "safe (sys_inv ok mk h n) (executeHGETALLWATCH e c sm)"
    and "safe (sys_inv ok mk h n) (executeZCARDWATCH zo e c sm)"
    and "safe (sys_inv ok mk h n) (executeZCOUNTWATCH zo e c sm)"
    and "safe (sys_inv ok mk h n) (executeZRANGEWATCH zo e c sm)"
    and "length (C_Args c) \<noteq> 1 \<Longrightarrow> safe (sys_inv ok mk h n) (executeZRANKWATCH zo e c sm)"
proof -
  note d = evalGETWATCH_def evalHGETWATCH_def evalHGETALLWATCH_def evalZCARDWATCH_def evalZCOUNTWATCH_def
    evalZRANGEWATCH_def evalZRANKWATCH_def
  have two: "2 \<le> length (C_Args c)" if "C_Args c \<noteq> []" "length (C_Args c) \<noteq> 1"
    using that by (cases "length (C_Args c)") auto
  have "safe (cmd_inv ok mk) (evalGETWATCH e c s)" if "cmd_inv ok mk s" for s
    unfolding d by (rule with_fingerprint_safe [OF evalGET_safe [OF that] watchable_answers(1)])
  moreover have "safe (cmd_inv ok mk) (evalHGETWATCH e c s)" if "cmd_inv ok mk s" "2 \<le> length (C_Args c)" for s
    unfolding d by (rule with_fingerprint_safe [OF evalHGET_safe [OF that] watchable_answers(2)])
  moreover have "safe (cmd_inv ok mk) (evalHGETALLWATCH e c s)" if "cmd_inv ok mk s" "C_Args c \<noteq> []" for s
    unfolding d by (rule with_fingerprint_safe [OF evalHGETALL_safe [OF that] watchable_answers(3)])
  moreover have "safe (cmd_inv ok mk) (evalZCARDWATCH zo e c s)" "safe (cmd_inv ok mk) (evalZCOUNTWATCH zo e c s)"
    "safe (cmd_inv ok mk) (evalZRANGEWATCH zo e c s)" if "cmd_inv ok mk s" for s
    unfolding d using that
    by (auto intro!: with_fingerprint_safe zset_readers_safe [OF l] watchable_answers)
  moreover have "safe (cmd_inv ok mk) (evalZRANKWATCH zo e c s)" if "cmd_inv ok mk s" "2 \<le> length (C_Args c)" for s
    unfolding d by (rule with_fingerprint_safe [OF zset_readers_safe(4) [OF l that] watchable_answers(7)])
  ultimately show "safe (sys_inv ok mk h n) (executeGETWATCH e c sm)"
    and "length (C_Args c) \<noteq> 1 \<Longrightarrow> safe (sys_inv ok mk h n) (executeHGETWATCH e c sm)"
    and "safe (sys_inv ok mk h n) (executeHGETALLWATCH e c sm)"
    and "safe (sys_inv ok mk h n) (executeZCARDWATCH zo e c sm)"
    and "safe (sys_inv ok mk h n) (executeZCOUNTWATCH zo e c sm)"
    and "safe (sys_inv ok mk h n) (executeZRANGEWATCH zo e c sm)"
    and "length (C_Args c) \<noteq> 1 \<Longrightarrow> safe (sys_inv ok mk h n) (executeZRANKWATCH zo e c sm)"
    using assms two by (auto simp: executeGETWATCH_def executeHGETWATCH_def executeHGETALLWATCH_def
        executeZCARDWATCH_def executeZCOUNTWATCH_def executeZRANGEWATCH_def executeZRANKWATCH_def
        intro!: on_key_safe [OF assms(1)] intro: evals_within)
qed

text \<open>The commands that can panic: a dangling parameter, or an absurd pop count.\<close>

lemma dangling_exec_safe [exec_safe]:
  assumes "sys_inv ok mk h n sm" and "env_ok h e" and l: "zset_laws zo ok m"
  shows "\<not> (2 \<le> length (C_Args c) \<and> dangling (drop 2 (C_Args c))) \<Longrightarrow> safe (sys_inv ok mk h n) (executeSET e c sm)"
    and "\<not> dangling (drop 1 (C_Args c)) \<Longrightarrow> safe (sys_inv ok mk h n) (executeGETEX e c sm)"
    and "\<not> (3 \<le> length (C_Args c) \<and> dangling (drop 1 (C_Args c))) \<Longrightarrow>
      safe (sys_inv ok mk h n) (executeZADD zo e c sm)"
    and "(\<And>i. pop_count c = Some i \<Longrightarrow> make_ok i) \<Longrightarrow> safe (sys_inv ok mk h n) (executeZPOPMIN zo e c sm)"
    and "(\<And>i. pop_count c = Some i \<Longrightarrow> make_ok i) \<Longrightarrow> safe (sys_inv ok mk h n) (executeZPOPMAX zo e c sm)"
proof -
  have r: "range_ok e" using assms(2) by simp
  show "\<not> (2 \<le> length (C_Args c) \<and> dangling (drop 2 (C_Args c))) \<Longrightarrow> safe (sys_inv ok mk h n) (executeSET e c sm)"
    using assms evalSET_keeps [OF _ r, of ok mk _ c]
    by (auto simp: executeSET_def safe_iff [of "cmd_inv ok mk"] intro!: on_key_safe [OF assms(1)] intro: evals_within)
  show "\<not> dangling (drop 1 (C_Args c)) \<Longrightarrow> safe (sys_inv ok mk h n) (executeGETEX e c sm)"
    using assms evalGETEX_keeps [of ok mk _ e c]
    by (auto simp: executeGETEX_def safe_iff [of "cmd_inv ok mk"] intro!: on_key_safe [OF assms(1)] intro: evals_within)
  show "\<not> (3 \<le> length (C_Args c) \<and> dangling (drop 1 (C_Args c))) \<Longrightarrow> safe (sys_inv ok mk h n) (executeZADD zo e c sm)"
    using assms evalZADD_keeps [OF l _ r, of mk _ c]
    by (auto simp: executeZADD_def safe_iff [of "cmd_inv ok mk"] intro!: on_key_safe [OF assms(1)] intro: evals_within)
  show "(\<And>i. pop_count c = Some i \<Longrightarrow> make_ok i) \<Longrightarrow> safe (sys_inv ok mk h n) (executeZPOPMIN zo e c sm)"
    and "(\<And>i. pop_count c = Some i \<Longrightarrow> make_ok i) \<Longrightarrow> safe (sys_inv ok mk h n) (executeZPOPMAX zo e c sm)"
    using assms by (auto simp: executeZPOPMIN_def executeZPOPMAX_def
        intro!: on_key_safe [OF assms(1)] zpop_safe [OF l] intro: evals_within)
qed

end
