(* ===== verification/MultiShard.thy ===== *)
theory MultiShard
  imports ExecProps
begin

text \<open>
  The commands that visit several shards. \<open>sysdb\<close> is the database as a whole: under the system
  invariant it is what the shards store together, each key on its own shard. \<^verbatim>\<open>DEL\<close>, \<^verbatim>\<open>EXISTS\<close>,
  \<^verbatim>\<open>KEYS\<close> and \<^verbatim>\<open>FLUSHDB\<close> act on it as their single-store evaluations act on one store.
\<close>

section \<open>The database as a whole\<close>

definition sysdb :: "(string \<Rightarrow> 64 word) \<Rightarrow> nat \<Rightarrow> 'z ShardManager \<Rightarrow> string \<rightharpoonup> 'z entry" where
  "sysdb h n sm k = db (shard_store sm (shard_of h n k)) k"

definition sysview :: "env \<Rightarrow> nat \<Rightarrow> 'z ShardManager \<Rightarrow> string \<rightharpoonup> 'z entry" where
  "sysview e n sm k = view e (shard_store sm (shard_of (env_xxhash e) n k)) k"

lemma sysview_eq: "sysview e n sm = live (env_now e) (sysdb (env_xxhash e) n sm)"
  by (rule ext) (simp add: sysview_def sysdb_def view_def live_def)

lemma shard_dom:
  assumes "sys_inv ok mk h n sm" and "i < n"
  shows "dom (db (shard_store sm i)) = {k \<in> dom (sysdb h n sm). shard_of h n k = i}"
proof -
  have d: "dom (db s) = dom (tbl s)" for s :: "'a Store" by (simp add: db_def dom_def del: not_None_eq)
  have "dom (db (shard_store sm i)) \<subseteq> {k. shard_of h n k = i}"
    using sys_invD(5) [OF assms] by (simp add: within_def d)
  then show ?thesis by (auto simp: sysdb_def)
qed

lemma sysdb_finite:
  assumes "sys_inv ok mk h n sm"
  shows "finite (dom (sysdb h n sm))"
proof -
  have "dom (sysdb h n sm) \<subseteq> (\<Union>i<n. dom (db (shard_store sm i)))"
    using sys_invD(2) [OF assms] by (fastforce simp: sysdb_def shard_of_def)
  moreover have "finite (\<Union>i<n. dom (db (shard_store sm i)))"
    using finite_dom_db [OF cmd_inv_wf [OF sys_invD(4) [OF assms]]] by simp
  ultimately show ?thesis by (rule finite_subset)
qed

lemma sysdb_set:
  assumes "sys_inv ok mk h n sm" and "i < n"
  shows "sysdb h n (set_shard_store i s sm) k = (if shard_of h n k = i then db s k else sysdb h n sm k)"
  using sys_invD(1) [OF assms(1)] assms(2) by (auto simp: sysdb_def)

lemma sysview_set:
  assumes "sys_inv ok mk (env_xxhash e) n sm" and "i < n"
  shows "sysview e n (set_shard_store i s sm) k =
    (if shard_of (env_xxhash e) n k = i then view e s k else sysview e n sm k)"
  using sys_invD(1) [OF assms(1)] assms(2) by (auto simp: sysview_def)

section \<open>DEL\<close>

lemma evalDEL_shard:
  assumes s: "sys_inv ok mk h n sm" and i: "i < n" and c: "C_Args c \<noteq> []"
  shows "\<exists>sm'. on_store i (evalDEL e c) sm =
      Ret ((Some (newDELRes (int (card {k \<in> set (C_Args c) \<inter> dom (sysdb h n sm). shard_of h n k = i}))), None), sm') \<and>
    sys_inv ok mk h n sm' \<and>
    sysdb h n sm' = (\<lambda>k. if k \<in> set (C_Args c) \<and> shard_of h n k = i then None else sysdb h n sm k)"
proof -
  let ?s = "shard_store sm i"
  from evalDEL_spec [OF sys_invD(4) [OF s i] c, of e] obtain s' where
    ev: "evalDEL e c ?s = Ret ((Some (newDELRes (int (card (set (C_Args c) \<inter> dom (db ?s))))), None), s')"
      "cmd_inv ok mk s'" "db s' = (\<lambda>k. if k \<in> set (C_Args c) then None else db ?s k)" by blast
  have w: "within {k. shard_of h n k = i} s'"
    using multi_within(1) [OF sys_invD(5) [OF s i], of e c] ev(1) by simp
  have "set (C_Args c) \<inter> dom (db ?s) = {k \<in> set (C_Args c) \<inter> dom (sysdb h n sm). shard_of h n k = i}"
    using shard_dom [OF s i] by auto
  with ev(1) have 1: "on_store i (evalDEL e c) sm = Ret ((Some (newDELRes (int (card
      {k \<in> set (C_Args c) \<inter> dom (sysdb h n sm). shard_of h n k = i}))), None), set_shard_store i s' sm)"
    by (simp add: on_store_def)
  have 2: "sys_inv ok mk h n (set_shard_store i s' sm)"
    using ev(2) w by (intro sys_inv_set [OF s i]) (simp add: shard_inv_def)
  have 3: "sysdb h n (set_shard_store i s' sm) =
      (\<lambda>k. if k \<in> set (C_Args c) \<and> shard_of h n k = i then None else sysdb h n sm k)"
    by (rule ext) (auto simp: sysdb_set [OF s i] ev(3), auto simp: sysdb_def)
  from 1 2 3 show ?thesis by blast
qed

lemma del_shards_spec:
  assumes c: "C_Args c \<noteq> []" and e: "env_xxhash e = h" and s: "sys_inv ok mk h n sm"
  shows "\<exists>sm'. del_shards e c keys cnt sm =
      Ret ((Some (newDELRes (cnt + int (card {k \<in> set (C_Args c) \<inter> dom (sysdb h n sm).
        shard_of h n k \<in> shard_of h n ` set keys}))), None), sm') \<and>
    sys_inv ok mk h n sm' \<and>
    sysdb h n sm' = (\<lambda>k. if k \<in> set (C_Args c) \<and> shard_of h n k \<in> shard_of h n ` set keys then None
      else sysdb h n sm k)"
  using s
proof (induction keys arbitrary: cnt sm)
  case (Cons key keys)
  let ?i = "shard_of h n key"
  let ?A = "set (C_Args c) \<inter> dom (sysdb h n sm)"
  let ?D = "{k \<in> ?A. shard_of h n k = ?i}"
  note g = GetShard_sys [OF Cons.prems e, of key]
  from evalDEL_shard [OF Cons.prems g(2) c, of e] obtain sm1 where
    ev: "on_store ?i (evalDEL e c) sm = Ret ((Some (newDELRes (int (card ?D))), None), sm1)"
      "sys_inv ok mk h n sm1" and d1: "sysdb h n sm1 = (\<lambda>k. if k \<in> set (C_Args c) \<and> shard_of h n k = ?i then None
        else sysdb h n sm k)" by blast
  let ?R = "{k \<in> set (C_Args c) \<inter> dom (sysdb h n sm1). shard_of h n k \<in> shard_of h n ` set keys}"
  from Cons.IH [OF ev(2), of "cnt + int (card ?D)"] obtain sm' where
    ih: "del_shards e c keys (cnt + int (card ?D)) sm1 = Ret ((Some (newDELRes (cnt + int (card ?D) + int (card ?R))), None), sm')"
      "sys_inv ok mk h n sm'" "sysdb h n sm' = (\<lambda>k. if k \<in> set (C_Args c) \<and> shard_of h n k \<in> shard_of h n ` set keys
        then None else sysdb h n sm1 k)" by blast
  have f: "finite ?A" by simp
  have "{k \<in> ?A. shard_of h n k \<in> shard_of h n ` set (key # keys)} = ?D \<union> ?R" by (auto simp: d1 dom_def)
  moreover have "?D \<inter> ?R = {}" by (auto simp: d1 dom_def)
  ultimately have "card {k \<in> ?A. shard_of h n k \<in> shard_of h n ` set (key # keys)} = card ?D + card ?R"
    by (simp add: card_Un_disjoint)
  then show ?case using g ev ih d1
    by (auto simp: on_key_def del_count_def newDELRes_def ok_res_def algebra_simps fun_eq_iff)
qed simp

lemma executeDEL_spec:
  assumes s: "sys_inv ok mk h n sm" and e: "env_xxhash e = h" and c: "C_Args c \<noteq> []"
  shows "\<exists>sm'. executeDEL e c sm = Ret ((Some (newDELRes (int (card (set (C_Args c) \<inter> dom (sysdb h n sm))))), None), sm') \<and>
    sys_inv ok mk h n sm' \<and> sysdb h n sm' = (\<lambda>k. if k \<in> set (C_Args c) then None else sysdb h n sm k)"
proof -
  have "{k \<in> set (C_Args c) \<inter> dom (sysdb h n sm). shard_of h n k \<in> shard_of h n ` set (C_Args c)} =
    set (C_Args c) \<inter> dom (sysdb h n sm)" by auto
  moreover have "(\<lambda>k. if k \<in> set (C_Args c) \<and> shard_of h n k \<in> shard_of h n ` set (C_Args c) then None
    else sysdb h n sm k) = (\<lambda>k. if k \<in> set (C_Args c) then None else sysdb h n sm k)" by (auto simp: fun_eq_iff)
  ultimately show ?thesis
    using del_shards_spec [OF c e s, of "C_Args c" 0] c by (simp add: executeDEL_def Suc_le_eq)
qed

section \<open>EXISTS\<close>

lemma group_keys_spec:
  assumes s: "sys_inv ok mk h n sm" and e: "env_xxhash e = h"
  shows "group_keys e sm keys m = Ret (\<lambda>i. case filter (\<lambda>k. shard_of h n k = i) keys of
    [] \<Rightarrow> m i | ks \<Rightarrow> Some ((case m i of None \<Rightarrow> [] | Some xs \<Rightarrow> xs) @ ks))"
proof (induction keys arbitrary: m)
  case (Cons key keys)
  show ?case
    using GetShard_sys(1) [OF s e, of key] Cons.IH
    by (auto simp: fun_eq_iff split: list.split option.split)
qed simp

lemma evalEXISTS_shard:
  assumes s: "sys_inv ok mk (env_xxhash e) n sm" and i: "i < n" and c: "C_Args c \<noteq> []"
    and at: "\<And>k. k \<in> set (C_Args c) \<Longrightarrow> shard_of (env_xxhash e) n k = i"
  shows "\<exists>sm'. on_store i (evalEXISTS e c) sm =
      Ret ((Some (newEXISTSRes (int (length (filter (\<lambda>k. sysview e n sm k \<noteq> None) (C_Args c))))), None), sm') \<and>
    sys_inv ok mk (env_xxhash e) n sm' \<and> sysview e n sm' = sysview e n sm"
proof -
  let ?s = "shard_store sm i"
  from evalEXISTS_spec [OF sys_invD(4) [OF s i] c, of e] obtain s' where
    ev: "evalEXISTS e c ?s = Ret ((Some (newEXISTSRes (int (length (filter (\<lambda>k. view e ?s k \<noteq> None) (C_Args c))))), None), s')"
      "cmd_inv ok mk s'" "view e s' = view e ?s" by blast
  have w: "within {k. shard_of (env_xxhash e) n k = i} s'"
    using multi_within(2) [OF sys_invD(5) [OF s i], of e c] ev(1) by simp
  have "filter (\<lambda>k. view e ?s k \<noteq> None) (C_Args c) = filter (\<lambda>k. sysview e n sm k \<noteq> None) (C_Args c)"
    by (rule filter_cong) (simp_all add: sysview_def at)
  with ev(1) have "on_store i (evalEXISTS e c) sm = Ret ((Some (newEXISTSRes
      (int (length (filter (\<lambda>k. sysview e n sm k \<noteq> None) (C_Args c))))), None), set_shard_store i s' sm)"
    by (simp add: on_store_def)
  moreover have "sys_inv ok mk (env_xxhash e) n (set_shard_store i s' sm)"
    using ev(2) w by (intro sys_inv_set [OF s i]) (simp add: shard_inv_def)
  moreover have "sysview e n (set_shard_store i s' sm) = sysview e n sm"
    using sys_invD(1) [OF s] i by (intro ext) (auto simp: sysview_set [OF s i] ev(3) sysview_def)
  ultimately show ?thesis by blast
qed

lemma exists_shards_spec:
  assumes "sys_inv ok mk (env_xxhash e) n sm"
    and "\<And>i keys. (i, keys) \<in> set gs \<Longrightarrow> i < n \<and> keys \<noteq> [] \<and> (\<forall>k\<in>set keys. shard_of (env_xxhash e) n k = i)"
  shows "\<exists>c' sm'. exists_shards e gs c cnt sm =
      (c', Ret ((Some (newEXISTSRes (cnt + int (length (filter (\<lambda>k. sysview e n sm k \<noteq> None) (concat (map snd gs)))))), None), sm')) \<and>
    sys_inv ok mk (env_xxhash e) n sm' \<and> sysview e n sm' = sysview e n sm"
  using assms
proof (induction gs arbitrary: c cnt sm)
  case (Cons g gs)
  obtain i keys where g: "g = (i, keys)" by force
  have k: "i < n" "keys \<noteq> []" "\<forall>k\<in>set keys. shard_of (env_xxhash e) n k = i" using Cons.prems(2) [of i keys] g by auto
  let ?c = "c\<lparr>C_Args := keys\<rparr>"
  from evalEXISTS_shard [OF Cons.prems(1) k(1), of ?c] k obtain sm1 where
    ev: "on_store i (evalEXISTS e ?c) sm =
        Ret ((Some (newEXISTSRes (int (length (filter (\<lambda>k. sysview e n sm k \<noteq> None) keys)))), None), sm1)"
      "sys_inv ok mk (env_xxhash e) n sm1" "sysview e n sm1 = sysview e n sm" by auto
  have "\<And>i keys. (i, keys) \<in> set gs \<Longrightarrow> i < n \<and> keys \<noteq> [] \<and> (\<forall>k\<in>set keys. shard_of (env_xxhash e) n k = i)"
    by (rule Cons.prems(2)) simp
  from Cons.IH [OF ev(2) this, of ?c "cnt + int (length (filter (\<lambda>k. sysview e n sm k \<noteq> None) keys))"] ev g
  show ?case by (auto simp: exists_count_def newEXISTSRes_def ok_res_def add.assoc Let_def)
qed simp

lemma length_filter_groups:
  assumes "distinct is" and "\<And>k. k \<in> set ks \<Longrightarrow> f k \<in> set is"
  shows "length (filter P (concat (map (\<lambda>i. filter (\<lambda>k. f k = i) ks) is))) = length (filter P ks)"
  using assms(2)
proof (induction ks)
  case (Cons k ks)
  have "length (filter P (concat (map (\<lambda>i. filter (\<lambda>k'. f k' = i) (k # ks)) is))) =
      length (filter P (concat (map (\<lambda>i. filter (\<lambda>k'. f k' = i) ks) is))) + (if P k \<and> f k \<in> set is then 1 else 0)"
    using assms(1) by (induction "is") auto
  with Cons show ?case by simp
qed (simp add: filter_concat comp_def)

lemma shard_groups_eq:
  assumes "env_ok h e" and m: "m = (\<lambda>i. case filter (\<lambda>k. f k = i) ks of [] \<Rightarrow> None | xs \<Rightarrow> Some xs)"
  obtains "is" where "distinct is" "set is = f ` set ks"
    "shard_groups e m = map (\<lambda>i. (i, filter (\<lambda>k. f k = i) ks)) is"
proof
  have mi: "m i = (if i \<in> f ` set ks then Some (filter (\<lambda>k. f k = i) ks) else None)" for i
  proof (cases "filter (\<lambda>k. f k = i) ks")
    case Nil
    then show ?thesis by (auto simp: m filter_empty_conv)
  next
    case (Cons a xs)
    then have "a \<in> set (filter (\<lambda>k. f k = i) ks)" by simp
    then have "i \<in> f ` set ks" by auto
    with Cons show ?thesis by (simp add: m)
  qed
  then have d: "dom m = f ` set ks" by (auto simp: dom_def)
  let ?is = "env_rangeN e (dom m)"
  show "distinct ?is" "set ?is = f ` set ks" using assms(1) d by simp_all
  have "List.map_filter (\<lambda>i. map_option (Pair i) (m i)) xs = map (\<lambda>i. (i, filter (\<lambda>k. f k = i) ks)) xs"
    if "set xs \<subseteq> dom m" for xs
    using that by (induction xs) (simp_all add: mi d)
  then show "shard_groups e m = map (\<lambda>i. (i, filter (\<lambda>k. f k = i) ks)) ?is"
    using assms(1) d by (simp add: shard_groups_def)
qed

lemma executeEXISTS_spec:
  assumes s: "sys_inv ok mk h n sm" and e: "env_ok h e" and c: "C_Args c \<noteq> []"
  shows "\<exists>c' sm'. executeEXISTS e c sm =
      (c', Ret ((Some (newEXISTSRes (int (length (filter (\<lambda>k. sysview e n sm k \<noteq> None) (C_Args c))))), None), sm')) \<and>
    sys_inv ok mk h n sm' \<and> sysview e n sm' = sysview e n sm"
proof -
  have x: "env_xxhash e = h" using e by simp
  let ?f = "shard_of h n" and ?ks = "C_Args c"
  let ?m = "\<lambda>i. case filter (\<lambda>k. ?f k = i) ?ks of [] \<Rightarrow> None | xs \<Rightarrow> Some xs"
  have m: "group_keys e sm ?ks Map.empty = Ret ?m"
    unfolding group_keys_spec [OF s x] by (intro arg_cong [where f = Ret] ext) (simp split: list.split)
  from shard_groups_eq [OF e refl, of ?f ?ks] obtain "is" where
    g: "distinct is" "set is = ?f ` set ?ks" "shard_groups e ?m = map (\<lambda>i. (i, filter (\<lambda>k. ?f k = i) ?ks)) is" by blast
  have "i < n \<and> keys \<noteq> [] \<and> (\<forall>k\<in>set keys. ?f k = i)" if "(i, keys) \<in> set (shard_groups e ?m)" for i keys
  proof -
    from that have "i \<in> set is" and keys: "keys = filter (\<lambda>k. ?f k = i) ?ks" unfolding g(3) by auto
    then have "i \<in> ?f ` set ?ks" by (simp add: g(2))
    then show ?thesis unfolding keys using sys_invD(2) [OF s] by (auto simp: filter_empty_conv shard_of_def)
  qed
  from exists_shards_spec [OF s [folded x], of "shard_groups e ?m" c 0, unfolded x, OF this] obtain c' sm' where
    ev: "exists_shards e (shard_groups e ?m) c 0 sm =
        (c', Ret ((Some (newEXISTSRes (int (length (filter (\<lambda>k. sysview e n sm k \<noteq> None)
          (concat (map snd (shard_groups e ?m))))))), None), sm'))"
      "sys_inv ok mk h n sm'" "sysview e n sm' = sysview e n sm" by auto
  have "length (filter (\<lambda>k. sysview e n sm k \<noteq> None) (concat (map snd (shard_groups e ?m)))) =
      length (filter (\<lambda>k. sysview e n sm k \<noteq> None) ?ks)"
    unfolding g(3) map_map comp_def snd_conv by (rule length_filter_groups [OF g(1)]) (simp add: g(2))
  with ev m c show ?thesis by (simp add: executeEXISTS_def Suc_le_eq)
qed

section \<open>KEYS and FLUSHDB\<close>

lemma set_shard_same [simp]: "i < length (sm_shards sm) \<Longrightarrow> set_shard_store i (shard_store sm i) sm = sm"
  by (simp add: set_shard_store_def shard_store_def)

lemma evalKEYS_shard:
  assumes s: "sys_inv ok mk h n sm" and r: "range_ok e" and i: "i < n" and c: "C_Args c = [p]"
    and f: "\<And>k. env_pathMatch e p k = Some (f k)"
  shows "\<exists>ks. on_store i (evalKEYS e c) sm = Ret ((Some (newKEYSRes ks), None), sm) \<and> distinct ks \<and>
    set ks = {k \<in> dom (sysdb h n sm). f k \<and> shard_of h n k = i}"
proof -
  from keys_lists_matches [OF cmd_inv_wf [OF sys_invD(4) [OF s i]] r f] obtain ks where
    "Keys e p (shard_store sm i) = Ret (ks, None)" "distinct ks" "set ks = {k \<in> dom (db (shard_store sm i)). f k}" by blast
  then show ?thesis
    using sys_invD(1) [OF s] i c by (auto simp: on_store_def evalKEYS_def shard_dom [OF s i])
qed

lemma keys_shards_spec:
  assumes s: "sys_inv ok mk h n sm" and r: "range_ok e" and c: "C_Args c = [p]"
    and f: "\<And>k. env_pathMatch e p k = Some (f k)" and "distinct is" and "\<forall>i\<in>set is. i < n"
  shows "\<exists>ks. keys_shards e c is acc sm = Ret ((Some (newKEYSRes (acc @ ks)), None), sm) \<and> distinct ks \<and>
    set ks = {k \<in> dom (sysdb h n sm). f k \<and> shard_of h n k \<in> set is}"
  using assms(5,6)
proof (induction "is" arbitrary: acc)
  case (Cons i "is")
  then have i: "i < n" by simp
  from evalKEYS_shard [OF s r i c f] obtain xs where
    x: "on_store i (evalKEYS e c) sm = Ret ((Some (newKEYSRes xs), None), sm)" "distinct xs"
      "set xs = {k \<in> dom (sysdb h n sm). f k \<and> shard_of h n k = i}" by blast
  from Cons.IH [of "acc @ xs"] Cons.prems obtain ks where
    k: "keys_shards e c is (acc @ xs) sm = Ret ((Some (newKEYSRes ((acc @ xs) @ ks)), None), sm)" "distinct ks"
      "set ks = {k \<in> dom (sysdb h n sm). f k \<and> shard_of h n k \<in> set is}" by auto
  show ?case
    using x k Cons.prems(1) by (intro exI [of _ "xs @ ks"]) (auto simp: keys_field_def newKEYSRes_def ok_res_def)
qed simp

lemma flush_shards_spec:
  assumes "sys_inv ok mk h n sm" and "\<forall>i\<in>set is. i < n" and c: "C_Args c = []"
  shows "\<exists>sm'. flush_shards e c is sm = Ret ((Some FLUSHDBResOKRes, None), sm') \<and> sys_inv ok mk h n sm' \<and>
    sysdb h n sm' = (\<lambda>k. if shard_of h n k \<in> set is then None else sysdb h n sm k)"
  using assms(1,2)
proof (induction "is" arbitrary: sm)
  case (Cons i "is")
  then have i: "i < n" by simp
  note s = Cons.prems(1)
  let ?s = "Reset (shard_store sm i)"
  have f: "\<exists>r. evalFLUSHDB e c (shard_store sm i) = Ret ((r, None), ?s)"
    by (simp add: evalFLUSHDB_def c)
  have w: "within {k. shard_of h n k = i} ?s" by simp
  have s1: "sys_inv ok mk h n (set_shard_store i ?s sm)"
    using Reset_inv [OF sys_invD(4) [OF s i]] w by (intro sys_inv_set [OF s i]) (simp add: shard_inv_def)
  have d: "db ?s k = None" for k by (simp add: db_eq Reset_def NewRegMap_def RegGet_M)
  from Cons.IH [OF s1] Cons.prems(2) obtain sm' where
    "flush_shards e c is (set_shard_store i ?s sm) = Ret ((Some FLUSHDBResOKRes, None), sm')" "sys_inv ok mk h n sm'"
    "sysdb h n sm' = (\<lambda>k. if shard_of h n k \<in> set is then None else sysdb h n (set_shard_store i ?s sm) k)" by auto
  with f show ?case by (auto simp: on_store_def sysdb_set [OF s i] d fun_eq_iff)
qed simp

section \<open>Safety\<close>

lemma on_store_safe:
  assumes "sys_inv ok mk h n sm" and "i < n"
    and "safe (cmd_inv ok mk) (f (shard_store sm i))" and "keeps (within {k. shard_of h n k = i}) (f (shard_store sm i))"
  shows "safe (sys_inv ok mk h n) (on_store i f sm)"
  using on_store_keeps [where f = f, OF assms(1,2) safe_keeps [OF assms(3)] assms(4)] assms(3)
  by (auto simp: safe_iff on_store_Panic)

lemma evalKEYS_answers:
  "on_store i (evalKEYS e c) sm = Ret ((r, None), sm') \<Longrightarrow> \<exists>ks. r = Some (newKEYSRes ks)"
  by (auto simp: on_store_def evalKEYS_def bind_outcome_Ret_iff split: if_splits prod.splits option.splits)

lemma multi_exec_safe [exec_safe]:
  assumes s: "sys_inv ok mk h n sm" and e: "env_ok h e"
  shows "safe (sys_inv ok mk h n) (executeDEL e c sm)" and "safe (sys_inv ok mk h n) (snd (executeEXISTS e c sm))"
    and "safe (sys_inv ok mk h n) (executeKEYS e c sm)" and "safe (sys_inv ok mk h n) (executeFLUSHDB e c sm)"
proof -
  have x: "env_xxhash e = h" using e by simp
  show "safe (sys_inv ok mk h n) (executeDEL e c sm)"
    using s executeDEL_spec [OF s x, of c] by (cases "C_Args c = []") (auto simp: executeDEL_def)
  show "safe (sys_inv ok mk h n) (snd (executeEXISTS e c sm))"
    using s executeEXISTS_spec [OF s e, of c] by (cases "C_Args c = []") (auto simp: executeEXISTS_def)
  have "safe (sys_inv ok mk h n) (keys_shards e c is acc sm)" if "\<forall>i\<in>set is. i < n" for "is" acc
    using s that
  proof (induction "is" arbitrary: acc sm)
    case (Cons i "is")
    then have i: "i < n" by simp
    have "safe (sys_inv ok mk h n) (on_store i (evalKEYS e c) sm)"
      by (rule on_store_safe [where f = "evalKEYS e c", OF Cons.prems(1) i evalKEYS_safe [OF sys_invD(4) [OF Cons.prems(1) i]]])
        (rule multi_within(3) [OF sys_invD(5) [OF Cons.prems(1) i]])
    then obtain r err sm' where ev: "on_store i (evalKEYS e c) sm = Ret ((r, err), sm')" "sys_inv ok mk h n sm'"
      by (auto simp: safe_def)
    with Cons.IH [OF ev(2)] Cons.prems(2) evalKEYS_answers [of i e c sm r sm'] show ?case
      by (cases err) (auto simp: keys_field_def newKEYSRes_def ok_res_def)
  qed simp
  then show "safe (sys_inv ok mk h n) (executeKEYS e c sm)"
    using s sys_invD(1) [OF s] by (simp add: executeKEYS_def)
  have "safe (sys_inv ok mk h n) (flush_shards e c is sm)" if "\<forall>i\<in>set is. i < n" for "is"
    using s that
  proof (induction "is" arbitrary: sm)
    case (Cons i "is")
    then have i: "i < n" by simp
    have "safe (sys_inv ok mk h n) (on_store i (evalFLUSHDB e c) sm)"
      by (rule on_store_safe [where f = "evalFLUSHDB e c", OF Cons.prems(1) i evalFLUSHDB_safe [OF sys_invD(4) [OF Cons.prems(1) i]]])
        (rule keys_within(6) [OF sys_invD(5) [OF Cons.prems(1) i]])
    then obtain r err sm' where ev: "on_store i (evalFLUSHDB e c) sm = Ret ((r, err), sm')" "sys_inv ok mk h n sm'"
      by (auto simp: safe_def)
    with Cons.IH [OF ev(2)] Cons.prems(2) show ?case by (cases err) auto
  qed simp
  then show "safe (sys_inv ok mk h n) (executeFLUSHDB e c sm)"
    using sys_invD(1) [OF s] by (simp add: executeFLUSHDB_def)
qed

end
