(* ===== verification/SystemProps.thy ===== *)
theory SystemProps
  imports MultiShard
begin

text \<open>
  The server's database as a system: every command of the registry, run by \<open>Execute\<close> on any shards
  that satisfy the system invariant, keeps the invariant, and returns unless its arguments are of the
  few shapes that make the code panic.
\<close>

section \<open>Executions that may panic\<close>

lemma with_zset_keeps:
  assumes "cmd_inv ok mk s"
    and "\<And>p z s1. \<lbrakk>cmd_inv ok mk s1; ok z; \<And>z'. ok z' \<Longrightarrow> cmd_inv ok mk (setValue p (VSortedSet z') s1)\<rbrakk>
      \<Longrightarrow> keeps (cmd_inv ok mk) (f p z s1)"
  shows "keeps (cmd_inv ok mk) (with_zset e k absent wrong f s)"
  using assms(1)
proof (cases rule: zset_lookup [where e = e and k = k and absent = absent and wrong = wrong and f = f])
  case (zset p z s1 x)
  show ?thesis unfolding zset(1) by (rule assms(2) [OF zset(2,6)]) (rule setZ_inv [OF zset(2,3,4,7)])
qed simp_all

lemma zpop_keeps:
  assumes l: "zset_laws zo ok m" and i: "cmd_inv ok mk s"
  shows "keeps (cmd_inv ok mk) (evalZPOPMIN zo e c s)" and "keeps (cmd_inv ok mk) (evalZPOPMAX zo e c s)"
  using i zpop_loop_ok [of ok "zs_PopMin zo", OF zset_lawsD(10) [OF l]] zpop_loop_ok [of ok "zs_PopMax zo", OF zset_lawsD(11) [OF l]]
  by (auto simp: evalZPOPMIN_def evalZPOPMAX_def case_prod_unfold Let_def intro!: with_zset_keeps split: option.split)

lemma short_watch_keeps:
  assumes s: "sys_inv ok mk h n sm" and e: "env_ok h e" and "length (C_Args c) = 1"
  shows "keeps I (executeHGETWATCH e c sm)" and "keeps I (executeZRANKWATCH zo e c sm)"
  using assms(3) GetShard_sys [OF s, of e "C_Args c ! 0"] e
  by (auto simp: executeHGETWATCH_def executeZRANKWATCH_def on_key_def on_store_def evalHGETWATCH_def
      evalZRANKWATCH_def evalHGET_def evalZRANK_def with_fingerprint_def)

lemma panicky_exec_keeps:
  assumes "sys_inv ok mk h n sm" and "env_ok h e" and l: "zset_laws zo ok m"
  shows "keeps (sys_inv ok mk h n) (executeSET e c sm)" and "keeps (sys_inv ok mk h n) (executeGETEX e c sm)"
    and "keeps (sys_inv ok mk h n) (executeZADD zo e c sm)" and "keeps (sys_inv ok mk h n) (executeZPOPMIN zo e c sm)"
    and "keeps (sys_inv ok mk h n) (executeZPOPMAX zo e c sm)" and "keeps (sys_inv ok mk h n) (executeHGETWATCH e c sm)"
    and "keeps (sys_inv ok mk h n) (executeZRANKWATCH zo e c sm)"
proof -
  have r: "range_ok e" using assms(2) by simp
  show "keeps (sys_inv ok mk h n) (executeSET e c sm)" and "keeps (sys_inv ok mk h n) (executeGETEX e c sm)"
    and "keeps (sys_inv ok mk h n) (executeZADD zo e c sm)" and "keeps (sys_inv ok mk h n) (executeZPOPMIN zo e c sm)"
    and "keeps (sys_inv ok mk h n) (executeZPOPMAX zo e c sm)"
    using assms by (auto simp: executeSET_def executeGETEX_def executeZADD_def executeZPOPMIN_def executeZPOPMAX_def
        intro!: on_key_keeps [OF assms(1)] evalSET_keeps(1) evalGETEX_keeps(1) evalZADD_keeps(1) [OF l] zpop_keeps [OF l]
        intro: evals_within)
  show "keeps (sys_inv ok mk h n) (executeHGETWATCH e c sm)"
    using short_watch_keeps(1) [OF assms(1,2)] safe_keeps [OF watch_exec_safe(2) [OF assms]]
    by (cases "length (C_Args c) = 1") auto
  show "keeps (sys_inv ok mk h n) (executeZRANKWATCH zo e c sm)"
    using short_watch_keeps(2) [OF assms(1,2)] safe_keeps [OF watch_exec_safe(7) [OF assms]]
    by (cases "length (C_Args c) = 1") auto
qed

section \<open>The registry\<close>

lemmas meta_defs = cDECR_def cDECRBY_def cDEL_def cECHO_def cEXISTS_def cEXPIRE_def cEXPIREAT_def cExpireTime_def
  cFLUSHDB_def cGET_def cGETWATCH_def cGETDEL_def cGETEX_def cGETSET_def cHANDSHAKE_def cHGET_def cHGETWATCH_def
  cHGETALL_def cHGETALLWATCH_def cHSET_def cINCR_def cINCRBY_def cKEYS_def cPING_def cSET_def cTTL_def cType_def
  cUNWATCH_def cZADD_def cZCARD_def cZCARDWATCH_def cZCOUNT_def cZCOUNTWATCH_def cZPOPMAX_def cZPOPMIN_def
  cZRANGE_def cZRANGEWATCH_def cZRANK_def cZRANKWATCH_def cZREM_def

lemma registry_fold:
  "map_of (fold AddCommand ms r) = map_of r ++ map_of (map (\<lambda>m. (cm_Name m, m)) (rev ms))"
  by (induction ms arbitrary: r) (auto simp: AddCommand_def AList.update_conv' map_add_assoc)

lemma command_names: "distinct (map cm_Name (all_commands zo))"
  unfolding all_commands_def by (simp add: meta_defs)

lemma registry_map: "map_of (CommandRegistry zo) = map_of (map (\<lambda>m. (cm_Name m, m)) (all_commands zo))"
proof -
  have "map_of (rev xs) = map_of xs" if "distinct (map fst xs)" for xs :: "(string \<times> 'a CommandMeta) list"
    using that by (intro map_of_eqI) (auto simp: rev_map [symmetric] map_of_eq_Some_iff)
  from this [of "map (\<lambda>m. (cm_Name m, m)) (all_commands zo)"] show ?thesis
    using command_names [of zo] by (simp add: CommandRegistry_def registry_fold rev_map comp_def)
qed

lemma registry_Some:
  "map_of (CommandRegistry zo) name = Some meta \<longleftrightarrow> meta \<in> set (all_commands zo) \<and> cm_Name meta = name"
  using command_names [of zo] by (auto simp: registry_map map_of_eq_Some_iff comp_def)

section \<open>Every command\<close>

definition cmd_name :: "Cmd \<Rightarrow> string" where
  "cmd_name c = (case C_Meta c of None \<Rightarrow> C_Cmd c | Some name \<Rightarrow> name)"

text \<open>The shapes of command that make the code panic: a parameter without its value at the end, a watch
  command without its second argument, and a pop count whose result slice does not fit the memory.\<close>

definition may_panic :: "Cmd \<Rightarrow> bool" where
  "may_panic c \<longleftrightarrow>
     (cmd_name c = ''SET'' \<and> 2 \<le> length (C_Args c) \<and> dangling (drop 2 (C_Args c))) \<or>
     (cmd_name c = ''GETEX'' \<and> dangling (drop 1 (C_Args c))) \<or>
     (cmd_name c = ''ZADD'' \<and> 3 \<le> length (C_Args c) \<and> dangling (drop 1 (C_Args c))) \<or>
     (cmd_name c \<in> {''HGET.WATCH'', ''ZRANK.WATCH''} \<and> length (C_Args c) = 1) \<or>
     (cmd_name c \<in> {''ZPOPMIN'', ''ZPOPMAX''} \<and> (case pop_count c of None \<Rightarrow> False | Some i \<Rightarrow> \<not> make_ok i))"

lemma cmd_Execute_keeps:
  assumes "sys_inv ok mk h n sm" and "env_ok h e" and "zset_laws zo ok m"
  shows "\<forall>meta\<in>set (all_commands zo). keeps (sys_inv ok mk h n) (snd (cm_Execute meta e c sm))"
  unfolding all_commands_def
  by (simp add: meta_defs plain_def exec_safe [OF assms(1,2), THEN safe_keeps]
      zsets_exec_safe [OF assms, THEN safe_keeps] watch_exec_safe [OF assms, THEN safe_keeps]
      panicky_exec_keeps [OF assms])

lemma Execute_cases:
  assumes "sys_inv ok mk h n sm"
    and "C_Meta c \<noteq> None \<Longrightarrow> map_of (CommandRegistry zo) (cmd_name c) \<noteq> None"
  obtains (unknown) "Execute zo e c sm = (c, Ret ((Some empty_res, Some (ErrUnknownCmd (C_Cmd c))), sm))"
  | (known) meta c' where "meta \<in> set (all_commands zo)" "cmd_name c = cm_Name meta"
      "Execute zo e c sm = cm_Execute meta e c' sm" "C_Args c' = C_Args c"
proof (cases "map_of (CommandRegistry zo) (cmd_name c)")
  case None
  with assms(2) have "C_Meta c = None" by blast
  with None unknown show ?thesis by (simp add: Execute_def cmd_name_def)
next
  case (Some meta)
  then have m: "meta \<in> set (all_commands zo)" "cmd_name c = cm_Name meta" by (auto simp: registry_Some)
  show ?thesis
  proof (cases "C_Meta c")
    case None
    with Some m show ?thesis by (intro known [of meta "c\<lparr>C_Meta := Some (C_Cmd c)\<rparr>"]) (simp_all add: Execute_def cmd_name_def)
  next
    case (Some name)
    with \<open>map_of _ _ = Some meta\<close> m show ?thesis
      by (intro known [of meta c]) (simp_all add: Execute_def cmd_name_def)
  qed
qed

lemma Execute_keeps:
  assumes "sys_inv ok mk h n sm" and "env_ok h e" and "zset_laws zo ok m"
  shows "keeps (sys_inv ok mk h n) (snd (Execute zo e c sm))"
  using assms(1) cmd_Execute_keeps [OF assms]
  by (simp add: Execute_def split: option.split) (simp add: registry_Some)

lemma cmd_Execute_safe:
  assumes "sys_inv ok mk h n sm" and "env_ok h e" and "zset_laws zo ok m"
    and np: "\<not> may_panic c" and a: "C_Args c' = C_Args c"
  shows "\<forall>meta\<in>set (all_commands zo). cmd_name c = cm_Name meta \<longrightarrow> safe (sys_inv ok mk h n) (snd (cm_Execute meta e c' sm))"
proof -
  have p: "pop_count c' = pop_count c" by (simp add: pop_count_def a)
  note d = dangling_exec_safe [OF assms(1-3), of c', unfolded a p]
  note w = watch_exec_safe [OF assms(1-3), of c', unfolded a]
  have pop: "make_ok i" if "cmd_name c = ''ZPOPMIN'' \<or> cmd_name c = ''ZPOPMAX''" "pop_count c = Some i" for i
    using np that by (auto simp: may_panic_def)
  have "cmd_name c = ''SET'' \<Longrightarrow> safe (sys_inv ok mk h n) (executeSET e c' sm)"
    "cmd_name c = ''GETEX'' \<Longrightarrow> safe (sys_inv ok mk h n) (executeGETEX e c' sm)"
    "cmd_name c = ''ZADD'' \<Longrightarrow> safe (sys_inv ok mk h n) (executeZADD zo e c' sm)"
    "cmd_name c = ''HGET.WATCH'' \<Longrightarrow> safe (sys_inv ok mk h n) (executeHGETWATCH e c' sm)"
    "cmd_name c = ''ZRANK.WATCH'' \<Longrightarrow> safe (sys_inv ok mk h n) (executeZRANKWATCH zo e c' sm)"
    using np by (auto simp: may_panic_def intro!: d(1-3) w(2,7))
  moreover have "cmd_name c = ''ZPOPMIN'' \<Longrightarrow> safe (sys_inv ok mk h n) (executeZPOPMIN zo e c' sm)"
    "cmd_name c = ''ZPOPMAX'' \<Longrightarrow> safe (sys_inv ok mk h n) (executeZPOPMAX zo e c' sm)"
    using pop by (auto intro: d(4,5))
  ultimately show ?thesis
    unfolding all_commands_def
    by (simp add: meta_defs plain_def exec_safe [OF assms(1,2)] zsets_exec_safe [OF assms(1-3)] w)
qed

section \<open>Properties\<close>

lemma execute_safe:
  assumes "sys_inv ok mk h n sm" and "env_ok h e" and "zset_laws zo ok m"
    and "C_Meta c \<noteq> None \<Longrightarrow> map_of (CommandRegistry zo) (cmd_name c) \<noteq> None" and np: "\<not> may_panic c"
  shows "safe (sys_inv ok mk h n) (snd (Execute zo e c sm))"
proof (rule Execute_cases [OF assms(1), of c zo e])
  fix meta c'
  assume "meta \<in> set (all_commands zo)" "cmd_name c = cm_Name meta" "Execute zo e c sm = cm_Execute meta e c' sm"
    "C_Args c' = C_Args c"
  with cmd_Execute_safe [OF assms(1-3) np, of c'] show ?thesis by simp
qed (use assms(1,4) in simp_all)

text \<open>C14. No command takes the shards out of their invariant, and every command returns, with an answer or an
  error, unless it has one of the shapes of \<open>may_panic\<close>.\<close>

theorem execute_returns:
  assumes "sys_inv ok mk h n sm" and "env_ok h e" and "zset_laws zo ok m"
    and "C_Meta c \<noteq> None \<Longrightarrow> map_of (CommandRegistry zo) (cmd_name c) \<noteq> None"
  shows "(\<forall>c' r sm'. Execute zo e c sm = (c', Ret (r, sm')) \<longrightarrow> sys_inv ok mk h n sm') \<and>
    (may_panic c \<or> (\<exists>c' r sm'. Execute zo e c sm = (c', Ret (r, sm'))))"
proof
  show "\<forall>c' r sm'. Execute zo e c sm = (c', Ret (r, sm')) \<longrightarrow> sys_inv ok mk h n sm'"
    using Execute_keeps [OF assms(1-3), of c] by (auto simp: keeps_def)
  have "safe (sys_inv ok mk h n) (snd (Execute zo e c sm))" if "\<not> may_panic c"
    by (rule execute_safe [OF assms that])
  then show "may_panic c \<or> (\<exists>c' r sm'. Execute zo e c sm = (c', Ret (r, sm')))"
    by (metis prod.collapse safe_def)
qed

text \<open>The states a server can reach, from its start through commands of any clients and timer ticks of any
  shards in any order.\<close>

inductive sys_reachable :: "'z zops \<Rightarrow> (string \<Rightarrow> 64 word) \<Rightarrow> nat \<Rightarrow> 'z ShardManager \<Rightarrow> bool" for zo h n where
  start: "NewShardManager e (int n) = Ret sm \<Longrightarrow> sys_reachable zo h n sm"
| exec: "\<lbrakk>sys_reachable zo h n sm; env_ok h e; snd (Execute zo e c sm) = Ret (r, sm')\<rbrakk> \<Longrightarrow> sys_reachable zo h n sm'"
| tick: "\<lbrakk>sys_reachable zo h n sm; env_ok h e; i < n\<rbrakk> \<Longrightarrow> sys_reachable zo h n (cron e i sm)"

lemma within_NewStore [simp]: "within K (NewStore ch st sid)"
  by (simp add: within_def NewStore_def NewRegMap_def RegGet_M)

lemma within_put_new: "k \<in> K \<Longrightarrow> within K s \<Longrightarrow> within K (put_new e k v d ty o' s)"
  by (simp add: put_new_def Let_def case_prod_unfold)

lemma start_inv:
  assumes "NewShardManager e (int n) = Ret sm" and "n \<le> 127"
  shows "sys_inv ok (go_div DefaultKeysLimit (int n)) h n sm"
proof -
  have n: "0 < n" using assms(1) by (auto simp: NewShardManager_def split: if_splits)
  then have sm: "sm = \<lparr>sm_shards = map (\<lambda>i. \<lparr>sh_ID = int i, sh_Thread = NewShardThread e (int i)
      (NewPrimitiveEvictionStrategy (go_div DefaultKeysLimit (int n)))\<rparr>) [0..<n]\<rparr>"
    using assms(1) by (simp add: NewShardManager_def)
  have "shard_store sm i = NewStore None (Some (NewPrimitiveEvictionStrategy (go_div DefaultKeysLimit (int n)))) (int i)"
    if "i < n" for i using that by (simp add: sm shard_store_def NewShardThread_def)
  then show ?thesis
    using n assms(2) NewStore_inv [of ok] by (simp add: sys_inv_def shard_inv_def) (simp add: sm)
qed

lemma cron_inv:
  assumes s: "sys_inv ok mk h n sm" and "env_ok h e" and "i < n"
  shows "sys_inv ok mk h n (cron e i sm)"
proof -
  have r: "range_ok e" using assms(2) by simp
  have "dom (view e s) \<subseteq> dom (db s)" for s :: "'a Store" by (auto simp: view_def live_def split: option.splits)
  moreover have "dom (db s) = dom (tbl s)" for s :: "'a Store" by (simp add: dom_def db_def del: not_None_eq)
  ultimately have "within K (DeleteExpiredKeys e s)" if "within K s" "wf_store {} s" for K and s :: "'a Store"
    using that DeleteExpiredKeys_spec(2) [OF that(2) r] by (metis within_def subset_trans)
  with cycle_inv [OF sys_invD(4) [OF s assms(3)] r] sys_invD(5) [OF s assms(3)] cmd_inv_wf [OF sys_invD(4) [OF s assms(3)]]
  have "shard_inv ok mk h n i (DeleteExpiredKeys e (shard_store sm i))" by (simp add: shard_inv_def)
  with s assms(3) show ?thesis by (simp add: sys_inv_def)
qed

lemma reachable_sys_inv:
  assumes "sys_reachable zo h n sm" and "n \<le> 127" and "zset_laws zo ok m"
  shows "sys_inv ok (go_div DefaultKeysLimit (int n)) h n sm"
  using assms(1)
proof (induction rule: sys_reachable.induct)
  case (exec sm e c r sm')
  with Execute_keeps [OF exec.IH exec.hyps(2) assms(3), of c] show ?case by simp
qed (use start_inv [OF _ assms(2)] cron_inv in auto)


text \<open>C16. \<^verbatim>\<open>EXISTS\<close> and \<^verbatim>\<open>DEL\<close> act on keys spread over any shards as they would on one store: \<^verbatim>\<open>EXISTS\<close>
  counts its live arguments, repetitions included, whatever the order in which the shards are visited,
  and \<^verbatim>\<open>DEL\<close> removes its arguments everywhere and counts each removed key once, although the code
  evaluates all arguments on the shard of every argument.\<close>

theorem del_exists_system:
  assumes "sys_inv ok mk h n sm" and "env_ok h e" and "C_Args c \<noteq> []"
  shows "(\<exists>c' sm'. executeEXISTS e c sm =
      (c', Ret ((Some (newEXISTSRes (int (length (filter (\<lambda>k. sysview e n sm k \<noteq> None) (C_Args c))))), None), sm')) \<and>
      sysview e n sm' = sysview e n sm) \<and>
    (\<exists>sm'. executeDEL e c sm = Ret ((Some (newDELRes (int (card (set (C_Args c) \<inter> dom (sysdb h n sm))))), None), sm') \<and>
      sysdb h n sm' = (\<lambda>k. if k \<in> set (C_Args c) then None else sysdb h n sm k))"
proof -
  have "env_xxhash e = h" using assms(2) by simp
  with executeEXISTS_spec [OF assms] executeDEL_spec [OF assms(1) _ assms(3), of e] show ?thesis by blast
qed

text \<open>\<^verbatim>\<open>KEYS\<close> lists every matching key of every shard exactly once and changes nothing; \<^verbatim>\<open>FLUSHDB\<close> empties
  every shard.\<close>

lemma keys_flush_system:
  assumes "sys_inv ok mk h n sm" and "env_ok h e" and "C_Args c = [p]" and "\<And>k. env_pathMatch e p k = Some (f k)"
    and "C_Args d = []"
  shows "(\<exists>ks. executeKEYS e c sm = Ret ((Some (newKEYSRes ks), None), sm) \<and> distinct ks \<and>
      set ks = {k \<in> dom (sysdb h n sm). f k}) \<and>
    (\<exists>sm'. executeFLUSHDB e d sm = Ret ((Some FLUSHDBResOKRes, None), sm') \<and> sysdb h n sm' = Map.empty)"
proof -
  have len: "length (sm_shards sm) = n" and i: "\<forall>i\<in>set [0..<n]. i < n" using sys_invD(1) [OF assms(1)] by simp_all
  have at: "shard_of h n k < n" for k using sys_invD(2) [OF assms(1)] by (simp add: shard_of_def)
  from keys_shards_spec [OF assms(1) env_okD(1) [OF assms(2)] assms(3,4) distinct_upt i, of "[]"] assms(3)
  have "\<exists>ks. executeKEYS e c sm = Ret ((Some (newKEYSRes ks), None), sm) \<and> distinct ks \<and>
      set ks = {k \<in> dom (sysdb h n sm). f k}" by (simp add: executeKEYS_def len at)
  moreover have "\<exists>sm'. executeFLUSHDB e d sm = Ret ((Some FLUSHDBResOKRes, None), sm') \<and> sysdb h n sm' = Map.empty"
    using flush_shards_spec [OF assms(1) i assms(5), of e] at by (auto simp: executeFLUSHDB_def len fun_eq_iff)
  ultimately show ?thesis by blast
qed

section \<open>Reading what was written\<close>

lemma registered [simp]:
  "map_of (CommandRegistry zo) ''SET'' = Some cSET" "map_of (CommandRegistry zo) ''GET'' = Some cGET"
  by (simp_all add: registry_Some, simp_all add: all_commands_def, simp_all add: meta_defs)

lemma cron_view:
  assumes s: "sys_inv ok mk h n sm" and e: "env_ok h e" and "i < n"
  shows "sysdb h n (cron e i sm) k = (if shard_of h n k = i then live (env_now e) (sysdb h n sm) k else sysdb h n sm k)"
proof -
  have "db (DeleteExpiredKeys e (shard_store sm i)) = view e (shard_store sm i)"
    using DeleteExpiredKeys_spec(2) [OF cmd_inv_wf [OF sys_invD(4) [OF s assms(3)]]] e by simp
  then show ?thesis using s assms(3) by (auto simp: sysdb_def sys_inv_def view_def live_def)
qed

lemma ticks_keep:
  assumes "sys_inv ok mk h n sm" and "\<forall>(e, i)\<in>set ticks. env_ok h e \<and> i < n"
    and "sysdb h n sm k = Some (ty, v, None)"
  shows "sys_inv ok mk h n (fold (\<lambda>(e, i). cron e i) ticks sm) \<and>
    sysdb h n (fold (\<lambda>(e, i). cron e i) ticks sm) k = Some (ty, v, None)"
  using assms
proof (induction ticks arbitrary: sm)
  case (Cons t ticks)
  obtain e i where t: "t = (e, i)" by force
  have e: "env_ok h e" "i < n" using Cons.prems(2) t by auto
  have "sysdb h n (cron e i sm) k = Some (ty, v, None)"
    using Cons.prems(3) by (simp add: cron_view [OF Cons.prems(1) e] live_def expired_at_def)
  with Cons.IH [OF cron_inv [OF Cons.prems(1) e]] Cons.prems(2) t show ?case by simp
qed simp

lemma evalSET_plain:
  assumes i: "cmd_inv zok mk s" and c: "C_Args c = [key, val]"
  shows "\<exists>s'. evalSET e c s = Ret ((Some SETResOKRes, None), s') \<and>
    db s' key = Some (string_type e val, string_value e val, None)"
proof -
  let ?ps = "Map.empty :: params"
  have x: "\<not> set_conflict ?ps" "exDuration e ''SET'' ?ps = Inr (-1)"
    by (simp_all add: set_conflict_def expiry_conflict_def any_expiry_def given_def param_def
        exDuration_def dur_EX_def dur_PX_def dur_EXAT_def dur_PXAT_def)
  have "evalSET e c s = Ret ((Some SETResOKRes, None), set_store e key val ?ps (-1) s)"
    using c x by (simp add: evalSET_def parseParams_def)
  moreover have "db (set_store e key val ?ps (-1) s) key = Some (string_type e val, string_value e val, None)"
    using set_store_spec [OF i refl, of ?ps e key val "-1"]
    by (simp add: set_blocked_def given_def param_def put_expiry_def new_expiry_def getDefaultPutOptions_def
        split: option.split)
  ultimately show ?thesis by blast
qed

text \<open>C17. After a \<^verbatim>\<open>SET key val\<close> through the registry, and any ticks of any shard's timer, a \<^verbatim>\<open>GET\<close> of the key
  through the registry answers the value in its canonical form, at any time.\<close>

theorem set_then_get_system:
  assumes s: "sys_inv ok mk h n sm" and e: "env_ok h e" and e2: "env_ok h e2"
    and float: "env_ParseFloat e2 = env_ParseFloat e" and l: "zset_laws zo ok m"
    and c: "C_Meta c = None" "C_Cmd c = ''SET''" "C_Args c = [key, val]"
    and g: "C_Meta g = None" "C_Cmd g = ''GET''" "C_Args g = [key]"
    and t: "\<forall>(e', i)\<in>set ticks. env_ok h e' \<and> i < n"
  shows "\<exists>sm1 sm2. snd (Execute zo e c sm) = Ret ((Some SETResOKRes, None), sm1) \<and>
    snd (Execute zo e2 g (fold (\<lambda>(e', i). cron e' i) ticks sm1)) = Ret ((Some (ok_res (GETRes (canonical e2 val))), None), sm2)"
proof -
  let ?i = "shard_of h n key" and ?c = "c\<lparr>C_Meta := Some ''SET''\<rparr>" and ?g = "g\<lparr>C_Meta := Some ''GET''\<rparr>"
  have x: "env_xxhash e = h" "env_xxhash e2 = h" using e e2 by simp_all
  note i = GetShard_sys(2) [OF s x(1), of key]
  from evalSET_plain [OF sys_invD(4) [OF s i], of ?c key val e] c obtain s' where
    s': "evalSET e ?c (shard_store sm ?i) = Ret ((Some SETResOKRes, None), s')"
      "db s' key = Some (string_type e val, string_value e val, None)" by auto
  let ?sm1 = "set_shard_store ?i s' sm"
  have set: "snd (Execute zo e c sm) = Ret ((Some SETResOKRes, None), ?sm1)"
    using c s'(1) GetShard_sys(1) [OF s x(1), of key]
    by (simp add: Execute_def cSET_def plain_def executeSET_def on_key_def on_store_def)
  have s1: "sys_inv ok mk h n ?sm1"
    using Execute_keeps [OF s e l, of c] set by simp
  have d1: "sysdb h n ?sm1 key = Some (string_type e val, string_value e val, None)"
    using s'(2) by (simp add: sysdb_set [OF s i])
  let ?sm = "fold (\<lambda>(e', i). cron e' i) ticks ?sm1"
  from ticks_keep [OF s1 t d1] have s2: "sys_inv ok mk h n ?sm"
    and d2: "sysdb h n ?sm key = Some (string_type e val, string_value e val, None)" by blast+
  have f: "string_type e2 val = string_type e val" "string_value e2 val = (string_value e val :: 'a Value)"
    unfolding string_type_def string_value_def float by simp_all
  have v: "view e2 (shard_store ?sm ?i) key = Some (string_type e2 val, string_value e2 val, None)"
    using d2 by (simp add: sysdb_def view_def live_def expired_at_def f)
  have w: "value_answer GETRes e2 (view e2 (shard_store ?sm ?i) key) = ok_res (GETRes (canonical e2 val))"
    unfolding v by (simp add: value_answer_def wire_string)
  from evalGET_spec [OF sys_invD(4) [OF s2 i], of ?g key e2] g w obtain s'' where
    "evalGET e2 ?g (shard_store ?sm ?i) = Ret ((Some (ok_res (GETRes (canonical e2 val))), None), s'')" by auto
  then have "snd (Execute zo e2 g ?sm) =
      Ret ((Some (ok_res (GETRes (canonical e2 val))), None), set_shard_store ?i s'' ?sm)"
    using g GetShard_sys(1) [OF s2 x(2), of key]
    by (simp add: Execute_def cGET_def plain_def executeGET_def on_key_def on_store_def)
  with set show ?thesis by blast
qed

text \<open>The 8-bit count of 128 to 256 shards, sign-extended to 64 bits.\<close>

lemma ShardCount_negative:
  assumes "128 \<le> length (sm_shards sm)" and "length (sm_shards sm) < 256"
  shows "uint (scast (ShardCount sm) :: 64 word) = 2 ^ 64 - 256 + int (length (sm_shards sm))"
proof -
  let ?n = "int (length (sm_shards sm))"
  have "(?n + 128) mod 256 = (?n - 128 + 256) mod 256" by (simp add: add.commute)
  also have "\<dots> = (?n - 128) mod 256" by (rule mod_add_self2)
  also have "\<dots> = ?n - 128" using assms by (intro mod_pos_pos_trivial) simp_all
  finally have "(?n + 128) mod 256 = ?n - 128" .
  then have "sint (ShardCount sm) = ?n - 256"
    unfolding ShardCount_def by transfer (simp add: signed_take_bit_eq_take_bit_shift take_bit_eq_mod)
  then have "(scast (ShardCount sm) :: 64 word) = word_of_int (?n - 256)" by (simp add: scast_eq)
  then have "uint (scast (ShardCount sm) :: 64 word) = (?n - 256) mod 2 ^ 64" by (simp only: uint_word_of_int) simp
  also have "\<dots> = (?n - 256 + 2 ^ 64) mod 2 ^ 64" by (rule mod_add_self2 [symmetric])
  also have "\<dots> = ?n - 256 + 2 ^ 64" using assms by (intro mod_pos_pos_trivial) simp_all
  finally show ?thesis by simp
qed


section \<open>Concrete inputs\<close>

text \<open>Two shards, one key each.\<close>

definition ex_hash :: "string \<Rightarrow> 64 word" where
  "ex_hash k = (if k = ''b'' then 1 else 0)"

definition ex_env :: "int \<Rightarrow> env" where
  "ex_env t = (env_at t)\<lparr>env_xxhash := ex_hash\<rparr>"

definition ex_shard :: "int \<Rightarrow> string \<Rightarrow> (string \<rightharpoonup> int) Shard" where
  "ex_shard i k = \<lparr>sh_ID = i, sh_Thread = \<lparr>th_id = i,
     th_store = put_new (env_at 10) k (VInt 1) (-1) ObjTypeInt getDefaultPutOptions
       (NewStore None (Some (NewPrimitiveEvictionStrategy 9)) i),
     th_lastCronExecTime = 0, th_cronFrequency = ShardCronFrequency\<rparr>\<rparr>"

definition ex_sys :: "(string \<rightharpoonup> int) ShardManager" where
  "ex_sys = \<lparr>sm_shards = [ex_shard 0 ''a'', ex_shard 1 ''b'']\<rparr>"

lemma ex_env_ok [simp]: "env_ok ex_hash (ex_env t)"
  by (simp add: env_ok_def ex_env_def env_at_def range_ok_def)

lemma ex_sys_inv: "sys_inv (\<lambda>m. finite (dom m)) 9 ex_hash 2 ex_sys"
proof -
  have "cmd_inv (\<lambda>m. finite (dom m)) 9 (th_store (sh_Thread (ex_shard i k)))" for i k
    unfolding ex_shard_def by (simp add: put_new_inv NewStore_inv in_i64_def)
  moreover have "within K (th_store (sh_Thread (ex_shard i k)))" if "k \<in> K" for i k K
    using that by (simp add: ex_shard_def within_put_new)
  ultimately show ?thesis
    by (auto simp: sys_inv_def shard_inv_def ex_sys_def shard_store_def shard_of_def ex_hash_def less_2_cases_iff)
qed

lemma ex_sys_db: "sysdb ex_hash 2 ex_sys k = (if k = ''a'' \<or> k = ''b'' then Some (ObjTypeInt, VInt 1, None) else None)"
proof -
  have "db (th_store (sh_Thread (ex_shard i q))) = [q \<mapsto> (ObjTypeInt, VInt 1, None)]" for i q
    unfolding ex_shard_def by (auto simp: put_new_db put_expiry_def old_expiry_def new_expiry_def fun_eq_iff)
  then show ?thesis
    by (simp add: sysdb_def ex_sys_def shard_store_def shard_of_def ex_hash_def)
qed

theorem execute_returns_witness:
  "\<exists>c' r sm'. Execute map_zops (ex_env 30) (mk_cmd ''SET'' [''b'', ''1'']) ex_sys = (c', Ret (r, sm'))"
proof -
  have "\<not> may_panic (mk_cmd ''SET'' [''b'', ''1''])" by (simp add: may_panic_def cmd_name_def mk_cmd_def)
  then show ?thesis
    using execute_returns [OF ex_sys_inv ex_env_ok map_zops_laws, of "mk_cmd ''SET'' [''b'', ''1'']" 30]
    by (simp add: mk_cmd_def)
qed


theorem del_exists_system_witness:
  "(\<exists>c' sm'. executeEXISTS (ex_env 30) (mk_cmd ''EXISTS'' [''a'', ''b'', ''b'', ''c'']) ex_sys =
      (c', Ret ((Some (newEXISTSRes 3), None), sm'))) \<and>
   (\<exists>sm'. executeDEL (ex_env 30) (mk_cmd ''DEL'' [''a'', ''b'', ''b'', ''c'']) ex_sys = Ret ((Some (newDELRes 2), None), sm'))"
proof -
  have v: "sysview (ex_env 30) 2 ex_sys k = (if k = ''a'' \<or> k = ''b'' then Some (ObjTypeInt, VInt 1, None) else None)" for k
    by (simp add: sysview_eq ex_sys_db live_def expired_at_def env_okD(2) [OF ex_env_ok])
  have d: "dom (sysdb ex_hash 2 ex_sys) = {''a'', ''b''}" by (auto simp: ex_sys_db dom_def)
  have "{''a'', ''b'', ''c''} \<inter> {''a'', ''b''} = {''a'', ''b''}" by auto
  then show ?thesis
    using del_exists_system [OF ex_sys_inv ex_env_ok, of "mk_cmd ''EXISTS'' [''a'', ''b'', ''b'', ''c'']" 30]
      del_exists_system [OF ex_sys_inv ex_env_ok, of "mk_cmd ''DEL'' [''a'', ''b'', ''b'', ''c'']" 30]
    by (auto simp: v d)
qed

theorem keys_flush_system_witness:
  "(\<exists>ks. executeKEYS (ex_env 30) (mk_cmd ''KEYS'' [''b'']) ex_sys = Ret ((Some (newKEYSRes ks), None), ex_sys) \<and> set ks = {''b''}) \<and>
   (\<exists>sm'. executeFLUSHDB (ex_env 30) (mk_cmd ''FLUSHDB'' []) ex_sys = Ret ((Some FLUSHDBResOKRes, None), sm') \<and>
      sysdb ex_hash 2 sm' = Map.empty)"
proof -
  have "{k \<in> dom (sysdb ex_hash 2 ex_sys). ''b'' = k} = {''b''}" by (auto simp: ex_sys_db dom_def)
  moreover have "env_pathMatch (ex_env 30) ''b'' k = Some (''b'' = k)" for k by (simp add: ex_env_def)
  ultimately show ?thesis
    using keys_flush_system [OF ex_sys_inv ex_env_ok, of "mk_cmd ''KEYS'' [''b'']" "''b''" 30 "\<lambda>k. ''b'' = k" "mk_cmd ''FLUSHDB'' []"]
    by auto
qed

theorem set_then_get_system_witness:
  "\<exists>sm1 sm2. snd (Execute map_zops (ex_env 30) (mk_cmd ''SET'' [''b'', FormatInt 7]) ex_sys) = Ret ((Some SETResOKRes, None), sm1) \<and>
     snd (Execute map_zops (ex_env 99) (mk_cmd ''GET'' [''b'']) (cron (ex_env 50) 1 sm1)) = Ret ((Some (ok_res (GETRes (FormatInt 7))), None), sm2)"
proof -
  have c: "canonical (ex_env 99) (FormatInt 7) = FormatInt 7" by (simp add: canonical_def ParseInt_FormatInt in_i64_def)
  have p: "env_ParseFloat (ex_env 99) = env_ParseFloat (ex_env 30)" by (simp add: ex_env_def env_at_def)
  have f: "fold (\<lambda>(e', i). cron e' i) [(ex_env 50, 1)] sm = cron (ex_env 50) 1 sm" for sm :: "(string \<rightharpoonup> int) ShardManager"
    by simp
  from set_then_get_system [OF ex_sys_inv ex_env_ok ex_env_ok p map_zops_laws, of "mk_cmd ''SET'' [''b'', FormatInt 7]"
      "''b''" "FormatInt 7" "mk_cmd ''GET'' [''b'']" "[(ex_env 50, 1)]", unfolded f c]
  show ?thesis by (simp add: mk_cmd_def)
qed


end
