(* ===== verification/Watch.thy ===== *)
theory Watch
  imports Exec
begin

text \<open>
  Subscriptions: the \<^verbatim>\<open>WatchManager\<close> of \<^verbatim>\<open>internal/server/ironhawk/watch_manager.go\<close>, without the
  notification loop, which needs the shards and is in the theory Server. A Go map to \<open>bool\<close> that only
  ever stores true is a set. Threads are addressed by number (the code's \<open>*IOThread\<close>), and what the
  manager reads of a thread is its client id and mode. Each operation holds the manager's lock and is
  one step.
\<close>

record IOThread =
  t_ClientID :: string
  t_Mode :: string

type_synonym tid = nat

record WatchManager =
  wm_clientWatchThreadMap :: "string \<rightharpoonup> tid"
  wm_keyFPMap :: "string \<rightharpoonup> 64 word set"
  wm_fpClientMap :: "64 word \<rightharpoonup> string set"
  wm_fpCmdMap :: "64 word \<rightharpoonup> Cmd"

definition NewWatchManager :: WatchManager where
  "NewWatchManager = \<lparr>wm_clientWatchThreadMap = Map.empty, wm_keyFPMap = Map.empty,
     wm_fpClientMap = Map.empty, wm_fpCmdMap = Map.empty\<rparr>"

text \<open>Looking up a missing inner map gives the nil map, which ranges as an empty one.\<close>

definition elems_of :: "('k \<rightharpoonup> 'v set) \<Rightarrow> 'k \<Rightarrow> 'v set" where
  "elems_of m k = (case m k of None \<Rightarrow> {} | Some S \<Rightarrow> S)"

definition RegisterThread :: "tid \<Rightarrow> IOThread \<Rightarrow> WatchManager \<Rightarrow> WatchManager" where
  "RegisterThread i t w =
     (if t_Mode t = ''watch''
      then w\<lparr>wm_clientWatchThreadMap := (wm_clientWatchThreadMap w)(t_ClientID t \<mapsto> i)\<rparr>
      else w)"

definition HandleWatch :: "env \<Rightarrow> Cmd \<Rightarrow> tid \<Rightarrow> IOThread \<Rightarrow> WatchManager \<Rightarrow> WatchManager" where
  "HandleWatch e c i t w =
     (let fp = Fingerprint e c; key = Key c in
      w\<lparr>wm_keyFPMap := (wm_keyFPMap w)(key \<mapsto> insert fp (elems_of (wm_keyFPMap w) key)),
        wm_fpClientMap := (wm_fpClientMap w)(fp \<mapsto> insert (t_ClientID t) (elems_of (wm_fpClientMap w) fp)),
        wm_fpCmdMap := (wm_fpCmdMap w)(fp \<mapsto> c),
        wm_clientWatchThreadMap := (wm_clientWatchThreadMap w)(t_ClientID t \<mapsto> i)\<rparr>)"

text \<open>Deleting from a nil map does nothing.\<close>

definition delete_client :: "64 word \<Rightarrow> string \<Rightarrow> (64 word \<rightharpoonup> string set) \<Rightarrow> (64 word \<rightharpoonup> string set)" where
  "delete_client fp client m = (case m fp of None \<Rightarrow> m | Some S \<Rightarrow> m(fp \<mapsto> S - {client}))"

definition HandleUnwatch :: "Cmd \<Rightarrow> IOThread \<Rightarrow> WatchManager \<Rightarrow> WatchManager" where
  "HandleUnwatch c t w =
     (if length (C_Args c) \<noteq> 1 then w
      else
        case ParseUint (C_Args c ! 0) of
          None \<Rightarrow> w
        | Some n \<Rightarrow>
            let fp = word_of_nat n;
                w1 = w\<lparr>wm_fpClientMap := delete_client fp (t_ClientID t) (wm_fpClientMap w)\<rparr>
            in if elems_of (wm_fpClientMap w1) fp = {}
               then w1\<lparr>wm_fpClientMap := (wm_fpClientMap w1)(fp := None),
                       wm_fpCmdMap := (wm_fpCmdMap w1)(fp := None)\<rparr>
               else w1)"

text \<open>The loop visits every fingerprint once; deleting during a range is safe in Go.\<close>

definition CleanupThreadWatchSubscriptions :: "IOThread \<Rightarrow> WatchManager \<Rightarrow> WatchManager" where
  "CleanupThreadWatchSubscriptions t w =
     w\<lparr>wm_clientWatchThreadMap := (wm_clientWatchThreadMap w)(t_ClientID t := None),
       wm_fpClientMap := (\<lambda>fp. case wm_fpClientMap w fp of
         None \<Rightarrow> None
       | Some S \<Rightarrow> if S - {t_ClientID t} = {} then None else Some (S - {t_ClientID t}))\<rparr>"

section \<open>The manager's invariant\<close>

text \<open>Every client set is non-empty and has its command; every stored command is filed under its own
  fingerprint and listed under its key.\<close>

definition wm_inv :: "(string \<Rightarrow> 64 word) \<Rightarrow> WatchManager \<Rightarrow> bool" where
  "wm_inv farm w \<longleftrightarrow>
     (\<forall>fp S. wm_fpClientMap w fp = Some S \<longrightarrow> S \<noteq> {} \<and> finite S \<and> wm_fpCmdMap w fp \<noteq> None) \<and>
     (\<forall>fp c. wm_fpCmdMap w fp = Some c \<longrightarrow> farm (String c) = fp \<and> fp \<in> elems_of (wm_keyFPMap w) (Key c)) \<and>
     (\<forall>k S. wm_keyFPMap w k = Some S \<longrightarrow> finite S)"

lemma wm_invD:
  assumes "wm_inv farm w"
  shows "wm_fpClientMap w fp = Some S \<Longrightarrow> S \<noteq> {}" and "wm_fpClientMap w fp = Some S \<Longrightarrow> finite S"
    and "wm_fpClientMap w fp = Some S \<Longrightarrow> wm_fpCmdMap w fp \<noteq> None"
    and "wm_fpCmdMap w fp = Some c \<Longrightarrow> farm (String c) = fp"
    and "wm_fpCmdMap w fp = Some c \<Longrightarrow> fp \<in> elems_of (wm_keyFPMap w) (Key c)"
    and "wm_keyFPMap w k = Some Q \<Longrightarrow> finite Q"
  using assms unfolding wm_inv_def by blast+

lemma finite_elems: "wm_inv farm w \<Longrightarrow> finite (elems_of (wm_keyFPMap w) k) \<and> finite (elems_of (wm_fpClientMap w) fp)"
  by (auto simp: elems_of_def wm_invD split: option.split)

lemma elems_of_upd: "elems_of (m(k \<mapsto> S)) k' = (if k' = k then S else elems_of m k')"
  by (simp add: elems_of_def)

named_theorems wm_intros \<open>operations that keep the manager's invariant\<close>

lemma NewWatchManager_inv [wm_intros]: "wm_inv farm NewWatchManager"
  by (simp add: wm_inv_def NewWatchManager_def)

lemma RegisterThread_inv [wm_intros]: "wm_inv farm w \<Longrightarrow> wm_inv farm (RegisterThread i t w)"
  by (simp add: wm_inv_def RegisterThread_def)

lemma HandleWatch_inv [wm_intros]:
  assumes "wm_inv farm w" and "env_farm e = farm"
  shows "wm_inv farm (HandleWatch e c i t w)"
  using assms(2) wm_invD [OF assms(1)] finite_elems [OF assms(1)]
  by (simp add: wm_inv_def HandleWatch_def Let_def Fingerprint_def elems_of_upd) metis

lemma HandleUnwatch_inv [wm_intros]: "wm_inv farm w \<Longrightarrow> wm_inv farm (HandleUnwatch c t w)"
  by (auto simp: wm_inv_def HandleUnwatch_def Let_def delete_client_def elems_of_def split: option.splits)

lemma Cleanup_inv [wm_intros]: "wm_inv farm w \<Longrightarrow> wm_inv farm (CleanupThreadWatchSubscriptions t w)"
  by (auto simp: wm_inv_def CleanupThreadWatchSubscriptions_def split: option.splits if_splits)

end
