(* ===== verification/Server.thy ===== *)
theory Server
  imports Watch SystemProps
begin

text \<open>
  The server of \<^verbatim>\<open>internal/server/ironhawk\<close>: what an I/O thread does with a received command
  (\<^verbatim>\<open>iothread.go\<close>), the notification of watchers (\<^verbatim>\<open>watch_manager.go\<close>), and the goroutines between
  them. A started goroutine is a pending action that runs at any later moment, as one step: it runs
  under the manager's lock. An execution on the shards is atomic, too. What is handed to a connection
  is a list of messages. The package-level results share their \<open>Fingerprint64\<close> field: \<open>sv_vars\<close>
  holds its present value for each of these variables.
\<close>

datatype goroutine = GoWatch Cmd tid | GoNotify Cmd tid

record 'z Server =
  sv_sm :: "'z ShardManager"
  sv_wm :: WatchManager
  sv_thr :: "tid \<Rightarrow> IOThread"
  sv_vars :: "string \<Rightarrow> 64 word"
  sv_wal :: "(string \<times> string list) list option"
  sv_sent :: "(tid \<times> Result) list"
  sv_go :: "goroutine list"

datatype io_end = Continue | Closed

section \<open>Sending\<close>

definition maxWireSize :: nat where
  "maxWireSize = 32 * 1024 * 1024"

text \<open>The value a result's fingerprint field has when it is sent, and the fields after it.\<close>

definition settle :: "Result \<Rightarrow> (string \<Rightarrow> 64 word) \<Rightarrow> Result \<times> (string \<Rightarrow> 64 word)" where
  "settle r vars =
     (case rs_Var r of
        None \<Rightarrow> (r\<lparr>rs_Fingerprint64 := Some (case rs_Fingerprint64 r of None \<Rightarrow> 0 | Some f \<Rightarrow> f)\<rparr>, vars)
      | Some v \<Rightarrow>
          (case rs_Fingerprint64 r of
             None \<Rightarrow> (r\<lparr>rs_Fingerprint64 := Some (vars v)\<rparr>, vars)
           | Some f \<Rightarrow> (r, vars(v := f))))"

definition safeSend :: "tid \<Rightarrow> Result \<Rightarrow> 'z Server \<Rightarrow> 'z Server" where
  "safeSend i r sv =
     (let res = (if length (rs_Message r) > maxWireSize
                 then err_res (ErrorsNew ''response too large (truncated by server)'') else r)
      in sv\<lparr>sv_sent := sv_sent sv @ [(i, res)]\<rparr>)"

definition spawn :: "goroutine \<Rightarrow> 'z Server \<Rightarrow> 'z Server" where
  "spawn g sv = sv\<lparr>sv_go := sv_go sv @ [g]\<rparr>"

definition upd_thread :: "tid \<Rightarrow> (IOThread \<Rightarrow> IOThread) \<Rightarrow> 'z Server \<Rightarrow> 'z Server" where
  "upd_thread i f sv = sv\<lparr>sv_thr := (sv_thr sv)(i := f (sv_thr sv i))\<rparr>"

section \<open>One received command\<close>

definition is_watchable :: "'z zops \<Rightarrow> string \<Rightarrow> bool" where
  "is_watchable zo name =
     (case map_of (CommandRegistry zo) name of None \<Rightarrow> False | Some meta \<Rightarrow> cm_IsWatchable meta)"

text \<open>The end of the loop body: handshake, subscription, registration, reply and notification.\<close>

definition io_finish :: "env \<Rightarrow> bool \<Rightarrow> tid \<Rightarrow> Cmd \<Rightarrow> Result \<Rightarrow> 'z Server \<Rightarrow> ('z Server \<times> io_end) outcome" where
  "io_finish e send_ok i c r sv =
     (if C_Cmd c = ''HANDSHAKE'' \<and> length (C_Args c) < 2 then Panic
      else
        let sv1 = (if C_Cmd c = ''HANDSHAKE''
                   then upd_thread i (\<lambda>t. t\<lparr>t_ClientID := C_Args c ! 0, t_Mode := C_Args c ! 1\<rparr>) sv else sv);
            isWatchCmd = HasSuffix (C_Cmd c) ''WATCH'';
            sv2 = (if isWatchCmd then spawn (GoWatch c i) sv1
                   else if HasSuffix (C_Cmd c) ''UNWATCH''
                   then sv1\<lparr>sv_wm := HandleUnwatch c (sv_thr sv1 i) (sv_wm sv1)\<rparr>
                   else sv1);
            sv3 = sv2\<lparr>sv_wm := RegisterThread i (sv_thr sv2 i) (sv_wm sv2)\<rparr>
        in if isWatchCmd then Ret (spawn (GoNotify c i) sv3, Continue)
           else if \<not> send_ok then Ret (sv3, Closed)
           else Ret (spawn (GoNotify c i) (safeSend i r sv3), Continue))"

definition log_wal :: "Cmd \<Rightarrow> 'z Server \<Rightarrow> 'z Server" where
  "log_wal c sv =
     (case sv_wal sv of
        None \<Rightarrow> sv
      | Some l \<Rightarrow> if C_IsReplay c then sv else sv\<lparr>sv_wal := Some (l @ [(C_Cmd c, C_Args c)])\<rparr>)"

text \<open>After a successful execution. The command of the thread and of the wire are one object, so that
  appending \<^verbatim>\<open>.WATCH\<close> to a watchable command also changes what the rest of the loop compares.\<close>

definition io_ok ::
  "'z zops \<Rightarrow> env \<Rightarrow> bool \<Rightarrow> tid \<Rightarrow> Cmd \<Rightarrow> Result \<Rightarrow> 'z Server \<Rightarrow> ('z Server \<times> io_end) outcome" where
  "io_ok zo e send_ok i c r sv =
     (case C_Meta c of
        None \<Rightarrow> Panic
      | Some name \<Rightarrow>
          let r1 = r\<lparr>rs_Status := Status_OK, rs_Message := (if rs_Message r = [] then ''OK'' else rs_Message r)\<rparr>;
              sv1 = upd_thread i (\<lambda>t. t\<lparr>t_ClientID := C_ClientID c\<rparr>) (log_wal c sv);
              c2 = (if is_watchable zo name then c\<lparr>C_Cmd := C_Cmd c @ ''.WATCH''\<rparr> else c);
              r2 = (if is_watchable zo name then r1\<lparr>rs_Fingerprint64 := Some (Fingerprint e c2)\<rparr> else r1);
              (r3, vars) = settle r2 (sv_vars sv1)
          in io_finish e send_ok i c2 r3 (sv1\<lparr>sv_vars := vars\<rparr>))"

text \<open>\<open>send_ok\<close> says whether the connection takes the reply; a failed send ends the thread.\<close>

definition io_step ::
  "'z zops \<Rightarrow> env \<Rightarrow> bool \<Rightarrow> tid \<Rightarrow> string \<times> string list \<Rightarrow> 'z Server \<Rightarrow> ('z Server \<times> io_end) outcome" where
  "io_step zo e send_ok i wc sv =
     (let c = \<lparr>C_Cmd = fst wc, C_Args = snd wc, C_IsReplay = False, C_ClientID = t_ClientID (sv_thr sv i),
               C_Mode = t_Mode (sv_thr sv i), C_Meta = None\<rparr> in
      case Execute zo e c (sv_sm sv) of
        (c', Panic) \<Rightarrow> Panic
      | (c', Ret ((r, Some err), sm')) \<Rightarrow>
          if send_ok then Ret (safeSend i (err_res err) (sv\<lparr>sv_sm := sm'\<rparr>), Continue)
          else Ret (sv\<lparr>sv_sm := sm'\<rparr>, Closed)
      | (c', Ret ((None, None), sm')) \<Rightarrow> Panic
      | (c', Ret ((Some r, None), sm')) \<Rightarrow> io_ok zo e send_ok i c' r (sv\<lparr>sv_sm := sm'\<rparr>))"

section \<open>Notification\<close>

fun notify_clients :: "Cmd \<Rightarrow> tid \<Rightarrow> Result \<Rightarrow> string list \<Rightarrow> 'z Server \<Rightarrow> 'z Server" where
  "notify_clients c i r [] sv = sv"
| "notify_clients c i r (client # clients) sv =
     notify_clients c i r clients
       (case wm_clientWatchThreadMap (sv_wm sv) client of
          None \<Rightarrow> sv\<lparr>sv_wm := (sv_wm sv)\<lparr>wm_clientWatchThreadMap := (wm_clientWatchThreadMap (sv_wm sv))(client := None)\<rparr>\<rparr>
        | Some j \<Rightarrow>
            if HasSuffix (C_Cmd c) ''.WATCH'' \<and> t_ClientID (sv_thr sv i) \<noteq> client then sv
            else sv\<lparr>sv_sent := sv_sent sv @ [(j, r)]\<rparr>)"

text \<open>A panic of an execution ends the loop: the goroutine recovers from it. (So would an execution that
  answers neither result nor error; none does.)\<close>

fun notify_fps :: "'z zops \<Rightarrow> env \<Rightarrow> Cmd \<Rightarrow> tid \<Rightarrow> 64 word list \<Rightarrow> 'z Server \<Rightarrow> 'z Server" where
  "notify_fps zo e c i [] sv = sv"
| "notify_fps zo e c i (fp # fps) sv =
     (case wm_fpCmdMap (sv_wm sv) fp of
        None \<Rightarrow> notify_fps zo e c i fps sv
      | Some cw \<Rightarrow>
          (case Execute zo e cw (sv_sm sv) of
             (cw', Panic) \<Rightarrow> sv
           | (cw', Ret ((r, err), sm')) \<Rightarrow>
               let sv1 = sv\<lparr>sv_sm := sm', sv_wm := (sv_wm sv)\<lparr>wm_fpCmdMap := (wm_fpCmdMap (sv_wm sv))(fp \<mapsto> cw')\<rparr>\<rparr> in
               if err \<noteq> None then notify_fps zo e c i fps sv1
               else
                 case r of
                   None \<Rightarrow> sv1
                 | Some rs \<Rightarrow>
                     let (rs', vars) = settle rs (sv_vars sv1)
                     in notify_fps zo e c i fps
                          (notify_clients c i rs' (env_rangeS e (elems_of (wm_fpClientMap (sv_wm sv1)) fp))
                             (sv1\<lparr>sv_vars := vars\<rparr>))))"

definition NotifyWatchers :: "'z zops \<Rightarrow> env \<Rightarrow> Cmd \<Rightarrow> tid \<Rightarrow> 'z Server \<Rightarrow> 'z Server" where
  "NotifyWatchers zo e c i sv =
     notify_fps zo e c i (env_rangeW e (elems_of (wm_keyFPMap (sv_wm sv)) (Key c))) sv"

definition run_go :: "'z zops \<Rightarrow> env \<Rightarrow> goroutine \<Rightarrow> 'z Server \<Rightarrow> 'z Server" where
  "run_go zo e g sv =
     (case g of
        GoWatch c i \<Rightarrow> sv\<lparr>sv_wm := HandleWatch e c i (sv_thr sv i) (sv_wm sv)\<rparr>
      | GoNotify c i \<Rightarrow> NotifyWatchers zo e c i sv)"

text \<open>The hash functions are fixed, and ranging over a map visits each entry once.\<close>

definition watch_env :: "(string \<Rightarrow> 64 word) \<Rightarrow> (string \<Rightarrow> 64 word) \<Rightarrow> env \<Rightarrow> bool" where
  "watch_env h farm e \<longleftrightarrow> env_ok h e \<and> env_farm e = farm \<and>
     (\<forall>S. finite S \<longrightarrow> distinct (env_rangeW e S) \<and> set (env_rangeW e S) = S) \<and>
     (\<forall>S. finite S \<longrightarrow> distinct (env_rangeS e S) \<and> set (env_rangeS e S) = S)"

text \<open>One step of the server: a thread handles a command, a pending goroutine runs, a shard's timer ticks, or
  a connection ends.\<close>

inductive sv_step ::
  "'z zops \<Rightarrow> (string \<Rightarrow> 64 word) \<Rightarrow> (string \<Rightarrow> 64 word) \<Rightarrow> 'z Server \<Rightarrow> 'z Server \<Rightarrow> bool" for zo h farm where
  recv: "\<lbrakk>watch_env h farm e; io_step zo e send_ok i wc sv = Ret (sv', x)\<rbrakk> \<Longrightarrow> sv_step zo h farm sv sv'"
| go: "\<lbrakk>watch_env h farm e; sv_go sv = before @ g # rest\<rbrakk> \<Longrightarrow>
    sv_step zo h farm sv (run_go zo e g (sv\<lparr>sv_go := before @ rest\<rparr>))"
| tick: "\<lbrakk>watch_env h farm e; j < length (sm_shards (sv_sm sv))\<rbrakk> \<Longrightarrow>
    sv_step zo h farm sv (sv\<lparr>sv_sm := cron e j (sv_sm sv)\<rparr>)"
| eof: "sv_step zo h farm sv (sv\<lparr>sv_wm := CleanupThreadWatchSubscriptions (sv_thr sv i) (sv_wm sv)\<rparr>)"

end
