(* ===== verification/ServerProps.thy ===== *)
theory ServerProps
  imports Server
begin

text \<open>
  The server keeps the invariants of its shards and of its subscriptions in every state that clients,
  timers and pending goroutines can reach; notifications reach exactly the subscribers; and what the
  order of the goroutines and the command names do to replies and to \<^verbatim>\<open>UNWATCH\<close>.
\<close>

section \<open>Subscribed commands\<close>

definition watch_names :: "string set" where
  "watch_names = {''GET'', ''HGET'', ''HGETALL'', ''ZCARD'', ''ZCOUNT'', ''ZRANGE'', ''ZRANK'', ''GET.WATCH'',
     ''HGET.WATCH'', ''HGETALL.WATCH'', ''ZCARD.WATCH'', ''ZCOUNT.WATCH'', ''ZRANGE.WATCH'', ''ZRANK.WATCH'', ''UNWATCH''}"

definition sub_ok :: "'z zops \<Rightarrow> Cmd \<Rightarrow> bool" where
  "sub_ok zo c \<longleftrightarrow> (\<exists>name meta. C_Meta c = Some name \<and> map_of (CommandRegistry zo) name = Some meta \<and>
     name \<in> watch_names) \<and> \<not> may_panic c"

lemma registry_names:
  "map_of (CommandRegistry zo) ''GET.WATCH'' = Some cGETWATCH" "map_of (CommandRegistry zo) ''GET'' = Some cGET"
  "map_of (CommandRegistry zo) ''UNWATCH'' = Some cUNWATCH"
  by (simp_all add: registry_Some, simp_all add: all_commands_def, simp_all add: meta_defs)

lemma exec_same_cmd:
  "\<forall>meta\<in>set (all_commands zo). cm_Name meta \<in> watch_names \<longrightarrow> fst (cm_Execute meta e c sm) = c"
  unfolding all_commands_def by (simp add: meta_defs plain_def watch_names_def)

lemma sub_ok_Execute:
  assumes s: "sys_inv ok mk h n sm" and e: "env_ok h e" and l: "zset_laws zo ok m" and c: "sub_ok zo c"
  shows "\<exists>r err sm'. Execute zo e c sm = (c, Ret ((r, err), sm')) \<and> sys_inv ok mk h n sm'"
proof -
  from c obtain name meta where n: "C_Meta c = Some name" "map_of (CommandRegistry zo) name = Some meta"
    "name \<in> watch_names" and np: "\<not> may_panic c" by (auto simp: sub_ok_def)
  then have cn: "cmd_name c = name" by (simp add: cmd_name_def)
  from n(2) have "meta \<in> set (all_commands zo)" "cm_Name meta = name" by (simp_all add: registry_Some)
  then have "fst (Execute zo e c sm) = c" using exec_same_cmd [of zo e c sm] n by (simp add: Execute_def)
  moreover have "safe (sys_inv ok mk h n) (snd (Execute zo e c sm))"
    using execute_safe [OF s e l _ np] n cn by auto
  ultimately show ?thesis unfolding safe_def by (metis prod.collapse)
qed

section \<open>The server's invariant\<close>

definition sv_inv ::
  "('z \<Rightarrow> bool) \<Rightarrow> int \<Rightarrow> (string \<Rightarrow> 64 word) \<Rightarrow> nat \<Rightarrow> (string \<Rightarrow> 64 word) \<Rightarrow> 'z zops \<Rightarrow> 'z Server \<Rightarrow> bool" where
  "sv_inv ok mk h n farm zo sv \<longleftrightarrow> sys_inv ok mk h n (sv_sm sv) \<and> wm_inv farm (sv_wm sv) \<and>
     (\<forall>fp c. wm_fpCmdMap (sv_wm sv) fp = Some c \<longrightarrow> sub_ok zo c) \<and>
     (\<forall>c i. GoWatch c i \<in> set (sv_go sv) \<longrightarrow> sub_ok zo c)"

lemma sv_invD:
  assumes "sv_inv ok mk h n farm zo sv"
  shows "sys_inv ok mk h n (sv_sm sv)" and "wm_inv farm (sv_wm sv)"
    and "wm_fpCmdMap (sv_wm sv) fp = Some c \<Longrightarrow> sub_ok zo c"
    and "GoWatch c i \<in> set (sv_go sv) \<Longrightarrow> sub_ok zo c"
  using assms by (auto simp: sv_inv_def)

lemma sv_invI:
  assumes "sys_inv ok mk h n (sv_sm sv)" and "wm_inv farm (sv_wm sv)"
    and "\<And>fp c. wm_fpCmdMap (sv_wm sv) fp = Some c \<Longrightarrow> sub_ok zo c"
    and "\<And>c i. GoWatch c i \<in> set (sv_go sv) \<Longrightarrow> sub_ok zo c"
  shows "sv_inv ok mk h n farm zo sv"
  using assms unfolding sv_inv_def by blast

lemma sv_inv_frame:
  assumes "sv_inv ok mk h n farm zo sv" and "sys_inv ok mk h n (sv_sm sv')"
    and "sv_wm sv' = sv_wm sv" and "sv_go sv' = sv_go sv"
  shows "sv_inv ok mk h n farm zo sv'"
  using assms(1,2) unfolding sv_inv_def assms(3,4) by (elim conjE, intro conjI)

lemma send_frame [simp]:
  "sv_sm (safeSend i r sv) = sv_sm sv" "sv_wm (safeSend i r sv) = sv_wm sv" "sv_go (safeSend i r sv) = sv_go sv"
  "sv_sm (upd_thread i f sv) = sv_sm sv" "sv_wm (upd_thread i f sv) = sv_wm sv" "sv_go (upd_thread i f sv) = sv_go sv"
  "sv_sm (spawn g sv) = sv_sm sv" "sv_wm (spawn g sv) = sv_wm sv" "sv_go (spawn g sv) = sv_go sv @ [g]"
  "sv_sm (log_wal c sv) = sv_sm sv" "sv_wm (log_wal c sv) = sv_wm sv" "sv_go (log_wal c sv) = sv_go sv"
  "sv_sent (upd_thread i f sv) = sv_sent sv" "sv_sent (spawn g sv) = sv_sent sv" "sv_sent (log_wal c sv) = sv_sent sv"
  "sv_thr (spawn g sv) = sv_thr sv" "sv_thr (safeSend i r sv) = sv_thr sv" "sv_thr (log_wal c sv) = sv_thr sv"
  by (auto simp: safeSend_def upd_thread_def spawn_def log_wal_def Let_def split: option.split)

lemma wm_cmds_frame [simp]:
  "wm_fpCmdMap (RegisterThread i t w) = wm_fpCmdMap w"
  "wm_fpCmdMap (CleanupThreadWatchSubscriptions t w) = wm_fpCmdMap w"
  by (simp_all add: RegisterThread_def CleanupThreadWatchSubscriptions_def)

lemma HasSuffix_iff: "HasSuffix s t \<longleftrightarrow> (\<exists>p. s = p @ t)"
proof
  assume "HasSuffix s t"
  then have "s = take (length s - length t) s @ t" by (metis HasSuffix_def append_take_drop_id)
  then show "\<exists>p. s = p @ t" by blast
qed (auto simp: HasSuffix_def)

text \<open>Every command name that ends in \<^verbatim>\<open>UNWATCH\<close> ends in \<^verbatim>\<open>WATCH\<close>, so the unsubscribe branch is dead.\<close>

lemma unwatch_suffix: "HasSuffix s ''UNWATCH'' \<Longrightarrow> HasSuffix s ''WATCH''"
proof -
  assume "HasSuffix s ''UNWATCH''"
  then obtain p where "s = (p @ ''UN'') @ ''WATCH''" by (auto simp: HasSuffix_iff)
  then show ?thesis unfolding HasSuffix_iff by blast
qed

definition after_handshake :: "Cmd \<Rightarrow> IOThread \<Rightarrow> IOThread" where
  "after_handshake c t =
     (if C_Cmd c = ''HANDSHAKE'' then t\<lparr>t_ClientID := C_Args c ! 0, t_Mode := C_Args c ! 1\<rparr> else t)"

lemma io_finish_fields:
  assumes "io_finish e send_ok i c r sv = Ret (sv', x)"
  shows "sv_sm sv' = sv_sm sv"
    and "sv_wm sv' = RegisterThread i (after_handshake c (sv_thr sv i)) (sv_wm sv)"
    and "sv_go sv' = sv_go sv @ (if HasSuffix (C_Cmd c) ''WATCH'' then [GoWatch c i, GoNotify c i]
      else if send_ok then [GoNotify c i] else [])"
    and "HasSuffix (C_Cmd c) ''WATCH'' \<Longrightarrow> sv_sent sv' = sv_sent sv"
    and "sv_thr sv' = (sv_thr sv)(i := after_handshake c (sv_thr sv i))"
  using assms unwatch_suffix [of "C_Cmd c"]
  by (auto simp: io_finish_def after_handshake_def Let_def upd_thread_def split: if_splits)

lemma io_finish_inv:
  assumes sv: "sv_inv ok mk h n farm zo sv" and c: "HasSuffix (C_Cmd c) ''WATCH'' \<Longrightarrow> sub_ok zo c"
    and io: "io_finish e send_ok i c r sv = Ret (sv', x)"
  shows "sv_inv ok mk h n farm zo sv'"
proof -
  note f = io_finish_fields [OF io]
  have "sub_ok zo q" if "GoWatch q j \<in> set (sv_go sv')" for q j
    using that sv_invD(4) [OF sv, of q j] c unfolding f(3) by (auto split: if_splits)
  moreover have "wm_inv farm (sv_wm sv')" unfolding f(2) by (rule RegisterThread_inv [OF sv_invD(2) [OF sv]])
  moreover have "wm_fpCmdMap (sv_wm sv') = wm_fpCmdMap (sv_wm sv)" unfolding f(2) by simp
  ultimately show ?thesis
    using sv_invD(1,3) [OF sv] f(1) unfolding sv_inv_def by metis
qed

section \<open>A received command keeps the invariant\<close>

lemma exists_shards_cmd:
  "C_Cmd (fst (exists_shards e gs c cnt sm)) = C_Cmd c \<and> C_Meta (fst (exists_shards e gs c cnt sm)) = C_Meta c"
  by (induction e gs c cnt sm rule: exists_shards.induct)
    (auto simp: Let_def split: outcome.split option.split prod.split)

lemma exec_cmd_fields:
  "\<forall>meta\<in>set (all_commands zo). C_Cmd (fst (cm_Execute meta e c sm)) = C_Cmd c \<and> C_Meta (fst (cm_Execute meta e c sm)) = C_Meta c"
proof -
  have "C_Cmd (fst (executeEXISTS e c sm)) = C_Cmd c \<and> C_Meta (fst (executeEXISTS e c sm)) = C_Meta c"
    by (auto simp: executeEXISTS_def exists_shards_cmd split: outcome.split)
  moreover have "C_Cmd (fst (executeHANDSHAKE e c sm)) = C_Cmd c \<and> C_Meta (fst (executeHANDSHAKE e c sm)) = C_Meta c"
    by (auto simp: executeHANDSHAKE_def evalHANDSHAKE_def split: outcome.split)
  ultimately show ?thesis unfolding all_commands_def by (simp add: meta_defs plain_def)
qed

lemma watch_suffix_names:
  "\<forall>meta\<in>set (all_commands zo). HasSuffix (cm_Name meta) ''WATCH'' \<or> cm_IsWatchable meta \<longrightarrow> cm_Name meta \<in> watch_names"
  unfolding all_commands_def by (simp add: meta_defs watch_names_def HasSuffix_def)

lemma watchable_names:
  assumes "is_watchable zo name"
  shows "name \<in> watch_names"
proof -
  from assms obtain meta where "map_of (CommandRegistry zo) name = Some meta" "cm_IsWatchable meta"
    by (auto simp: is_watchable_def split: option.splits)
  then show ?thesis using watch_suffix_names [of zo] by (auto simp: registry_Some)
qed

lemma Execute_fresh:
  assumes "Execute zo e c sm = (c', Ret ((r, None), sm'))" and "C_Meta c = None"
  shows "\<exists>meta. map_of (CommandRegistry zo) (C_Cmd c) = Some meta \<and> C_Cmd c' = C_Cmd c \<and> C_Meta c' = Some (C_Cmd c) \<and>
    (C_Cmd c \<in> watch_names \<longrightarrow> C_Args c' = C_Args c)"
proof (cases "map_of (CommandRegistry zo) (C_Cmd c)")
  case (Some meta)
  let ?c = "c\<lparr>C_Meta := Some (C_Cmd c)\<rparr>"
  have m: "meta \<in> set (all_commands zo)" "cm_Name meta = C_Cmd c" using Some by (simp_all add: registry_Some)
  have c': "c' = fst (cm_Execute meta e ?c sm)" using assms Some by (simp add: Execute_def)
  with m exec_cmd_fields [of zo e ?c sm] have "C_Cmd c' = C_Cmd c" "C_Meta c' = Some (C_Cmd c)" by auto
  moreover have "C_Args c' = C_Args c" if "C_Cmd c \<in> watch_names"
    using that m exec_same_cmd [of zo e ?c sm] by (auto simp: c')
  ultimately show ?thesis using Some by blast
qed (use assms in \<open>auto simp: Execute_def\<close>)

lemma short_watch_Panic:
  assumes "sys_inv ok mk h n sm" and "env_ok h e" and "length (C_Args c) = 1"
    and "C_Meta c = None" and "C_Cmd c = ''HGET.WATCH'' \<or> C_Cmd c = ''ZRANK.WATCH''"
  shows "snd (Execute zo e c sm) = Panic"
proof -
  let ?c = "c\<lparr>C_Meta := Some (C_Cmd c)\<rparr>"
  have "keeps (\<lambda>_. False) (executeHGETWATCH e ?c sm)" "keeps (\<lambda>_. False) (executeZRANKWATCH zo e ?c sm)"
    using short_watch_keeps [OF assms(1,2), of ?c] assms(3) by simp_all
  then have "executeHGETWATCH e ?c sm = Panic" "executeZRANKWATCH zo e ?c sm = Panic"
    by (metis keeps_def outcome.exhaust prod.exhaust)+
  moreover have "map_of (CommandRegistry zo) ''HGET.WATCH'' = Some cHGETWATCH"
    "map_of (CommandRegistry zo) ''ZRANK.WATCH'' = Some (cZRANKWATCH zo)"
    by (simp_all add: registry_Some, simp_all add: all_commands_def, simp_all add: meta_defs)
  ultimately show ?thesis using assms(4,5) by (auto simp: Execute_def cHGETWATCH_def cZRANKWATCH_def plain_def)
qed

text \<open>The command that a successful execution leaves may be subscribed when its name says so.\<close>

lemma executed_sub_ok:
  assumes s: "sys_inv ok mk h n sm" and e: "env_ok h e"
    and ex: "Execute zo e c sm = (c', Ret ((r, None), sm'))" and c: "C_Meta c = None"
    and w: "is_watchable zo (C_Cmd c) \<or> HasSuffix (C_Cmd c) ''WATCH''"
    and c2: "C_Meta c2 = C_Meta c'" "C_Args c2 = C_Args c'"
  shows "sub_ok zo c2"
proof -
  from Execute_fresh [OF ex c] obtain meta where m: "map_of (CommandRegistry zo) (C_Cmd c) = Some meta"
    "C_Meta c' = Some (C_Cmd c)" "C_Cmd c \<in> watch_names \<longrightarrow> C_Args c' = C_Args c" by blast
  have "meta \<in> set (all_commands zo)" "cm_Name meta = C_Cmd c" using m(1) by (simp_all add: registry_Some)
  with w m(1) watch_suffix_names [of zo] have wn: "C_Cmd c \<in> watch_names" by (auto simp: is_watchable_def)
  have "\<not> may_panic c2"
  proof
    assume "may_panic c2"
    then have "(C_Cmd c = ''HGET.WATCH'' \<or> C_Cmd c = ''ZRANK.WATCH'') \<and> length (C_Args c) = 1"
      using wn m(2,3) c2 by (auto simp: may_panic_def cmd_name_def watch_names_def)
    with short_watch_Panic [OF s e _ c, of zo] ex show False by simp
  qed
  with m wn c2 show ?thesis by (simp add: sub_ok_def)
qed

lemma io_ok_fields:
  assumes "io_ok zo e send_ok i c r sv = Ret (sv', x)" and "C_Meta c = Some name"
  shows "\<exists>r3 sv2. io_finish e send_ok i (if is_watchable zo name then c\<lparr>C_Cmd := C_Cmd c @ ''.WATCH''\<rparr> else c) r3 sv2 =
      Ret (sv', x) \<and> sv_sm sv2 = sv_sm sv \<and> sv_wm sv2 = sv_wm sv \<and> sv_go sv2 = sv_go sv \<and> sv_sent sv2 = sv_sent sv \<and>
      sv_thr sv2 = (sv_thr sv)(i := (sv_thr sv i)\<lparr>t_ClientID := C_ClientID c\<rparr>)"
proof -
  let ?c2 = "if is_watchable zo name then c\<lparr>C_Cmd := C_Cmd c @ ''.WATCH''\<rparr> else c"
  let ?sv1 = "upd_thread i (\<lambda>t. t\<lparr>t_ClientID := C_ClientID c\<rparr>) (log_wal c sv)"
  obtain r3 vars where "io_finish e send_ok i ?c2 r3 (?sv1\<lparr>sv_vars := vars\<rparr>) = Ret (sv', x)"
    using assms by (simp add: io_ok_def Let_def case_prod_unfold)
  then show ?thesis
    by (intro exI [of _ r3] exI [of _ "?sv1\<lparr>sv_vars := vars\<rparr>"]) (simp add: upd_thread_def)
qed

lemma io_step_inv:
  assumes sv: "sv_inv ok mk h n farm zo sv" and e: "env_ok h e" and l: "zset_laws zo ok m"
    and io: "io_step zo e send_ok i wc sv = Ret (sv', x)"
  shows "sv_inv ok mk h n farm zo sv'"
proof -
  let ?c = "\<lparr>C_Cmd = fst wc, C_Args = snd wc, C_IsReplay = False, C_ClientID = t_ClientID (sv_thr sv i),
      C_Mode = t_Mode (sv_thr sv i), C_Meta = None\<rparr>"
  note s = sv_invD(1) [OF sv]
  obtain c' out where x: "Execute zo e ?c (sv_sm sv) = (c', out)" by (rule prod.exhaust)
  with io have "out \<noteq> Panic" by (auto simp: io_step_def)
  then obtain r err sm' where "out = Ret ((r, err), sm')" by (metis outcome.exhaust prod.exhaust)
  with x have ex: "Execute zo e ?c (sv_sm sv) = (c', Ret ((r, err), sm'))" by simp
  have s': "sys_inv ok mk h n sm'" using Execute_keeps [OF s e l, of ?c] ex by simp
  have sv1: "sv_inv ok mk h n farm zo (sv\<lparr>sv_sm := sm'\<rparr>)"
    by (rule sv_inv_frame [OF sv]) (simp_all add: s')
  show ?thesis
  proof (cases err)
    case (Some er)
    with io ex have "sv' = (if send_ok then safeSend i (err_res er) (sv\<lparr>sv_sm := sm'\<rparr>) else sv\<lparr>sv_sm := sm'\<rparr>)"
      by (cases r) (simp_all add: io_step_def split: if_splits)
    then show ?thesis by (intro sv_inv_frame [OF sv]) (simp_all add: s')
  next
    case None
    note ex = ex [unfolded None]
    with io obtain rs where r: "r = Some rs" and ok: "io_ok zo e send_ok i c' rs (sv\<lparr>sv_sm := sm'\<rparr>) = Ret (sv', x)"
      by (cases r) (simp_all add: io_step_def)
    have c': "C_Meta c' = Some (fst wc)" "C_Cmd c' = fst wc" using Execute_fresh [OF ex] by simp_all
    let ?c2 = "if is_watchable zo (fst wc) then c'\<lparr>C_Cmd := C_Cmd c' @ ''.WATCH''\<rparr> else c'"
    from io_ok_fields [OF ok c'(1)] obtain r3 sv2 where fin: "io_finish e send_ok i ?c2 r3 sv2 = Ret (sv', x)"
      and sv2: "sv_sm sv2 = sm'" "sv_wm sv2 = sv_wm sv" "sv_go sv2 = sv_go sv" by (elim exE conjE) simp
    have sub: "sub_ok zo ?c2" if suffix: "HasSuffix (C_Cmd ?c2) ''WATCH''"
    proof (rule executed_sub_ok [OF s e ex])
      show "is_watchable zo (C_Cmd ?c) \<or> HasSuffix (C_Cmd ?c) ''WATCH''"
        using suffix c'(2) by (cases "is_watchable zo (fst wc)") simp_all
    qed simp_all
    have "sv_inv ok mk h n farm zo sv2" by (rule sv_inv_frame [OF sv]) (simp_all add: s' sv2)
    from io_finish_inv [OF this sub fin] show ?thesis .
  qed
qed

section \<open>Notifications\<close>

lemma map_filter_set: "set (List.map_filter f xs) = {y. \<exists>x\<in>set xs. f x = Some y}"
  by (auto simp: List.map_filter_def image_def)

text \<open>The threads that a list of clients resolves to, for a command and the thread that ran it.\<close>

definition targets :: "Cmd \<Rightarrow> tid \<Rightarrow> 'z Server \<Rightarrow> string list \<Rightarrow> tid list" where
  "targets c i sv clients = List.map_filter (\<lambda>client. if HasSuffix (C_Cmd c) ''.WATCH'' \<and> t_ClientID (sv_thr sv i) \<noteq> client
     then None else wm_clientWatchThreadMap (sv_wm sv) client) clients"

lemma targets_frame:
  "sv_wm sv' = sv_wm sv \<Longrightarrow> sv_thr sv' = sv_thr sv \<Longrightarrow> targets c i sv' clients = targets c i sv clients"
  by (simp only: targets_def)

lemma targets_Cons:
  "targets c i sv (client # clients) =
   (if HasSuffix (C_Cmd c) ''.WATCH'' \<and> t_ClientID (sv_thr sv i) \<noteq> client then []
    else case wm_clientWatchThreadMap (sv_wm sv) client of None \<Rightarrow> [] | Some j \<Rightarrow> [j]) @ targets c i sv clients"
  by (simp add: targets_def split: option.split)

lemma notify_clients_spec:
  "sv_sent (notify_clients c i r clients sv) = sv_sent sv @ map (\<lambda>j. (j, r)) (targets c i sv clients) \<and>
   sv_sm (notify_clients c i r clients sv) = sv_sm sv \<and> sv_go (notify_clients c i r clients sv) = sv_go sv \<and>
   sv_wm (notify_clients c i r clients sv) = sv_wm sv \<and> sv_thr (notify_clients c i r clients sv) = sv_thr sv"
proof (induction clients arbitrary: sv)
  case (Cons client clients)
  show ?case
  proof (cases "wm_clientWatchThreadMap (sv_wm sv) client")
    case None
    then have "sv\<lparr>sv_wm := (sv_wm sv)\<lparr>wm_clientWatchThreadMap := (wm_clientWatchThreadMap (sv_wm sv))(client := None)\<rparr>\<rparr> = sv"
      by (simp add: fun_upd_idem_iff)
    then have "notify_clients c i r (client # clients) sv = notify_clients c i r clients sv"
      unfolding notify_clients.simps None option.case by (rule arg_cong)
    with Cons.IH None show ?thesis by (simp add: targets_Cons)
  next
    case (Some j)
    have "targets c i (sv\<lparr>sv_sent := sv_sent sv @ [(j, r)]\<rparr>) clients = targets c i sv clients"
      by (rule targets_frame) simp_all
    with Cons.IH Some show ?thesis by (simp add: targets_Cons)
  qed
qed (simp add: targets_def)

text \<open>One round of the loop, for a subscription whose execution returns and leaves its command as it is.\<close>

lemma notify_round:
  assumes "wm_fpCmdMap (sv_wm sv) fp = Some cw" and "Execute zo e cw (sv_sm sv) = (cw, Ret ((r, err), sm'))"
  obtains (error) "err \<noteq> None" "notify_fps zo e c i (fp # fps) sv = notify_fps zo e c i fps (sv\<lparr>sv_sm := sm'\<rparr>)"
  | (silent) "err = None" "r = None" "notify_fps zo e c i (fp # fps) sv = sv\<lparr>sv_sm := sm'\<rparr>"
  | (notified) rs rs' vars where "err = None" "r = Some rs" "settle rs (sv_vars sv) = (rs', vars)"
      "notify_fps zo e c i (fp # fps) sv = notify_fps zo e c i fps (notify_clients c i rs'
        (env_rangeS e (elems_of (wm_fpClientMap (sv_wm sv)) fp)) (sv\<lparr>sv_sm := sm', sv_vars := vars\<rparr>))"
proof -
  have "(wm_fpCmdMap (sv_wm sv))(fp \<mapsto> cw) = wm_fpCmdMap (sv_wm sv)" using assms(1) by (simp add: fun_upd_idem_iff)
  then have eq: "sv\<lparr>sv_sm := sm', sv_wm := (sv_wm sv)\<lparr>wm_fpCmdMap := (wm_fpCmdMap (sv_wm sv))(fp \<mapsto> cw)\<rparr>\<rparr> = sv\<lparr>sv_sm := sm'\<rparr>"
    by simp
  have round: "notify_fps zo e c i (fp # fps) sv =
      (if err \<noteq> None then notify_fps zo e c i fps (sv\<lparr>sv_sm := sm'\<rparr>)
       else case r of None \<Rightarrow> sv\<lparr>sv_sm := sm'\<rparr>
         | Some rs \<Rightarrow> (case settle rs (sv_vars sv) of (rs', vars) \<Rightarrow>
             notify_fps zo e c i fps (notify_clients c i rs' (env_rangeS e (elems_of (wm_fpClientMap (sv_wm sv)) fp))
               (sv\<lparr>sv_sm := sm', sv_vars := vars\<rparr>))))"
    unfolding notify_fps.simps(2) assms option.case prod.case outcome.case Let_def eq
    by (simp cong: if_cong option.case_cong)
  obtain rs' vars where s: "settle (the r) (sv_vars sv) = (rs', vars)" by (rule prod.exhaust)
  consider "err \<noteq> None" | "err = None" "r = None" | rs where "err = None" "r = Some rs" by (cases r) auto
  then show ?thesis
  proof cases
    case 1
    show ?thesis by (rule error [OF 1]) (simp only: round 1 if_True not_False_eq_True)
  next
    case 2
    show ?thesis by (rule silent [OF 2]) (simp add: round 2 del: notify_fps.simps)
  next
    case 3
    show ?thesis
      by (rule notified [OF 3, of rs' vars]) (use s in \<open>simp_all add: round 3 del: notify_fps.simps\<close>)
  qed
qed

lemma notify_fps_inv:
  assumes "sv_inv ok mk h n farm zo sv" and "watch_env h farm e" and "zset_laws zo ok m"
  shows "sv_inv ok mk h n farm zo (notify_fps zo e c i fps sv)"
  using assms(1)
proof (induction fps arbitrary: sv)
  case (Cons fp fps)
  note sv = Cons.prems
  show ?case
  proof (cases "wm_fpCmdMap (sv_wm sv) fp")
    case (Some cw)
    have e: "env_ok h e" using assms(2) by (simp add: watch_env_def)
    from sub_ok_Execute [OF sv_invD(1) [OF sv] e assms(3) sv_invD(3) [OF sv Some]] obtain r err sm' where
      ex: "Execute zo e cw (sv_sm sv) = (cw, Ret ((r, err), sm'))" "sys_inv ok mk h n sm'" by blast
    have i1: "sv_inv ok mk h n farm zo (sv\<lparr>sv_sm := sm'\<rparr>)" by (rule sv_inv_frame [OF sv]) (simp_all add: ex(2))
    have i2: "sv_inv ok mk h n farm zo (notify_clients c i rs cs (sv\<lparr>sv_sm := sm', sv_vars := vars\<rparr>))" for rs cs vars
      by (rule sv_inv_frame [OF sv]) (simp_all add: notify_clients_spec ex(2))
    show ?thesis
    proof (rule notify_round [OF Some ex(1), of c i fps])
    qed (metis i1 Cons.IH i2)+
  next
    case None
    then show ?thesis using Cons.IH [OF sv] by simp
  qed
qed simp

lemma server_keeps:
  assumes sv: "sv_inv ok mk h n farm zo sv" and l: "zset_laws zo ok m" and st: "sv_step zo h farm sv sv'"
  shows "sv_inv ok mk h n farm zo sv'"
  using st
proof cases
  case (recv e send_ok i wc x)
  have "env_ok h e" using recv(1) by (simp add: watch_env_def)
  from io_step_inv [OF sv this l recv(2)] show ?thesis .
next
  case (go e before g rest)
  let ?sv = "sv\<lparr>sv_go := before @ rest\<rparr>"
  have g: "sub_ok zo c" if "g = GoWatch c i" for c i using sv_invD(4) [OF sv, of c i] go(3) that by simp
  have i: "sv_inv ok mk h n farm zo ?sv"
    by (rule sv_invI) (simp_all add: sv_invD(1-3) [OF sv], rule sv_invD(4) [OF sv], auto simp: go(3))
  show ?thesis
  proof (cases g)
    case (GoWatch c j)
    have "wm_inv farm (HandleWatch e c j (sv_thr sv j) (sv_wm sv))"
      using HandleWatch_inv [OF sv_invD(2) [OF sv]] go(2) by (simp add: watch_env_def)
    moreover have "sub_ok zo q" if "wm_fpCmdMap (HandleWatch e c j (sv_thr sv j) (sv_wm sv)) fp = Some q" for fp q
      using that g [OF GoWatch] sv_invD(3) [OF sv] by (auto simp: HandleWatch_def Let_def split: if_splits)
    ultimately show ?thesis
      unfolding go(1) run_go_def GoWatch goroutine.case by (intro sv_invI) (simp_all add: sv_invD(1) [OF sv], rule sv_invD(4) [OF i], simp)
  next
    case (GoNotify c j)
    with notify_fps_inv [OF i go(2) l] go(1) show ?thesis by (simp add: run_go_def NotifyWatchers_def)
  qed
next
  case (tick e j)
  have "sys_inv ok mk h n (cron e j (sv_sm sv))"
    using cron_inv [OF sv_invD(1) [OF sv]] tick(2,3) sys_invD(1) [OF sv_invD(1) [OF sv]] by (simp add: watch_env_def)
  then show ?thesis unfolding tick(1) by (intro sv_inv_frame [OF sv]) simp_all
next
  case (eof i)
  have "wm_inv farm (CleanupThreadWatchSubscriptions (sv_thr sv i) (sv_wm sv))"
    by (rule Cleanup_inv [OF sv_invD(2) [OF sv]])
  then show ?thesis
    unfolding eof by (intro sv_invI) (simp_all add: sv_invD(1) [OF sv], (erule sv_invD(3) [OF sv] sv_invD(4) [OF sv])+)
qed

section \<open>Properties\<close>

definition sv_start :: "'z Server \<Rightarrow> bool" where
  "sv_start sv \<longleftrightarrow> sv_wm sv = NewWatchManager \<and> sv_go sv = [] \<and> sv_sent sv = []"


lemma notify_fps_sound:
  assumes "sv_inv ok mk h n farm zo sv" and "watch_env h farm e" and "zset_laws zo ok m"
  shows "\<exists>msgs. sv_sent (notify_fps zo e c i fps sv) = sv_sent sv @ msgs \<and>
    (\<forall>(j, r)\<in>set msgs. \<exists>fp\<in>set fps. \<exists>client\<in>elems_of (wm_fpClientMap (sv_wm sv)) fp.
      wm_clientWatchThreadMap (sv_wm sv) client = Some j \<and>
      (HasSuffix (C_Cmd c) ''.WATCH'' \<longrightarrow> t_ClientID (sv_thr sv i) = client))"
  using assms(1)
proof (induction fps arbitrary: sv)
  case (Cons fp fps)
  note sv = Cons.prems
  show ?case
  proof (cases "wm_fpCmdMap (sv_wm sv) fp")
    case (Some cw)
    have e: "env_ok h e" and fin: "\<And>S. finite S \<Longrightarrow> set (env_rangeS e S) = S"
      using assms(2) by (auto simp: watch_env_def)
    from sub_ok_Execute [OF sv_invD(1) [OF sv] e assms(3) sv_invD(3) [OF sv Some]] obtain r err sm' where
      ex: "Execute zo e cw (sv_sm sv) = (cw, Ret ((r, err), sm'))" "sys_inv ok mk h n sm'" by blast
    have i1: "sv_inv ok mk h n farm zo (sv\<lparr>sv_sm := sm'\<rparr>)" by (rule sv_inv_frame [OF sv]) (simp_all add: ex(2))
    show ?thesis
    proof (rule notify_round [OF Some ex(1), of c i fps])
      assume "err \<noteq> None" and eq: "notify_fps zo e c i (fp # fps) sv = notify_fps zo e c i fps (sv\<lparr>sv_sm := sm'\<rparr>)"
      from Cons.IH [OF i1] show ?thesis unfolding eq by fastforce
    next
      assume "notify_fps zo e c i (fp # fps) sv = sv\<lparr>sv_sm := sm'\<rparr>"
      then show ?thesis by (intro exI [of _ "[]"]) simp
    next
      fix rs rs' vars
      let ?cs = "env_rangeS e (elems_of (wm_fpClientMap (sv_wm sv)) fp)"
      let ?sv = "notify_clients c i rs' ?cs (sv\<lparr>sv_sm := sm', sv_vars := vars\<rparr>)"
      assume eq: "notify_fps zo e c i (fp # fps) sv = notify_fps zo e c i fps ?sv"
      have i2: "sv_inv ok mk h n farm zo ?sv"
        by (rule sv_inv_frame [OF sv]) (simp_all add: notify_clients_spec ex(2))
      have t: "targets c i (sv\<lparr>sv_sm := sm', sv_vars := vars\<rparr>) ?cs = targets c i sv ?cs" by (rule targets_frame) simp_all
      have cs: "set ?cs = elems_of (wm_fpClientMap (sv_wm sv)) fp" using finite_elems [OF sv_invD(2) [OF sv]] fin by blast
      from Cons.IH [OF i2] obtain msgs where
        m: "sv_sent (notify_fps zo e c i fps ?sv) = sv_sent ?sv @ msgs"
        "\<forall>(j, r)\<in>set msgs. \<exists>fp\<in>set fps. \<exists>client\<in>elems_of (wm_fpClientMap (sv_wm sv)) fp.
          wm_clientWatchThreadMap (sv_wm sv) client = Some j \<and>
          (HasSuffix (C_Cmd c) ''.WATCH'' \<longrightarrow> t_ClientID (sv_thr sv i) = client)"
        by (auto simp: notify_clients_spec)
      have "\<exists>client\<in>elems_of (wm_fpClientMap (sv_wm sv)) fp. wm_clientWatchThreadMap (sv_wm sv) client = Some j \<and>
          (HasSuffix (C_Cmd c) ''.WATCH'' \<longrightarrow> t_ClientID (sv_thr sv i) = client)" if "j \<in> set (targets c i sv ?cs)" for j
        using that cs by (auto simp: targets_def map_filter_set split: if_splits)
      with m show ?thesis
        unfolding eq by (intro exI [of _ "map (\<lambda>j. (j, rs')) (targets c i sv ?cs) @ msgs"])
          (auto simp: notify_clients_spec t)
    qed
  next
    case None
    then show ?thesis using Cons.IH [OF sv] by auto
  qed
qed simp

text \<open>C20. A notification after a command on a key sends only to threads of clients that are subscribed to that
  key; after a \<^verbatim>\<open>.WATCH\<close> command only to the client that sent it.\<close>

theorem notify_only_subscribers:
  assumes sv: "sv_inv ok mk h n farm zo sv" and e: "watch_env h farm e" and l: "zset_laws zo ok m"
  shows "\<exists>msgs. sv_sent (NotifyWatchers zo e c i sv) = sv_sent sv @ msgs \<and>
    (\<forall>(j, r)\<in>set msgs. \<exists>fp\<in>elems_of (wm_keyFPMap (sv_wm sv)) (Key c). \<exists>client\<in>elems_of (wm_fpClientMap (sv_wm sv)) fp.
      wm_clientWatchThreadMap (sv_wm sv) client = Some j \<and>
      (HasSuffix (C_Cmd c) ''.WATCH'' \<longrightarrow> t_ClientID (sv_thr sv i) = client))"
proof -
  have s: "set (env_rangeW e (elems_of (wm_keyFPMap (sv_wm sv)) (Key c))) = elems_of (wm_keyFPMap (sv_wm sv)) (Key c)"
    using e finite_elems [OF sv_invD(2) [OF sv]] by (simp add: watch_env_def)
  show ?thesis
    using notify_fps_sound [OF assms, of c i "env_rangeW e (elems_of (wm_keyFPMap (sv_wm sv)) (Key c))"]
    unfolding s NotifyWatchers_def .
qed

section \<open>Witnesses\<close>

text \<open>A server on two shards, with client c0 of thread 0 subscribed to the key b.\<close>

definition ex_cw :: Cmd where
  "ex_cw = \<lparr>C_Cmd = ''GET.WATCH'', C_Args = [''b''], C_IsReplay = False, C_ClientID = ''c0'', C_Mode = ''watch'',
     C_Meta = Some ''GET.WATCH''\<rparr>"

definition ex_thr :: "tid \<Rightarrow> IOThread" where
  "ex_thr i = (if i = 0 then \<lparr>t_ClientID = ''c0'', t_Mode = ''watch''\<rparr> else \<lparr>t_ClientID = ''c1'', t_Mode = ''command''\<rparr>)"

definition ex_started :: "(string \<rightharpoonup> int) Server" where
  "ex_started = \<lparr>sv_sm = ex_sys, sv_wm = NewWatchManager, sv_thr = ex_thr, sv_vars = (\<lambda>_. 0), sv_wal = None,
     sv_sent = [], sv_go = []\<rparr>"

definition ex_sv :: "(string \<rightharpoonup> int) Server" where
  "ex_sv = ex_started\<lparr>sv_wm := HandleWatch (ex_env 30) ex_cw 0 (ex_thr 0) NewWatchManager\<rparr>"

lemma ex_watch_env: "watch_env ex_hash (\<lambda>_. 0) (ex_env t)"
  using ex_env_ok [of t] by (simp add: watch_env_def, simp add: ex_env_def env_at_def)

lemma ex_farm: "env_farm (ex_env t) = (\<lambda>_. 0)"
  by (simp add: ex_env_def env_at_def)

lemma ex_cw_ok: "sub_ok zo ex_cw"
  by (simp add: sub_ok_def ex_cw_def watch_names_def may_panic_def cmd_name_def registry_names)

lemma ex_started_inv: "sv_inv (\<lambda>m. finite (dom m)) 9 ex_hash 2 (\<lambda>_. 0) zo ex_started"
  by (rule sv_invI) (simp_all add: ex_started_def ex_sys_inv NewWatchManager_inv, simp add: NewWatchManager_def)

lemma ex_sv_inv: "sv_inv (\<lambda>m. finite (dom m)) 9 ex_hash 2 (\<lambda>_. 0) zo ex_sv"
proof (rule sv_invI)
  show "wm_inv (\<lambda>_. 0) (sv_wm ex_sv)"
    using HandleWatch_inv [OF NewWatchManager_inv ex_farm] by (simp add: ex_sv_def)
  show "sub_ok zo c" if "wm_fpCmdMap (sv_wm ex_sv) fp = Some c" for fp c
    using that ex_cw_ok by (auto simp: ex_sv_def HandleWatch_def Let_def NewWatchManager_def split: if_splits)
qed (simp_all add: ex_sv_def ex_started_def ex_sys_inv)

lemma ex_sv_maps:
  "elems_of (wm_keyFPMap (sv_wm ex_sv)) k = (if k = ''b'' then {0} else {})"
  "wm_fpCmdMap (sv_wm ex_sv) 0 = Some ex_cw" "elems_of (wm_fpClientMap (sv_wm ex_sv)) 0 = {''c0''}"
  "wm_clientWatchThreadMap (sv_wm ex_sv) = [''c0'' \<mapsto> 0]" "sv_thr ex_sv = ex_thr" "sv_sent ex_sv = []"
  "sv_sm ex_sv = ex_sys" "sv_go ex_sv = []"
  by (simp_all add: ex_sv_def ex_started_def HandleWatch_def Let_def NewWatchManager_def elems_of_def ex_cw_def Key_def
      Fingerprint_def ex_farm ex_thr_def)


theorem notify_only_subscribers_witness:
  "\<exists>msgs. sv_sent (NotifyWatchers map_zops (ex_env 40) (mk_cmd ''SET'' [''b'', ''7'']) 1 ex_sv) = msgs \<and> fst ` set msgs \<subseteq> {0}"
  using notify_only_subscribers [OF ex_sv_inv ex_watch_env [of 40] map_zops_laws, of "mk_cmd ''SET'' [''b'', ''7'']" 1]
  by (auto simp: ex_sv_maps Key_def)

end
