(* ===== verification/Delivery.thy ===== *)
theory Delivery
  imports ServerProps
begin

text \<open>
  What subscribers receive, from the write of a key to the message on the subscriber's connection, and
  three behaviours that the order of the goroutines and the command names decide: the reply of a
  watchable command, \<^verbatim>\<open>UNWATCH\<close>, and what the end of a connection leaves behind.
\<close>

section \<open>One subscription\<close>

text \<open>The execution of the two commands of the end-to-end property, on the shard of their key.\<close>

lemma Execute_SET:
  assumes s: "sys_inv ok mk h n sm" and e: "env_ok h e"
    and c: "C_Meta c = None" "C_Cmd c = ''SET''" "C_Args c = [key, val]"
  shows "\<exists>sm'. Execute zo e c sm = (c\<lparr>C_Meta := Some ''SET''\<rparr>, Ret ((Some SETResOKRes, None), sm')) \<and>
    sysdb h n sm' key = Some (string_type e val, string_value e val, None)"
proof -
  let ?i = "shard_of h n key" and ?c = "c\<lparr>C_Meta := Some ''SET''\<rparr>"
  have x: "env_xxhash e = h" using e by simp
  note i = GetShard_sys(2) [OF s x, of key]
  from evalSET_plain [OF sys_invD(4) [OF s i], of ?c key val e] c obtain s' where
    s': "evalSET e ?c (shard_store sm ?i) = Ret ((Some SETResOKRes, None), s')"
      "db s' key = Some (string_type e val, string_value e val, None)" by auto
  have "Execute zo e c sm = (?c, Ret ((Some SETResOKRes, None), set_shard_store ?i s' sm))"
    using c s'(1) GetShard_sys(1) [OF s x, of key]
    by (simp add: Execute_def cSET_def plain_def executeSET_def on_key_def on_store_def)
  moreover have "sysdb h n (set_shard_store ?i s' sm) key = Some (string_type e val, string_value e val, None)"
    using s'(2) by (simp add: sysdb_set [OF s i])
  ultimately show ?thesis by blast
qed

lemma Execute_GETWATCH:
  assumes s: "sys_inv ok mk h n sm" and e: "env_ok h e"
    and c: "C_Meta c = Some ''GET.WATCH''" "C_Args c = [key]"
    and d: "sysdb h n sm key = Some (string_type e val, string_value e val, None)"
  shows "\<exists>sm'. Execute zo e c sm =
    (c, Ret ((Some ((ok_res (GETRes (canonical e val)))\<lparr>rs_Fingerprint64 := Some (Fingerprint e c)\<rparr>), None), sm'))"
proof -
  let ?i = "shard_of h n key"
  have x: "env_xxhash e = h" using e by simp
  note i = GetShard_sys(2) [OF s x, of key]
  have v: "view e (shard_store sm ?i) key = Some (string_type e val, string_value e val, None)"
    using d by (simp add: sysdb_def view_def live_def expired_at_def)
  have w: "value_answer GETRes e (view e (shard_store sm ?i) key) = ok_res (GETRes (canonical e val))"
    unfolding v by (simp add: value_answer_def wire_string)
  from evalGET_spec [OF sys_invD(4) [OF s i], of c key e] c w obtain s' where
    "evalGET e c (shard_store sm ?i) = Ret ((Some (ok_res (GETRes (canonical e val))), None), s')" by auto
  then show ?thesis
    using c GetShard_sys(1) [OF s x, of key]
    by (simp add: Execute_def registry_names) (simp add: cGETWATCH_def plain_def executeGETWATCH_def evalGETWATCH_def with_fingerprint_def
        on_key_def on_store_def)
qed

lemma notify_single:
  assumes k: "elems_of (wm_keyFPMap (sv_wm sv)) (Key c) = {fp}" and e: "watch_env h farm e"
    and cw: "wm_fpCmdMap (sv_wm sv) fp = Some cw"
    and ex: "Execute zo e cw (sv_sm sv) = (cw, Ret ((Some rs, None), sm'))"
    and st: "settle rs (sv_vars sv) = (rs', vars)"
  shows "sv_sent (NotifyWatchers zo e c i sv) = sv_sent sv @
    map (\<lambda>j. (j, rs')) (targets c i sv (env_rangeS e (elems_of (wm_fpClientMap (sv_wm sv)) fp)))"
proof -
  have "set (env_rangeW e {fp}) = {fp}" "distinct (env_rangeW e {fp})" using e by (simp_all add: watch_env_def)
  then have "length (env_rangeW e {fp}) = 1" by (metis One_nat_def card.empty card_insert_disjoint distinct_card empty_iff finite.emptyI)
  then obtain f where "env_rangeW e {fp} = [f]" by (auto simp: length_Suc_conv)
  with \<open>set (env_rangeW e {fp}) = {fp}\<close> have r: "env_rangeW e {fp} = [fp]" by simp
  let ?cs = "env_rangeS e (elems_of (wm_fpClientMap (sv_wm sv)) fp)"
  have t: "targets c i (sv\<lparr>sv_sm := sm', sv_vars := vars\<rparr>) ?cs = targets c i sv ?cs" by (rule targets_frame) simp_all
  show ?thesis
  proof (rule notify_round [OF cw ex, of c i "[]"])
    fix rs0 rs0' vars0
    assume "Some rs = Some rs0" "settle rs0 (sv_vars sv) = (rs0', vars0)"
      and eq: "notify_fps zo e c i [fp] sv = notify_fps zo e c i [] (notify_clients c i rs0' ?cs (sv\<lparr>sv_sm := sm', sv_vars := vars0\<rparr>))"
    then have z: "rs0' = rs'" "vars0 = vars" using st by simp_all
    show ?thesis
      unfolding NotifyWatchers_def k r eq z by (simp add: notify_clients_spec t)
  qed simp_all
qed

section \<open>Properties\<close>


text \<open>C22. \<^verbatim>\<open>UNWATCH\<close> does not unsubscribe. The test for commands ending in \<^verbatim>\<open>WATCH\<close> comes first and holds of
  \<^verbatim>\<open>UNWATCH\<close>, too: no subscription is removed (although \<^verbatim>\<open>HandleUnwatch\<close> would remove it), no reply is
  sent, and the pending goroutine subscribes the client to the \<^verbatim>\<open>UNWATCH\<close> command itself.\<close>

theorem unwatch_subscribes:
  assumes sv: "sv_inv ok mk h n farm zo sv" and e: "watch_env h farm e" and fp: "ParseUint arg = Some m"
  shows "\<exists>sv1 c. io_step zo e send_ok i (''UNWATCH'', [arg]) sv = Ret (sv1, Continue) \<and>
    sv_go sv1 = sv_go sv @ [GoWatch c i, GoNotify c i] \<and> sv_sent sv1 = sv_sent sv \<and>
    wm_fpClientMap (sv_wm sv1) = wm_fpClientMap (sv_wm sv) \<and> C_Cmd c = ''UNWATCH'' \<and>
    (let w' = sv_wm (run_go zo e (GoWatch c i) sv1) in
      (\<forall>f. elems_of (wm_fpClientMap (sv_wm sv)) f \<subseteq> elems_of (wm_fpClientMap w') f) \<and>
      t_ClientID (sv_thr sv i) \<in> elems_of (wm_fpClientMap w') (Fingerprint e c)) \<and>
    elems_of (wm_fpClientMap (HandleUnwatch c (sv_thr sv i) (sv_wm sv))) (word_of_nat m) =
      elems_of (wm_fpClientMap (sv_wm sv)) (word_of_nat m) - {t_ClientID (sv_thr sv i)}"
proof -
  let ?c = "\<lparr>C_Cmd = ''UNWATCH'', C_Args = [arg], C_IsReplay = False, C_ClientID = t_ClientID (sv_thr sv i),
      C_Mode = t_Mode (sv_thr sv i), C_Meta = None\<rparr>"
  let ?c1 = "?c\<lparr>C_Meta := Some ''UNWATCH''\<rparr>"
  have eo: "env_ok h e" using e by (simp add: watch_env_def)
  note s = sv_invD(1) [OF sv]
  have "\<exists>sm'. Execute zo e ?c (sv_sm sv) = (?c1, Ret ((Some UNWATCHResOKRes, None), sm'))"
    using GetShard_sys(1) [OF s, of e "''-''"] eo
    by (simp add: Execute_def registry_names, simp add: cUNWATCH_def plain_def executeUNWATCH_def on_key_def on_store_def evalUNWATCH_def)
  then obtain sm' where ex: "Execute zo e ?c (sv_sm sv) = (?c1, Ret ((Some UNWATCHResOKRes, None), sm'))" ..
  have nw: "\<not> is_watchable zo ''UNWATCH''" by (simp add: is_watchable_def registry_names, simp add: cUNWATCH_def)
  obtain sv1 where io: "io_step zo e send_ok i (''UNWATCH'', [arg]) sv = Ret (sv1, Continue)"
    and s1: "sv_go sv1 = sv_go sv @ [GoWatch ?c1 i, GoNotify ?c1 i]" "sv_sent sv1 = sv_sent sv"
      "wm_fpClientMap (sv_wm sv1) = wm_fpClientMap (sv_wm sv)" "t_ClientID (sv_thr sv1 i) = t_ClientID (sv_thr sv i)"
    using ex nw
    by (simp add: io_step_def io_ok_def io_finish_def HasSuffix_def Let_def case_prod_unfold RegisterThread_def upd_thread_def)
  have "elems_of (wm_fpClientMap (HandleUnwatch ?c1 (sv_thr sv i) (sv_wm sv))) (word_of_nat m) =
      elems_of (wm_fpClientMap (sv_wm sv)) (word_of_nat m) - {t_ClientID (sv_thr sv i)}"
    using fp by (auto simp: HandleUnwatch_def Let_def delete_client_def elems_of_def split: option.splits)
  with io s1 show ?thesis
    by (intro exI [of _ sv1] exI [of _ ?c1]) (auto simp: run_go_def HandleWatch_def Let_def elems_of_upd)
qed

lemma map_filter_single:
  assumes "distinct xs" and "a \<in> set xs" and "f a = Some b" and "\<And>x. x \<in> set xs \<Longrightarrow> x \<noteq> a \<Longrightarrow> f x = None"
  shows "List.map_filter f xs = [b]"
proof -
  from assms(2) obtain ys zs where xs: "xs = ys @ a # zs" by (metis split_list)
  have n: "List.map_filter f us = []" if "\<forall>u\<in>set us. f u = None" for us
    using that by (simp add: List.map_filter_def filter_empty_conv)
  have "\<forall>u\<in>set ys. f u = None" "\<forall>u\<in>set zs. f u = None" using assms(1,4) xs by auto
  then show ?thesis
    using assms(3) n [of ys] n [of zs] by (simp add: xs List.map_filter_def)
qed

lemma Execute_GET:
  assumes s: "sys_inv ok mk h n sm" and e: "env_ok h e"
    and c: "C_Meta c = Some ''GET'' \<or> C_Meta c = None \<and> C_Cmd c = ''GET''" "C_Args c = [key]"
  shows "\<exists>sm'. Execute zo e c sm = (c\<lparr>C_Meta := Some ''GET''\<rparr>,
      Ret ((Some (value_answer GETRes e (view e (shard_store sm (shard_of h n key)) key)), None), sm')) \<and>
    view e (shard_store sm' (shard_of h n key)) key = view e (shard_store sm (shard_of h n key)) key"
proof -
  let ?i = "shard_of h n key" and ?c = "c\<lparr>C_Meta := Some ''GET''\<rparr>"
  have x: "env_xxhash e = h" using e by simp
  note i = GetShard_sys(2) [OF s x, of key]

  from evalGET_spec [OF sys_invD(4) [OF s i], of ?c key e] c obtain s' where
    g: "evalGET e ?c (shard_store sm ?i) = Ret ((Some (value_answer GETRes e (view e (shard_store sm ?i) key)), None), s')"
      "view e s' = view e (shard_store sm ?i)" by auto

  have "Execute zo e c sm = (?c, executeGET e ?c sm)"
    using c(1) by (cases c) (auto simp: Execute_def registry_names, simp_all add: cGET_def plain_def)
  then have "Execute zo e c sm = (?c, Ret ((Some (value_answer GETRes e (view e (shard_store sm ?i) key)), None), set_shard_store ?i s' sm))"
    using c(2) g GetShard_sys(1) [OF s x, of key] by (simp add: executeGET_def on_key_def on_store_def)
  moreover have "view e (shard_store (set_shard_store ?i s' sm) ?i) key = view e (shard_store sm ?i) key"
    using g(2) i sys_invD(1) [OF s] by (simp add: set_shard_store_def shard_store_def)
  ultimately show ?thesis by blast
qed

text \<open>The reply to a watchable command comes from a race. \<^verbatim>\<open>GET key\<close> is renamed to \<^verbatim>\<open>GET.WATCH\<close> before the
  name is compared, so nothing is sent directly. When the goroutine that subscribes runs first, the
  notification answers the sender exactly once, with fingerprint 0; when the notification runs first (no
  other subscription on the key), the sender gets no answer.\<close>

lemma watchable_reply_race:
  assumes sv: "sv_inv ok mk h n farm zo sv" and e: "watch_env h farm e" and l: "zset_laws zo ok m"
    and k: "elems_of (wm_keyFPMap (sv_wm sv)) key = {}"
  shows "\<exists>sv1 c. io_step zo e send_ok i (''GET'', [key]) sv = Ret (sv1, Continue) \<and>
    sv_sent sv1 = sv_sent sv \<and> sv_go sv1 = sv_go sv @ [GoWatch c i, GoNotify c i] \<and>
    sv_sent (run_go zo e (GoNotify c i) sv1) = sv_sent sv \<and>
    sv_sent (run_go zo e (GoNotify c i) (run_go zo e (GoWatch c i) sv1)) = sv_sent sv @
      [(i, (value_answer GETRes e (view e (shard_store (sv_sm sv) (shard_of h n key)) key))\<lparr>rs_Fingerprint64 := Some 0\<rparr>)]"
proof -
  let ?c = "\<lparr>C_Cmd = ''GET'', C_Args = [key], C_IsReplay = False, C_ClientID = t_ClientID (sv_thr sv i),
      C_Mode = t_Mode (sv_thr sv i), C_Meta = None\<rparr>"
  let ?c1 = "\<lparr>C_Cmd = ''GET.WATCH'', C_Args = [key], C_IsReplay = False, C_ClientID = t_ClientID (sv_thr sv i),
      C_Mode = t_Mode (sv_thr sv i), C_Meta = Some ''GET''\<rparr>"
  let ?v = "value_answer GETRes e (view e (shard_store (sv_sm sv) (shard_of h n key)) key)"
  have eo: "env_ok h e" and farm: "Fingerprint e ?c1 = farm (String ?c1)"
    and fin: "\<And>S. finite S \<Longrightarrow> distinct (env_rangeS e S) \<and> set (env_rangeS e S) = S"
    and none: "env_rangeW e {} = []" using e by (auto simp: watch_env_def Fingerprint_def)
  from Execute_GET [OF sv_invD(1) [OF sv] eo, of ?c key zo] obtain sm1 where
    ex: "Execute zo e ?c (sv_sm sv) = (?c\<lparr>C_Meta := Some ''GET''\<rparr>, Ret ((Some ?v, None), sm1))"
      "view e (shard_store sm1 (shard_of h n key)) key = view e (shard_store (sv_sm sv) (shard_of h n key)) key" by auto
  have w: "is_watchable zo ''GET''" by (simp add: is_watchable_def registry_names, simp add: cGET_def)
  obtain sv1 where io: "io_step zo e send_ok i (''GET'', [key]) sv = Ret (sv1, Continue)"
    and s1: "sv_go sv1 = sv_go sv @ [GoWatch ?c1 i, GoNotify ?c1 i]" "sv_sent sv1 = sv_sent sv" "sv_sm sv1 = sm1"
      "wm_keyFPMap (sv_wm sv1) = wm_keyFPMap (sv_wm sv)" "t_ClientID (sv_thr sv1 i) = t_ClientID (sv_thr sv i)"
    using ex(1) w
    by (simp add: io_step_def io_ok_def io_finish_def HasSuffix_def Let_def case_prod_unfold RegisterThread_def upd_thread_def)
  have inv1: "sv_inv ok mk h n farm zo sv1" by (rule io_step_inv [OF sv eo l io])
  have first: "sv_sent (run_go zo e (GoNotify ?c1 i) sv1) = sv_sent sv"
    using k none s1(2,4) by (simp add: run_go_def NotifyWatchers_def Key_def)
  let ?sv2 = "run_go zo e (GoWatch ?c1 i) sv1" and ?fp = "farm (String ?c1)" and ?me = "t_ClientID (sv_thr sv i)"
  have s2: "sv_sm ?sv2 = sm1" "sv_sent ?sv2 = sv_sent sv" "sv_thr ?sv2 = sv_thr sv1" "sv_vars ?sv2 = sv_vars sv1"
    "elems_of (wm_keyFPMap (sv_wm ?sv2)) key = {?fp}" "wm_fpCmdMap (sv_wm ?sv2) ?fp = Some ?c1"
    "?me \<in> elems_of (wm_fpClientMap (sv_wm ?sv2)) ?fp" "wm_clientWatchThreadMap (sv_wm ?sv2) ?me = Some i"
    using k farm s1 by (simp_all add: run_go_def HandleWatch_def Let_def elems_of_upd Key_def)
  from Execute_GET [OF sv_invD(1) [OF inv1] eo, of ?c1 key zo] ex(2) obtain sm2 where
    ex2: "Execute zo e ?c1 (sv_sm ?sv2) = (?c1, Ret ((Some ?v, None), sm2))" by (auto simp: s1(3) s2(1))
  have st: "settle ?v (sv_vars ?sv2) = (?v\<lparr>rs_Fingerprint64 := Some 0\<rparr>, sv_vars ?sv2)"
    by (simp add: settle_def value_answer_def ok_res_def err_res_def split: option.split sum.split prod.split)
  let ?cs = "env_rangeS e (elems_of (wm_fpClientMap (sv_wm ?sv2)) ?fp)"
  have cs: "distinct ?cs \<and> set ?cs = elems_of (wm_fpClientMap (sv_wm ?sv2)) ?fp"
    using fin HandleWatch_inv [OF sv_invD(2) [OF inv1], of e ?c1 i "sv_thr sv1 i"] e finite_elems
    by (simp add: run_go_def watch_env_def)
  have "targets ?c1 i ?sv2 ?cs = [i]"
    unfolding targets_def by (rule map_filter_single [where a = ?me]) (use cs s2 s1(5) in \<open>simp_all add: HasSuffix_def\<close>)
  with notify_single [OF _ e s2(6) ex2 st, of ?c1 i] s2(2,5)
  have "sv_sent (run_go zo e (GoNotify ?c1 i) ?sv2) = sv_sent sv @ [(i, ?v\<lparr>rs_Fingerprint64 := Some 0\<rparr>)]"
    by (simp add: run_go_def Key_def)
  with io s1 first show ?thesis by blast
qed

section \<open>Witnesses\<close>


theorem unwatch_subscribes_witness:
  "\<exists>sv1 c. io_step map_zops (ex_env 30) True 0 (''UNWATCH'', [''0'']) ex_sv = Ret (sv1, Continue) \<and>
    elems_of (wm_fpClientMap (sv_wm sv1)) 0 = {''c0''} \<and>
    elems_of (wm_fpClientMap (HandleUnwatch c (ex_thr 0) (sv_wm ex_sv))) 0 = {}"
proof -
  have p: "ParseUint ''0'' = Some 0" by (simp add: ParseUint_def parse_nat_def is_digit_def digit_val_def)
  from unwatch_subscribes [OF ex_sv_inv ex_watch_env [of 30] p, of map_zops True 0] obtain sv1 c where
    s1: "io_step map_zops (ex_env 30) True 0 (''UNWATCH'', [''0'']) ex_sv = Ret (sv1, Continue)"
    and m: "wm_fpClientMap (sv_wm sv1) = wm_fpClientMap (sv_wm ex_sv)"
    and u: "elems_of (wm_fpClientMap (HandleUnwatch c (sv_thr ex_sv 0) (sv_wm ex_sv))) (word_of_nat 0) =
      elems_of (wm_fpClientMap (sv_wm ex_sv)) (word_of_nat 0) - {t_ClientID (sv_thr ex_sv 0)}" by (elim exE conjE)
  have "elems_of (wm_fpClientMap (HandleUnwatch c (ex_thr 0) (sv_wm ex_sv))) 0 = {}"
    using u by (simp add: ex_sv_maps ex_thr_def)
  with s1 m show ?thesis using ex_sv_maps(3) by (intro exI [of _ sv1] exI [of _ c] conjI) simp_all
qed

theorem watchable_reply_race_witness:
  "\<exists>sv1 c r. io_step map_zops (ex_env 30) True 1 (''GET'', [''a'']) ex_sv = Ret (sv1, Continue) \<and>
    sv_sent (run_go map_zops (ex_env 30) (GoNotify c 1) sv1) = [] \<and>
    sv_sent (run_go map_zops (ex_env 30) (GoNotify c 1) (run_go map_zops (ex_env 30) (GoWatch c 1) sv1)) = [(1, r)]"
  using watchable_reply_race [OF ex_sv_inv ex_watch_env [of 30] map_zops_laws, of "''a''" True 1]
  by (auto simp: ex_sv_maps)

end
