(* ===== verification/Wal.thy ===== *)
theory Wal
  imports Prelude GoStrings "HOL-Library.Word" "HOL-Library.Char_ord" "HOL-Library.List_Lexorder" "HOL-Library.Sublist"
begin

text \<open>
  The write-ahead log of \<^verbatim>\<open>internal/wal/wal_forge.go\<close>: segments of checksummed entries behind a buffered
  writer, their rotation, and the replay at start-up. The files are a map from path names to bytes, the
  state of the operating system's view; what is still in the writer's buffer is lost when the process
  dies. A write to an open file succeeds, and syncing, closing and opening may fail, as a \<open>wal_io\<close> says.
  The generated protobuf code is the parameter \<open>proto\<close>.
\<close>

unbundle bit_operations_syntax

type_synonym bytes = "8 word list"
type_synonym wire_cmd = "string \<times> string list"
type_synonym files = "string \<rightharpoonup> bytes"

datatype ElementType = ELEMENT_TYPE_COMMAND | ELEMENT_TYPE_OTHER nat

record Element =
  el_Lsn :: "64 word"
  el_Timestamp :: int
  el_ElementType :: ElementType
  el_Payload :: bytes

record proto =
  MarshalCommand :: "wire_cmd \<Rightarrow> bytes option"
  UnmarshalCommand :: "bytes \<Rightarrow> wire_cmd option"
  MarshalElement :: "Element \<Rightarrow> bytes option"
  UnmarshalElement :: "bytes \<Rightarrow> Element option"

text \<open>What the documentation of protobuf promises: a marshalled message unmarshals to itself.\<close>

definition proto_ok :: "proto \<Rightarrow> bool" where
  "proto_ok lib \<longleftrightarrow> (\<forall>c b. MarshalCommand lib c = Some b \<longrightarrow> UnmarshalCommand lib b = Some c) \<and>
     (\<forall>el b. MarshalElement lib el = Some b \<longrightarrow> UnmarshalElement lib b = Some el)"

record wal_config =
  cf_WALDir :: string
  cf_WALBufferSizeMB :: int
  cf_WALMaxSegmentSizeMB :: int

record wal_io =
  io_sync_ok :: bool
  io_close_ok :: bool
  io_open_ok :: bool

datatype wal_error = MarshalFailed | SyncFailed | CloseFailed

section \<open>Entries\<close>

text \<open>The IEEE checksum of \<^verbatim>\<open>hash/crc32\<close> and the little-endian words of \<^verbatim>\<open>encoding/binary\<close>.\<close>

definition crc_bit :: "32 word \<Rightarrow> 32 word" where
  "crc_bit c = (if bit c 0 then drop_bit 1 c XOR 0xEDB88320 else drop_bit 1 c)"

definition crc_byte :: "32 word \<Rightarrow> 8 word \<Rightarrow> 32 word" where
  "crc_byte c b = (crc_bit ^^ 8) (c XOR ucast b)"

definition ChecksumIEEE :: "bytes \<Rightarrow> 32 word" where
  "ChecksumIEEE bs = NOT (foldl crc_byte (NOT 0) bs)"

definition PutUint32 :: "32 word \<Rightarrow> bytes" where
  "PutUint32 w = [ucast w, ucast (drop_bit 8 w), ucast (drop_bit 16 w), ucast (drop_bit 24 w)]"

definition Uint32 :: "bytes \<Rightarrow> 32 word" where
  "Uint32 bs = ucast (bs ! 0) OR push_bit 8 (ucast (bs ! 1)) OR push_bit 16 (ucast (bs ! 2)) OR push_bit 24 (ucast (bs ! 3))"

text \<open>The capacity of the package's scratch buffer \<^verbatim>\<open>bb\<close>.\<close>

definition cap_bb :: nat where
  "cap_bb = 10 * 1024"

definition wal_entry :: "bytes \<Rightarrow> bytes" where
  "wal_entry b = PutUint32 (ChecksumIEEE b) @ PutUint32 (of_nat (length b)) @ b"

section \<open>The writer\<close>

record WalForge =
  wl_csf :: string
  wl_buf :: bytes
  wl_bufSize :: nat
  wl_csIdx :: int
  wl_csSize :: "32 word"
  wl_lsn :: "64 word"
  wl_maxSegmentSizeBytes :: "32 word"

definition segmentPrefix :: string where
  "segmentPrefix = ''seg-''"

definition segment_path :: "wal_config \<Rightarrow> int \<Rightarrow> string" where
  "segment_path cf i = cf_WALDir cf @ ''/'' @ segmentPrefix @ FormatInt i @ ''.wal''"

text \<open>\<^verbatim>\<open>os.OpenFile\<close> with \<^verbatim>\<open>O_APPEND|O_CREATE\<close>, and the size \<^verbatim>\<open>bufio.NewWriterSize\<close> settles on.\<close>

definition OpenFile :: "string \<Rightarrow> files \<Rightarrow> files" where
  "OpenFile p fs = fs(p \<mapsto> (case fs p of None \<Rightarrow> [] | Some b \<Rightarrow> b))"

definition append_file :: "string \<Rightarrow> bytes \<Rightarrow> files \<Rightarrow> files" where
  "append_file p bs fs = fs(p \<mapsto> (case fs p of None \<Rightarrow> [] | Some b \<Rightarrow> b) @ bs)"

definition writer_size :: "int \<Rightarrow> nat" where
  "writer_size n = (if n \<le> 0 then 4096 else nat n)"

definition newWalForge :: "wal_config \<Rightarrow> WalForge" where
  "newWalForge cf = \<lparr>wl_csf = [], wl_buf = [], wl_bufSize = 4096, wl_csIdx = 0, wl_csSize = 0, wl_lsn = 0,
     wl_maxSegmentSizeBytes = word_of_int (cf_WALMaxSegmentSizeMB cf) * 1024 * 1024\<rparr>"

definition Init :: "wal_config \<Rightarrow> WalForge \<Rightarrow> files \<Rightarrow> WalForge \<times> files" where
  "Init cf wl fs =
     (let p = segment_path cf 0
      in (wl\<lparr>wl_csf := p, wl_buf := [], wl_bufSize := writer_size (cf_WALBufferSizeMB cf * 1024 * 1024)\<rparr>, OpenFile p fs))"

text \<open>\<^verbatim>\<open>bufio.Writer.Write\<close>: what fits is buffered; otherwise the buffer is filled and flushed, and what is
  larger than the buffer is written directly.\<close>

definition bufio_Write :: "nat \<Rightarrow> bytes \<Rightarrow> bytes \<Rightarrow> bytes \<times> bytes" where
  "bufio_Write sz buf p =
     (if length p \<le> sz - length buf then (buf @ p, [])
      else if buf = [] then ([], p)
      else
        let k = sz - length buf; rest = drop k p in
        if length rest \<le> sz then (rest, buf @ take k p) else ([], buf @ take k p @ rest))"

definition sync :: "wal_io \<Rightarrow> WalForge \<Rightarrow> files \<Rightarrow> wal_error option \<times> WalForge \<times> files" where
  "sync io wl fs =
     (let fs' = append_file (wl_csf wl) (wl_buf wl) fs; wl' = wl\<lparr>wl_buf := []\<rparr>
      in if io_sync_ok io then (None, wl', fs') else (Some SyncFailed, wl', fs'))"

definition rotateLog :: "wal_config \<Rightarrow> wal_io \<Rightarrow> WalForge \<Rightarrow> files \<Rightarrow> (wal_error option \<times> WalForge \<times> files) outcome" where
  "rotateLog cf io wl fs =
     (case sync io wl fs of
        (Some err, wl1, fs1) \<Rightarrow> Ret (Some err, wl1, fs1)
      | (None, wl1, fs1) \<Rightarrow>
          if \<not> io_close_ok io then Ret (Some CloseFailed, wl1, fs1)
          else if \<not> io_open_ok io then Panic
          else
            let idx = wl_csIdx wl1 + 1; p = segment_path cf idx
            in Ret (None, wl1\<lparr>wl_csIdx := idx, wl_csf := p, wl_csSize := 0, wl_buf := [], wl_bufSize := writer_size 4096\<rparr>,
                 OpenFile p fs1))"

definition rotateLogIfNeeded ::
  "wal_config \<Rightarrow> wal_io \<Rightarrow> 32 word \<Rightarrow> WalForge \<Rightarrow> files \<Rightarrow> (wal_error option \<times> WalForge \<times> files) outcome" where
  "rotateLogIfNeeded cf io entrySize wl fs =
     (if wl_csSize wl + entrySize > wl_maxSegmentSizeBytes wl then rotateLog cf io wl fs else Ret (None, wl, fs))"

text \<open>An entry larger than \<^verbatim>\<open>bb\<close> panics; so does, later, a size that wrapped around (the slice is out of range).\<close>

definition LogCommand ::
  "proto \<Rightarrow> wal_config \<Rightarrow> wal_io \<Rightarrow> int \<Rightarrow> wire_cmd \<Rightarrow> WalForge \<Rightarrow> files \<Rightarrow> (wal_error option \<times> WalForge \<times> files) outcome" where
  "LogCommand lib cf io now c wl fs =
     (case MarshalCommand lib c of
        None \<Rightarrow> Ret (Some MarshalFailed, wl, fs)
      | Some payload \<Rightarrow>
          let wl1 = wl\<lparr>wl_lsn := wl_lsn wl + 1\<rparr>;
              el = \<lparr>el_Lsn = wl_lsn wl1, el_Timestamp = now, el_ElementType = ELEMENT_TYPE_COMMAND, el_Payload = payload\<rparr>
          in case MarshalElement lib el of
               None \<Rightarrow> Ret (Some MarshalFailed, wl1, fs)
             | Some b \<Rightarrow>
                 let entrySize = of_nat (4 + 4 + length b) in
                 case rotateLogIfNeeded cf io entrySize wl1 fs of
                   Panic \<Rightarrow> Panic
                 | Ret (Some err, wl2, fs2) \<Rightarrow> Ret (Some err, wl2, fs2)
                 | Ret (None, wl2, fs2) \<Rightarrow>
                     if entrySize > of_nat cap_bb \<or> 8 + length b > cap_bb then Panic
                     else
                       let (buf, out) = bufio_Write (wl_bufSize wl2) (wl_buf wl2) (wal_entry b)
                       in Ret (None, wl2\<lparr>wl_buf := buf, wl_csSize := wl_csSize wl2 + entrySize\<rparr>,
                            append_file (wl_csf wl2) out fs2))"

text \<open>The tickers run these under the lock, errors only logged; \<open>Stop\<close> syncs once more.\<close>

definition periodicSync :: "wal_io \<Rightarrow> WalForge \<Rightarrow> files \<Rightarrow> WalForge \<times> files" where
  "periodicSync io wl fs = snd (sync io wl fs)"

definition periodicRotate :: "wal_config \<Rightarrow> wal_io \<Rightarrow> WalForge \<Rightarrow> files \<Rightarrow> (WalForge \<times> files) outcome" where
  "periodicRotate cf io wl fs = (case rotateLog cf io wl fs of Panic \<Rightarrow> Panic | Ret (_, wl', fs') \<Rightarrow> Ret (wl', fs'))"

definition StopForge :: "wal_io \<Rightarrow> WalForge \<Rightarrow> files \<Rightarrow> files" where
  "StopForge io wl fs = snd (snd (sync io wl fs))"

section \<open>Segments\<close>

text \<open>\<^verbatim>\<open>filepath.Glob\<close> answers the paths that match \<^verbatim>\<open>seg-*.wal\<close> in lexicographic order; the directory is a
  clean path without characters special to a pattern.\<close>

definition is_segment :: "wal_config \<Rightarrow> string \<Rightarrow> bool" where
  "is_segment cf p \<longleftrightarrow>
     (let pre = cf_WALDir cf @ ''/'' @ segmentPrefix; n = length p - length ''.wal'' in
      length pre \<le> n \<and> take (length pre) p = pre \<and> drop n p = ''.wal'' \<and> CHR ''/'' \<notin> set (drop (length pre) (take n p)))"

definition Glob :: "wal_config \<Rightarrow> files \<Rightarrow> string list" where
  "Glob cf fs = sorted_list_of_set {p \<in> dom fs. is_segment cf p}"

text \<open>\<^verbatim>\<open>strconv.Atoi\<close> with its error dropped: 0 for a syntax error, the nearest bound when out of range.\<close>

definition Atoi0 :: "string \<Rightarrow> int" where
  "Atoi0 s =
     (case ParseInt s of Some i \<Rightarrow> i
      | None \<Rightarrow>
          (case s of [] \<Rightarrow> 0
           | c # cs \<Rightarrow>
               if c = CHR ''-'' then (if parse_nat cs = None then 0 else MinInt64)
               else if parse_nat (if c = CHR ''+'' then cs else s) = None then 0 else MaxInt64))"

definition TrimPrefix :: "string \<Rightarrow> string \<Rightarrow> string" where
  "TrimPrefix s p = (if take (length p) s = p then drop (length p) s else s)"

text \<open>The number the comparison reads of a path: \<open>strings.Split(..., ".")[0]\<close> is the text before the first dot.\<close>

definition segment_number :: "string \<Rightarrow> int" where
  "segment_number p = Atoi0 (takeWhile (\<lambda>c. c \<noteq> CHR ''.'') (TrimPrefix p segmentPrefix))"

text \<open>The \<open>less\<close> function as written: both sides read \<open>files[i]\<close>.\<close>

definition segment_less :: "string list \<Rightarrow> nat \<Rightarrow> nat \<Rightarrow> bool" where
  "segment_less files i j \<longleftrightarrow> segment_number (files ! i) < segment_number (files ! i)"

text \<open>\<^verbatim>\<open>sort.Slice\<close> as Go's insertion sort: the element at \<open>j\<close> sinks while it is less than its left
  neighbour. (Slices of more than twelve elements first go through a scan that stops when no neighbours are
  out of order, to the same effect.)\<close>

definition swap_left :: "nat \<Rightarrow> 'a list \<Rightarrow> 'a list" where
  "swap_left j xs = xs[j := xs ! (j - 1), j - 1 := xs ! j]"

fun sink :: "('a list \<Rightarrow> nat \<Rightarrow> nat \<Rightarrow> bool) \<Rightarrow> nat \<Rightarrow> 'a list \<Rightarrow> 'a list" where
  "sink lt 0 xs = xs"
| "sink lt (Suc j) xs = (if lt xs (Suc j) j then sink lt j (swap_left (Suc j) xs) else xs)"

definition sort_Slice :: "('a list \<Rightarrow> nat \<Rightarrow> nat \<Rightarrow> bool) \<Rightarrow> 'a list \<Rightarrow> 'a list" where
  "sort_Slice lt xs = fold (sink lt) [1..<length xs] xs"

definition segments :: "wal_config \<Rightarrow> files \<Rightarrow> string list" where
  "segments cf fs = sort_Slice segment_less (Glob cf fs)"

section \<open>Replay\<close>

datatype 'e replay_error = OpenFailed | HeaderCut | DataEOF | DataCut | CRCMismatch "32 word" "32 word"
  | BadEntry | BadCommand | CallbackFailed 'e

text \<open>The loop over one segment. The callback works on a state \<open>'s\<close>. An entry size beyond the element
  buffer makes the slice expression panic.\<close>

function replay_file ::
  "proto \<Rightarrow> (wire_cmd \<Rightarrow> 's \<Rightarrow> 's \<times> 'e option) \<Rightarrow> bytes \<Rightarrow> 's \<Rightarrow> ('s \<times> 'e replay_error option) outcome" where
  "replay_file lib cb bs st =
     (if bs = [] then Ret (st, None)
      else if length bs < 8 then Ret (st, Some HeaderCut)
      else
        let crc = Uint32 (take 4 bs); entrySize = unat (Uint32 (take 4 (drop 4 bs))); rest = drop 8 bs in
        if entrySize > cap_bb then Panic
        else if entrySize > 0 \<and> rest = [] then Ret (st, Some DataEOF)
        else if length rest < entrySize then Ret (st, Some DataCut)
        else
          let b = take entrySize rest; expected = ChecksumIEEE b in
          if crc \<noteq> expected then Ret (st, Some (CRCMismatch expected crc))
          else
            case UnmarshalElement lib b of
              None \<Rightarrow> Ret (st, Some BadEntry)
            | Some el \<Rightarrow>
                (case UnmarshalCommand lib (el_Payload el) of
                   None \<Rightarrow> Ret (st, Some BadCommand)
                 | Some c \<Rightarrow>
                     (case cb c st of
                        (st', Some err) \<Rightarrow> Ret (st', Some (CallbackFailed err))
                      | (st', None) \<Rightarrow> replay_file lib cb (drop entrySize rest) st')))"
  by pat_completeness auto
termination
  by (relation "measure (\<lambda>(lib, cb, bs, st). length bs)") (auto split: if_splits)

declare replay_file.simps [simp del]

fun replay_segments ::
  "proto \<Rightarrow> (wire_cmd \<Rightarrow> 's \<Rightarrow> 's \<times> 'e option) \<Rightarrow> string list \<Rightarrow> files \<Rightarrow> 's \<Rightarrow> ('s \<times> 'e replay_error option) outcome" where
  "replay_segments lib cb [] fs st = Ret (st, None)"
| "replay_segments lib cb (p # ps) fs st =
     (case fs p of
        None \<Rightarrow> Ret (st, Some OpenFailed)
      | Some bs \<Rightarrow>
          (case replay_file lib cb bs st of
             Panic \<Rightarrow> Panic
           | Ret (st', Some err) \<Rightarrow> Ret (st', Some err)
           | Ret (st', None) \<Rightarrow> replay_segments lib cb ps fs st'))"

definition ReplayCommand ::
  "proto \<Rightarrow> wal_config \<Rightarrow> (wire_cmd \<Rightarrow> 's \<Rightarrow> 's \<times> 'e option) \<Rightarrow> files \<Rightarrow> 's \<Rightarrow> ('s \<times> 'e replay_error option) outcome" where
  "ReplayCommand lib cf cb fs st = replay_segments lib cb (segments cf fs) fs st"

end
