(* ===== verification/WalProps.thy ===== *)
theory WalProps
  imports Wal
begin

text \<open>
  What the log gives back. Every reachable state of the writer stands for the segments of commands that were
  logged; replaying the directory gives the commands in order after a clean stop, a prefix that contains
  everything synced after a crash, and an error at the first corrupted entry. Beyond ten segments, and after
  a restart, the replay order is not the order of logging.
\<close>

unbundle bit_operations_syntax

section \<open>The words of an entry\<close>

lemma length_PutUint32 [simp]: "length (PutUint32 w) = 4"
  by (simp add: PutUint32_def)

lemma Uint32_PutUint32 [simp]: "Uint32 (PutUint32 w) = w"
proof (rule bit_word_eqI)
  fix n assume "n < LENGTH(32)"
  then consider "n < 8" | "8 \<le> n" "n < 16" | "16 \<le> n" "n < 24" | "24 \<le> n" "n < 32" by fastforce
  then show "bit (Uint32 (PutUint32 w)) n = bit w n"
    by cases (auto simp: Uint32_def PutUint32_def bit_simps)
qed

lemma length_wal_entry: "length (wal_entry b) = 8 + length b"
  by (simp add: wal_entry_def)

text \<open>A changed byte changes the checksum.\<close>

lemma bit_crc_bit: "bit (crc_bit c) n \<longleftrightarrow> (bit c (Suc n) \<noteq> (bit c 0 \<and> bit (0xEDB88320 :: 32 word) n))"
  by (auto simp: crc_bit_def bit_simps)

lemma crc_bit_inj: "crc_bit c = crc_bit d \<Longrightarrow> c = d"
proof (rule bit_word_eqI)
  fix n assume eq: "crc_bit c = crc_bit d" and "n < LENGTH(32)"
  have top: "bit (crc_bit x) 31 = bit x 0" for x :: "32 word"
    by (simp add: bit_crc_bit) (simp add: bit_word.rep_eq bit_iff_odd)
  have z: "bit c 0 = bit d 0" using top [of c] top [of d] eq by simp
  show "bit c n = bit d n"
  proof (cases n)
    case (Suc k)
    have "bit (crc_bit c) k = bit (crc_bit d) k" using eq by simp
    with z Suc show ?thesis by (auto simp: bit_crc_bit)
  qed (simp add: z)
qed

lemma crc_bits_inj: "(crc_bit ^^ n) c = (crc_bit ^^ n) d \<Longrightarrow> c = d"
  by (induction n) (auto dest: crc_bit_inj)

lemma xor_cancel:
  fixes a b c :: "'a::len word"
  shows "a XOR c = b XOR c \<Longrightarrow> a = b" and "c XOR a = c XOR b \<Longrightarrow> a = b"
proof -
  have "(x XOR c) XOR c = x" for x by (simp add: xor.assoc)
  then show "a XOR c = b XOR c \<Longrightarrow> a = b" by metis
  then show "c XOR a = c XOR b \<Longrightarrow> a = b" by (simp add: xor.commute)
qed

lemma crc_byte_inj:
  "crc_byte c b = crc_byte d b \<Longrightarrow> c = d" "crc_byte c b = crc_byte c b' \<Longrightarrow> b = b'"
proof -
  assume "crc_byte c b = crc_byte d b"
  then show "c = d" unfolding crc_byte_def by (rule xor_cancel(1) [OF crc_bits_inj])
next
  assume "crc_byte c b = crc_byte c b'"
  then have "(ucast b :: 32 word) = ucast b'" unfolding crc_byte_def by (rule xor_cancel(2) [OF crc_bits_inj])
  then have e: "bit (ucast b :: 32 word) n = bit (ucast b' :: 32 word) n" for n by simp
  have "bit b n = bit b' n" if "n < 8" for n using e [of n] that by (simp add: bit_simps)
  then show "b = b'" by (intro bit_word_eqI) simp
qed

lemma foldl_crc_inj: "foldl crc_byte c bs = foldl crc_byte d bs \<Longrightarrow> c = d"
  by (induction bs arbitrary: c d) (auto dest: crc_byte_inj(1))

lemma Checksum_byte: "x \<noteq> y \<Longrightarrow> ChecksumIEEE (as @ x # bs) \<noteq> ChecksumIEEE (as @ y # bs)"
  by (auto simp: ChecksumIEEE_def dest!: foldl_crc_inj dest: crc_byte_inj(2))


section \<open>Replaying entries\<close>

definition carries :: "proto \<Rightarrow> bytes \<Rightarrow> wire_cmd \<Rightarrow> bool" where
  "carries lib b c \<longleftrightarrow> 8 + length b \<le> cap_bb \<and>
     (\<exists>el. UnmarshalElement lib b = Some el \<and> UnmarshalCommand lib (el_Payload el) = Some c)"

abbreviation entries :: "bytes list \<Rightarrow> bytes" where
  "entries es \<equiv> concat (map wal_entry es)"

lemma entry_fields:
  "length (wal_entry b @ rest) \<ge> 8" "take 4 (wal_entry b @ rest) = PutUint32 (ChecksumIEEE b)"
  "take 4 (drop 4 (wal_entry b @ rest)) = PutUint32 (of_nat (length b))" "drop 8 (wal_entry b @ rest) = b @ rest"
  by (simp_all add: wal_entry_def)

lemma unat_size: "n \<le> cap_bb \<Longrightarrow> unat (of_nat n :: 32 word) = n"
  by (simp add: cap_bb_def unat_of_nat take_bit_nat_eq_self)

lemma replay_step:
  assumes "8 \<le> length bs" and "take 4 bs = PutUint32 (ChecksumIEEE b)"
    and "take 4 (drop 4 bs) = PutUint32 (of_nat (length b))" and "drop 8 bs = b @ rest" and "carries lib b c"
  shows "replay_file lib cb bs st =
    (case cb c st of (st', Some err) \<Rightarrow> Ret (st', Some (CallbackFailed err)) | (st', None) \<Rightarrow> replay_file lib cb rest st')"
proof -
  from assms(5) obtain el where b: "length b \<le> cap_bb" "UnmarshalElement lib b = Some el"
    "UnmarshalCommand lib (el_Payload el) = Some c" by (auto simp: carries_def)
  have "bs \<noteq> []" using assms(1) by auto
  then show ?thesis
    using b assms(1-4) unat_size [OF b(1)] by (subst replay_file.simps) (auto simp: Let_def)
qed

lemma replay_entry:
  assumes "carries lib b c"
  shows "replay_file lib cb (wal_entry b @ rest) st =
    (case cb c st of (st', Some err) \<Rightarrow> Ret (st', Some (CallbackFailed err)) | (st', None) \<Rightarrow> replay_file lib cb rest st')"
  by (rule replay_step [OF entry_fields assms])

text \<open>A callback that never fails folds over the commands.\<close>

abbreviation folding :: "(wire_cmd \<Rightarrow> 's \<Rightarrow> 's) \<Rightarrow> wire_cmd \<Rightarrow> 's \<Rightarrow> 's \<times> 'e option" where
  "folding f \<equiv> \<lambda>c st. (f c st, None)"

lemma replay_entries:
  assumes "list_all2 (carries lib) es cs"
  shows "replay_file lib (folding f) (entries es @ rest) st = replay_file lib (folding f) rest (fold f cs st)"
  using assms
proof (induction es cs arbitrary: st rule: list_all2_induct)
  case (Cons b es c cs)
  then show ?case by (simp add: replay_entry [OF Cons(1)])
qed simp

lemma replay_Nil [simp]: "replay_file lib cb [] st = Ret (st, None)"
  by (simp add: replay_file.simps)

text \<open>A torn entry at the end.\<close>

lemma replay_torn:
  assumes "strict_prefix p (wal_entry b)" and "p \<noteq> []" and "8 + length b \<le> cap_bb"
  shows "\<exists>err. replay_file lib cb p st = Ret (st, Some err) \<and> (err = HeaderCut \<or> err = DataEOF \<or> err = DataCut)"
proof -
  from assms(1) obtain rest where eq: "wal_entry b = p @ rest" "rest \<noteq> []" by (auto elim: strict_prefixE')
  show ?thesis
  proof (cases "length p < 8")
    case True
    then show ?thesis using assms(2) by (simp add: replay_file.simps)
  next
    case False
    have "take 4 (drop 4 (wal_entry b)) = PutUint32 (of_nat (length b))" using entry_fields(3) [of b "[]"] by simp
    then have n: "take 4 (drop 4 p) = PutUint32 (of_nat (length b))" using eq(1) False by simp
    have "length p < 8 + length b" using arg_cong [OF eq(1), of length] eq(2) by (simp add: length_wal_entry)
    with False have l: "length (drop 8 p) < length b" by simp
    have u: "unat (of_nat (length b) :: 32 word) = length b" using assms(3) by (intro unat_size) simp
    show ?thesis
      using False l assms(2,3) by (subst replay_file.simps) (simp add: n u Let_def)
  qed
qed

section \<open>Reachable states of the writer\<close>

text \<open>The abstract state: the commands logged in each segment since the start, and how many of them are
  known to be on disk.\<close>

definition add_cmd :: "bool \<Rightarrow> wire_cmd \<Rightarrow> wire_cmd list list \<Rightarrow> wire_cmd list list" where
  "add_cmd rotated c css = (if rotated then css @ [[c]] else butlast css @ [last css @ [c]])"

inductive wal_reach ::
  "proto \<Rightarrow> wal_config \<Rightarrow> wire_cmd list list \<Rightarrow> nat \<Rightarrow> WalForge \<Rightarrow> files \<Rightarrow> bool" for lib cf where
  start: "\<lbrakk>finite (dom fs0); \<forall>p\<in>dom fs0. \<not> is_segment cf p; Init cf (newWalForge cf) fs0 = (wl, fs)\<rbrakk> \<Longrightarrow> wal_reach lib cf [[]] 0 wl fs"
| log: "\<lbrakk>wal_reach lib cf css d wl fs; LogCommand lib cf io now c wl fs = Ret (None, wl', fs');
    rotated = (wl_csIdx wl' \<noteq> wl_csIdx wl)\<rbrakk> \<Longrightarrow>
    wal_reach lib cf (add_cmd rotated c css) (if rotated then length (concat css) else d) wl' fs'"
| log_fails: "\<lbrakk>wal_reach lib cf css d wl fs; LogCommand lib cf io now c wl fs = Ret (Some err, wl', fs')\<rbrakk> \<Longrightarrow>
    wal_reach lib cf css d wl' fs'"
| sync: "\<lbrakk>wal_reach lib cf css d wl fs; periodicSync io wl fs = (wl', fs')\<rbrakk> \<Longrightarrow>
    wal_reach lib cf css (if io_sync_ok io then length (concat css) else d) wl' fs'"
| rotate: "\<lbrakk>wal_reach lib cf css d wl fs; periodicRotate cf io wl fs = Ret (wl', fs');
    rotated = (wl_csIdx wl' \<noteq> wl_csIdx wl)\<rbrakk> \<Longrightarrow>
    wal_reach lib cf (if rotated then css @ [[]] else css) (if rotated then length (concat css) else d) wl' fs'"

text \<open>The state that the operations share, without the buffer's size and the sequence number: the closed
  segments \<open>done\<close>, the current one \<open>cur\<close>, what of it is on disk, and the limit on a segment's size.\<close>

definition seg_limit :: "WalForge \<Rightarrow> nat" where
  "seg_limit wl = max (unat (wl_maxSegmentSizeBytes wl)) cap_bb"

definition wal_files :: "wal_config \<Rightarrow> bytes list list \<Rightarrow> bytes list \<Rightarrow> WalForge \<Rightarrow> files \<Rightarrow> bool" where
  "wal_files cf done cur wl fs \<longleftrightarrow>
     wl_csIdx wl = int (length done) \<and> wl_csf wl = segment_path cf (wl_csIdx wl) \<and>
     (\<forall>j < length done. fs (segment_path cf (int j)) = Some (entries (done ! j)) \<and> length (entries (done ! j)) \<le> seg_limit wl) \<and>
     (\<exists>f. fs (wl_csf wl) = Some f \<and> f @ wl_buf wl = entries cur) \<and>
     finite (dom fs) \<and>
     (\<forall>p\<in>dom fs. is_segment cf p \<longrightarrow> (\<exists>j \<le> length done. p = segment_path cf (int j))) \<and>
     unat (wl_csSize wl) = length (entries cur) \<and> length (entries cur) \<le> seg_limit wl \<and>
     unat (wl_maxSegmentSizeBytes wl) \<le> 2 ^ 32 - 2 ^ 20"

definition wal_inv :: "proto \<Rightarrow> wal_config \<Rightarrow> wire_cmd list list \<Rightarrow> nat \<Rightarrow> WalForge \<Rightarrow> files \<Rightarrow> bool" where
  "wal_inv lib cf css d wl fs \<longleftrightarrow> (\<exists>done cur. wal_files cf done cur wl fs \<and>
     list_all2 (list_all2 (carries lib)) (done @ [cur]) css \<and> d \<le> length (concat css) \<and>
     (\<forall>f. fs (wl_csf wl) = Some f \<longrightarrow> length (entries (take (d - length (concat done)) cur)) \<le> length f))"

section \<open>Paths\<close>

lemma FormatInt_inj: "FormatInt i = FormatInt j \<Longrightarrow> in_i64 i \<Longrightarrow> in_i64 j \<Longrightarrow> i = j"
  by (metis ParseInt_FormatInt option.inject)

lemma nat_digits_inj: "nat_digits m = nat_digits n \<Longrightarrow> m = n"
  by (metis option.inject parse_nat_digits)

lemma path_inj: "segment_path cf (int i) = segment_path cf (int j) \<longleftrightarrow> i = j"
  by (auto simp: segment_path_def FormatInt_def dest: nat_digits_inj)

lemma nat_digits_no_slash: "CHR ''/'' \<notin> set (nat_digits n)"
proof (induction n rule: nat_digits.induct)
  case (1 n)
  have "CHR ''/'' \<noteq> digit_char d" if "d < 10" for d
  proof -
    have "(of_char (digit_char d) :: nat) = 48 + d" using that by (simp add: digit_char_def)
    moreover have "(of_char CHR ''/'' :: nat) = 47" by simp
    ultimately show ?thesis by (metis add_is_0 le_add1 le_antisym not_numeral_le_zero numeral_le_iff semiring_norm)
  qed
  then show ?case using 1 by (subst nat_digits.simps) auto
qed

lemma path_is_segment: "is_segment cf (segment_path cf (int j))"
  using nat_digits_no_slash [of j] by (simp add: is_segment_def segment_path_def FormatInt_def Let_def)

section \<open>The operations keep the invariant\<close>

lemma bufio_Write_append: "bufio_Write sz buf p = (buf', out) \<Longrightarrow> out @ buf' = buf @ p"
  by (auto simp: bufio_Write_def Let_def split: if_splits)

lemma wal_filesD:
  assumes "wal_files cf done cur wl fs"
  shows "wl_csIdx wl = int (length done)" and "wl_csf wl = segment_path cf (int (length done))"
    and "j < length done \<Longrightarrow> fs (segment_path cf (int j)) = Some (entries (done ! j))"
    and "\<exists>f. fs (segment_path cf (int (length done))) = Some f \<and> f @ wl_buf wl = entries cur"
    and "unat (wl_csSize wl) = length (entries cur)" and "unat (wl_maxSegmentSizeBytes wl) \<le> 2 ^ 32 - 2 ^ 20"
    and "length (entries cur) \<le> seg_limit wl" and "finite (dom fs)"
    and "p \<in> dom fs \<Longrightarrow> is_segment cf p \<Longrightarrow> \<exists>j \<le> length done. p = segment_path cf (int j)"
    and "j < length done \<Longrightarrow> length (entries (done ! j)) \<le> seg_limit wl"
  using assms unfolding wal_files_def by auto

lemma wal_files_lsn [simp]: "wal_files cf done cur (wl\<lparr>wl_lsn := n\<rparr>) fs \<longleftrightarrow> wal_files cf done cur wl fs"
  by (simp add: wal_files_def seg_limit_def)

lemma sync_files:
  assumes "wal_files cf done cur wl fs" and "sync io wl fs = (r, wl', fs')"
  shows "wal_files cf done cur wl' fs'" and "fs' (wl_csf wl') = Some (entries cur)"
    and "wl_csIdx wl' = wl_csIdx wl" and "r = None \<longleftrightarrow> io_sync_ok io"
proof -
  from wal_filesD(4) [OF assms(1)] obtain f where
    f: "fs (segment_path cf (int (length done))) = Some f" "f @ wl_buf wl = entries cur" by blast
  have eq: "wl' = wl\<lparr>wl_buf := []\<rparr>" "fs' = fs(segment_path cf (int (length done)) \<mapsto> entries cur)"
    using assms(2) f wal_filesD(2) [OF assms(1)] by (auto simp: sync_def append_file_def Let_def split: if_splits)
  show "fs' (wl_csf wl') = Some (entries cur)" "wl_csIdx wl' = wl_csIdx wl"
    using wal_filesD(2) [OF assms(1)] by (simp_all add: eq)
  show "r = None \<longleftrightarrow> io_sync_ok io" using assms(2) by (auto simp: sync_def Let_def split: if_splits)
  have l: "seg_limit wl' = seg_limit wl" by (simp add: eq seg_limit_def)
  show "wal_files cf done cur wl' fs'"
    using assms(1) f(1) unfolding wal_files_def eq(2) l
    by (simp add: eq(1) path_inj insert_absorb domI)
qed

lemma rotate_files:
  assumes "wal_files cf done cur wl fs" and "rotateLog cf io wl fs = Ret (None, wl', fs')"
  shows "wal_files cf (done @ [cur]) [] wl' fs'" and "wl_csIdx wl' \<noteq> wl_csIdx wl" and "wl_csSize wl' = 0"
    and "wl_maxSegmentSizeBytes wl' = wl_maxSegmentSizeBytes wl"
proof -
  obtain r wl1 fs1 where s: "sync io wl fs = (r, wl1, fs1)" by (rule prod_cases3)
  with assms(2) have r: "r = None" by (cases r) (simp_all add: rotateLog_def)
  note f = sync_files [OF assms(1) s]
  let ?i = "int (Suc (length done))"
  have idx: "wl_csIdx wl1 + 1 = ?i" using wal_filesD(1) [OF f(1)] by simp
  from assms(2) s r have wl': "wl' = wl1\<lparr>wl_csIdx := ?i, wl_csf := segment_path cf ?i, wl_csSize := 0, wl_buf := [], wl_bufSize := writer_size 4096\<rparr>"
    and fs': "fs' = OpenFile (segment_path cf ?i) fs1"
    unfolding idx [symmetric] by (auto simp: rotateLog_def Let_def split: if_splits)
  have fresh: "fs1 (segment_path cf ?i) = None"
  proof (rule ccontr)
    assume "fs1 (segment_path cf ?i) \<noteq> None"
    then obtain j where "j \<le> length done" "segment_path cf ?i = segment_path cf (int j)"
      using wal_filesD(9) [OF f(1) _ path_is_segment, of "Suc (length done)"] by blast
    then show False unfolding path_inj by simp
  qed
  have lim: "seg_limit wl' = seg_limit wl1" by (simp add: wl' seg_limit_def)
  have other: "segment_path cf (int j) \<noteq> segment_path cf ?i" if "j < Suc (length done)" for j using that unfolding path_inj by simp
  have cur: "fs1 (segment_path cf (int (length done))) = Some (entries cur)"
    using f(2) wal_filesD(2) [OF f(1)] by simp
  have segs: "fs' (segment_path cf (int j)) = Some (entries ((done @ [cur]) ! j)) \<and>
      length (entries ((done @ [cur]) ! j)) \<le> seg_limit wl'" if "j < length (done @ [cur])" for j
  proof (cases "j = length done")
    case True
    then show ?thesis using cur other [of j] wal_filesD(7) [OF f(1)] by (simp add: fs' OpenFile_def lim)
  next
    case False
    then have "j < length done" using that by simp
    then show ?thesis
      using wal_filesD(3,10) [OF f(1), of j] other [of j] unfolding lim by (simp add: fs' OpenFile_def nth_append)
  qed
  have dom: "\<exists>j\<le>length (done @ [cur]). p = segment_path cf (int j)" if "p \<in> dom fs'" "is_segment cf p" for p
  proof (cases "p = segment_path cf ?i")
    case True
    then show ?thesis by (intro exI [of _ "Suc (length done)"]) simp
  next
    case False
    then have "p \<in> dom fs1" using that(1) by (simp add: fs' OpenFile_def)
    from wal_filesD(9) [OF f(1) this that(2)] show ?thesis by (auto intro: le_SucI)
  qed
  show "wal_files cf (done @ [cur]) [] wl' fs'"
    unfolding wal_files_def
  proof (intro conjI allI impI ballI)
    show "finite (dom fs')" using wal_filesD(8) [OF f(1)] by (simp add: fs' OpenFile_def)
    show "unat (wl_maxSegmentSizeBytes wl') \<le> 2 ^ 32 - 2 ^ 20" using wal_filesD(6) [OF f(1)] by (simp add: wl')
    show "\<exists>f. fs' (wl_csf wl') = Some f \<and> f @ wl_buf wl' = entries []"
      using fresh by (simp add: wl' fs' OpenFile_def)
    show "wl_csIdx wl' = int (length (done @ [cur]))" "wl_csf wl' = segment_path cf (wl_csIdx wl')"
      "unat (wl_csSize wl') = length (entries [])" "length (entries []) \<le> seg_limit wl'"
      by (simp_all add: wl')
  qed (use segs dom in blast)+
  show "wl_csIdx wl' \<noteq> wl_csIdx wl" "wl_csSize wl' = 0" "wl_maxSegmentSizeBytes wl' = wl_maxSegmentSizeBytes wl"
    using f(3) wal_filesD(1) [OF assms(1)] s by (auto simp: wl' sync_def Let_def split: if_splits)
qed

lemma write_files:
  assumes "wal_files cf done cur wl fs" and b: "8 + length b \<le> cap_bb"
    and fits: "unat (wl_csSize wl) + (8 + length b) \<le> seg_limit wl"
    and w: "bufio_Write (wl_bufSize wl) (wl_buf wl) (wal_entry b) = (buf, out)"
  shows "wal_files cf done (cur @ [b]) (wl\<lparr>wl_buf := buf, wl_csSize := wl_csSize wl + of_nat (8 + length b)\<rparr>)
    (append_file (wl_csf wl) out fs)" (is "wal_files cf done _ ?wl ?fs")
proof -
  note d = wal_filesD [OF assms(1)]
  from d(4) obtain f where f: "fs (segment_path cf (int (length done))) = Some f" "f @ wl_buf wl = entries cur" by blast
  have app: "(f @ out) @ buf = entries (cur @ [b])" using bufio_Write_append [OF w] f(2) by simp
  have fs: "?fs = fs(segment_path cf (int (length done)) \<mapsto> f @ out)" by (simp add: append_file_def d(2) f(1))
  have "seg_limit wl \<le> 2 ^ 32 - 2 ^ 20" using d(6) by (simp add: seg_limit_def cap_bb_def)
  then have small: "unat (wl_csSize wl) + (8 + length b) < 2 ^ 32" using fits by simp
  have size: "unat (wl_csSize wl + of_nat (8 + length b)) = length (entries cur) + (8 + length b)"
    using small unfolding unat_word_ariths unat_size [OF b] d(5) [symmetric] by simp
  have lim: "seg_limit ?wl = seg_limit wl" by (simp add: seg_limit_def)
  show ?thesis
    unfolding wal_files_def
  proof (intro conjI allI impI ballI)
    fix j assume "j < length done"
    then show "?fs (segment_path cf (int j)) = Some (entries (done ! j))" "length (entries (done ! j)) \<le> seg_limit ?wl"
      using d(3,10) [of j] by (simp_all only: fs lim fun_upd_apply path_inj) simp_all
  next
    fix p assume "p \<in> dom ?fs" "is_segment cf p"
    then show "\<exists>j\<le>length done. p = segment_path cf (int j)" using d(9) [of p] by (auto simp: fs)
  next
    show "\<exists>f. ?fs (wl_csf ?wl) = Some f \<and> f @ wl_buf ?wl = entries (cur @ [b])"
      unfolding fs using app by (simp add: d(2))
    show "length (entries (cur @ [b])) \<le> seg_limit ?wl"
      unfolding lim using fits d(5) by (simp add: length_wal_entry)
    show "unat (wl_csSize ?wl) = length (entries (cur @ [b]))" using size by (simp add: length_wal_entry)
    show "finite (dom ?fs)" unfolding fs using d(8) by simp
  qed (use d in \<open>simp_all add: fs\<close>)
qed

lemma log_cases:
  assumes "LogCommand lib cf io now c wl fs = Ret (None, wl', fs')"
  obtains payload b wl2 fs2 buf out where "MarshalCommand lib c = Some payload"
    and "MarshalElement lib \<lparr>el_Lsn = wl_lsn wl + 1, el_Timestamp = now, el_ElementType = ELEMENT_TYPE_COMMAND, el_Payload = payload\<rparr> = Some b"
    and "rotateLogIfNeeded cf io (of_nat (8 + length b)) (wl\<lparr>wl_lsn := wl_lsn wl + 1\<rparr>) fs = Ret (None, wl2, fs2)"
    and "8 + length b \<le> cap_bb"
    and "bufio_Write (wl_bufSize wl2) (wl_buf wl2) (wal_entry b) = (buf, out)"
    and "wl' = wl2\<lparr>wl_buf := buf, wl_csSize := wl_csSize wl2 + of_nat (8 + length b)\<rparr>"
    and "fs' = append_file (wl_csf wl2) out fs2"
  using assms
  by (auto simp: LogCommand_def Let_def split: option.splits outcome.splits prod.splits if_splits)

lemma log_files:
  assumes w: "wal_files cf done cur wl fs" and p: "proto_ok lib"
    and log: "LogCommand lib cf io now c wl fs = Ret (None, wl', fs')"
  shows "\<exists>b. carries lib b c \<and> (if wl_csIdx wl' = wl_csIdx wl then wal_files cf done (cur @ [b]) wl' fs' \<and>
      (\<forall>f f'. fs (wl_csf wl) = Some f \<longrightarrow> fs' (wl_csf wl') = Some f' \<longrightarrow> length f \<le> length f')
    else wal_files cf (done @ [cur]) [b] wl' fs')"
  using log
proof (cases rule: log_cases)
  case (1 payload b wl2 fs2 buf out)
  let ?wl1 = "wl\<lparr>wl_lsn := wl_lsn wl + 1\<rparr>"
  have "UnmarshalCommand lib payload = Some c" using p 1(1) unfolding proto_ok_def by blast
  moreover from p 1(2) have "UnmarshalElement lib b =
      Some \<lparr>el_Lsn = wl_lsn wl + 1, el_Timestamp = now, el_ElementType = ELEMENT_TYPE_COMMAND, el_Payload = payload\<rparr>"
    unfolding proto_ok_def by blast
  ultimately have c: "carries lib b c" using 1(4) by (simp add: carries_def)
  have w1: "wal_files cf done cur ?wl1 fs" using w by simp
  have ok: "unat (wl_csSize wl2) + (8 + length b) \<le> seg_limit wl2" if "wl_csSize wl2 = 0"
    using that 1(4) by (simp add: seg_limit_def)
  show ?thesis
  proof (cases "wl_csSize wl + of_nat (8 + length b) > wl_maxSegmentSizeBytes wl")
    case True
    then have "rotateLog cf io ?wl1 fs = Ret (None, wl2, fs2)" using 1(3) by (simp add: rotateLogIfNeeded_def)
    note r = rotate_files [OF w1 this]
    from write_files [OF r(1) 1(4) ok [OF r(3)] 1(5)] have "wal_files cf (done @ [cur]) ([] @ [b]) wl' fs'"
      unfolding 1(6,7) .
    with c r(2) show ?thesis using 1(6) by auto
  next
    case False
    then have eq: "wl2 = ?wl1" "fs2 = fs" using 1(3) by (simp_all add: rotateLogIfNeeded_def)
    note d = wal_filesD [OF w]
    have "seg_limit wl \<le> 2 ^ 32 - 2 ^ 20" using d(6) by (simp add: seg_limit_def cap_bb_def)
    then have "unat (wl_csSize wl) + (8 + length b) < 2 ^ 32" using d(5,7) 1(4) by (simp add: cap_bb_def)
    then have "unat (wl_csSize wl + of_nat (8 + length b)) = unat (wl_csSize wl) + (8 + length b)"
      unfolding unat_word_ariths unat_size [OF 1(4)] by simp
    moreover have "unat (wl_csSize wl + of_nat (8 + length b)) \<le> unat (wl_maxSegmentSizeBytes wl)"
      using False unfolding not_less word_le_nat_alt .
    ultimately have fits: "unat (wl_csSize ?wl1) + (8 + length b) \<le> seg_limit ?wl1" by (simp add: seg_limit_def)
    have "wal_files cf done (cur @ [b]) wl' fs'"
      using write_files [OF w1 1(4) fits] 1(5) unfolding 1(6,7) eq by simp
    moreover have "length f \<le> length f'" if "fs (wl_csf wl) = Some f" "fs' (wl_csf wl') = Some f'" for f f'
      using that 1(6,7) eq by (simp add: append_file_def) auto
    ultimately show ?thesis using c 1(6) eq by auto
  qed
qed

lemma log_fail_files:
  assumes w: "wal_files cf done cur wl fs" and log: "LogCommand lib cf io now c wl fs = Ret (Some err, wl', fs')"
  shows "wal_files cf done cur wl' fs' \<and>
    (\<forall>f f'. fs (wl_csf wl) = Some f \<longrightarrow> fs' (wl_csf wl') = Some f' \<longrightarrow> length f \<le> length f')"
proof -
  let ?wl1 = "wl\<lparr>wl_lsn := wl_lsn wl + 1\<rparr>"
  have w1: "wal_files cf done cur ?wl1 fs" using w by simp
  consider "wl' = wl" "fs' = fs" | "wl' = ?wl1" "fs' = fs"
    | r wl1 fs1 where "sync io ?wl1 fs = (r, wl1, fs1)" "wl' = wl1" "fs' = fs1"
    using log
    by (auto simp: LogCommand_def rotateLogIfNeeded_def rotateLog_def Let_def split: option.splits outcome.splits prod.splits if_splits)
  then show ?thesis
  proof cases
    case 3
    have "length f \<le> length f'" if "fs (wl_csf wl) = Some f" "fs' (wl_csf wl') = Some f'" for f f'
      using that 3 by (auto simp: sync_def append_file_def Let_def split: if_splits)
    with sync_files(1) [OF w1 3(1)] 3 show ?thesis by blast
  qed (use w w1 in simp_all)
qed

section \<open>Every reachable state\<close>

lemma length_concat_all2: "list_all2 (list_all2 P) xss yss \<Longrightarrow> length (concat xss) = length (concat yss)"
  by (induction xss yss rule: list_all2_induct) (auto dest: list_all2_lengthD)

lemma wal_invI:
  assumes "wal_files cf done cur wl fs" and "list_all2 (list_all2 (carries lib)) done css" and "list_all2 (carries lib) cur cs"
    and "d \<le> length (concat css) + length cs" and "fs (wl_csf wl) = Some f"
    and "length (entries (take (d - length (concat css)) cur)) \<le> length f"
  shows "wal_inv lib cf (css @ [cs]) d wl fs"
  using assms length_concat_all2 [OF assms(2)] unfolding wal_inv_def
  by (intro exI [of _ "done"] exI [of _ cur]) (simp add: list_all2_appendI)

lemma wal_invE:
  assumes "wal_inv lib cf css0 d wl fs"
  obtains ds cur css cs f where "css0 = css @ [cs]" "wal_files cf ds cur wl fs"
    "list_all2 (list_all2 (carries lib)) ds css" "list_all2 (carries lib) cur cs"
    "d \<le> length (concat css) + length cs" "fs (wl_csf wl) = Some f"
    "length (entries (take (d - length (concat css)) cur)) \<le> length f"
proof -
  from assms obtain ds cur where *: "wal_files cf ds cur wl fs"
    "list_all2 (list_all2 (carries lib)) (ds @ [cur]) css0" "d \<le> length (concat css0)"
    "\<forall>f. fs (wl_csf wl) = Some f \<longrightarrow> length (entries (take (d - length (concat ds)) cur)) \<le> length f"
    unfolding wal_inv_def by blast
  from *(2) obtain css cs where c: "css0 = css @ [cs]" "list_all2 (list_all2 (carries lib)) ds css" "list_all2 (carries lib) cur cs"
    by (auto simp: list_all2_append1 list_all2_Cons1)
  from wal_filesD(2,4) [OF *(1)] obtain f where "fs (wl_csf wl) = Some f" by auto
  then show ?thesis using that [OF c(1) *(1) c(2,3)] *(3,4) c(1) length_concat_all2 [OF c(2)] by simp
qed

lemma wal_start_inv:
  assumes "finite (dom fs0)" and "\<forall>p\<in>dom fs0. \<not> is_segment cf p" and "Init cf (newWalForge cf) fs0 = (wl, fs)"
  shows "wal_inv lib cf [[]] 0 wl fs"
proof -
  let ?p = "segment_path cf (int 0)"
  have p: "fs0 ?p = None" using assms(2) path_is_segment [of cf 0] by blast
  have wl: "wl_csIdx wl = 0" "wl_csf wl = ?p" "wl_csSize wl = 0" "wl_buf wl = []" "fs = fs0(?p \<mapsto> [])"
    "wl_maxSegmentSizeBytes wl = word_of_int (cf_WALMaxSegmentSizeMB cf) * 1024 * 1024"
    using assms(3) p by (auto simp: Init_def newWalForge_def OpenFile_def Let_def)
  have "unat (word_of_int (cf_WALMaxSegmentSizeMB cf) * 1024 * 1024 :: 32 word) \<le> 2 ^ 32 - 2 ^ 20"
  proof -
    define m where "m = (word_of_int (cf_WALMaxSegmentSizeMB cf) :: 32 word)"
    have "unat (m * 1024 * 1024) = (unat m * 2 ^ 20) mod 2 ^ 32" by (simp add: unat_word_ariths mod_mult_left_eq mult.commute)
    also have "\<dots> = (unat m mod 2 ^ 12) * 2 ^ 20"
      using mult_mod_right [of "2 ^ 20" "unat m" "2 ^ 12"] by (simp add: mult.commute)
    also have "\<dots> \<le> (2 ^ 12 - 1) * 2 ^ 20"
    proof (rule mult_right_mono)
      have "unat m mod 2 ^ 12 < 2 ^ 12" by simp
      then show "unat m mod 2 ^ 12 \<le> 2 ^ 12 - 1" by simp
    qed simp
    finally show ?thesis by (simp add: m_def)
  qed
  then have "wal_files cf [] [] wl fs"
    using wl assms(1,2) by (auto simp: wal_files_def)
  from wal_invI [OF this list.rel_intros(1), of lib "[]" 0 "[]"] wl show ?thesis by simp
qed

lemma wal_reach_inv:
  assumes "wal_reach lib cf css d wl fs" and p: "proto_ok lib"
  shows "wal_inv lib cf css d wl fs"
  using assms(1)
proof induction
  case (start fs0 wl fs)
  then show ?case by (rule wal_start_inv)
next
  case (log css0 d wl fs io now c wl' fs' rotated)
  from log.IH show ?case
  proof (cases rule: wal_invE)
    case (1 ds cur css cs f)
    from log_files [OF 1(2) p log.hyps(2)] obtain b where b: "carries lib b c"
      and w: "if wl_csIdx wl' = wl_csIdx wl then wal_files cf ds (cur @ [b]) wl' fs' \<and>
        (\<forall>f f'. fs (wl_csf wl) = Some f \<longrightarrow> fs' (wl_csf wl') = Some f' \<longrightarrow> length f \<le> length f')
      else wal_files cf (ds @ [cur]) [b] wl' fs'" by blast
    show ?thesis
    proof (cases rotated)
      case True
      then have w': "wal_files cf (ds @ [cur]) [b] wl' fs'" using w log.hyps(3) by simp
      from wal_filesD(2,4) [OF w'] obtain f' where "fs' (wl_csf wl') = Some f'" by auto
      from wal_invI [OF w' _ _ _ this, of lib "css @ [cs]" "[c]" "length (concat css0)"] 1 b True show ?thesis
        by (simp add: add_cmd_def list_all2_appendI)
    next
      case False
      then have w': "wal_files cf ds (cur @ [b]) wl' fs'"
        and mono: "\<forall>f f'. fs (wl_csf wl) = Some f \<longrightarrow> fs' (wl_csf wl') = Some f' \<longrightarrow> length f \<le> length f'"
        using w log.hyps(3) by simp_all
      from wal_filesD(2,4) [OF w'] obtain f' where f': "fs' (wl_csf wl') = Some f'" by auto
      have "d - length (concat css) \<le> length cur" using 1(5) list_all2_lengthD [OF 1(4)] by simp
      then have "length (entries (take (d - length (concat css)) (cur @ [b]))) \<le> length f'"
        using 1(7) mono 1(6) f' by fastforce
      from wal_invI [OF w' 1(3) _ _ f' this, of "cs @ [c]"] 1 b False show ?thesis
        by (simp add: add_cmd_def list_all2_appendI)
    qed
  qed
next
  case (log_fails css0 d wl fs io now c err wl' fs')
  from log_fails.IH show ?case
  proof (cases rule: wal_invE)
    case (1 ds cur css cs f)
    note w = log_fail_files [OF 1(2) log_fails.hyps(2)]
    from wal_filesD(2,4) [of cf ds cur wl' fs'] w obtain f' where f': "fs' (wl_csf wl') = Some f'" by auto
    with w 1(6,7) have "length (entries (take (d - length (concat css)) cur)) \<le> length f'" by (meson le_trans)
    from wal_invI [OF conjunct1 [OF w] 1(3,4,5) f' this] 1(1) show ?thesis by simp
  qed
next
  case (sync css0 d wl fs io wl' fs')
  from sync.IH show ?case
  proof (cases rule: wal_invE)
    case (1 ds cur css cs f)
    obtain r where "sync io wl fs = (r, wl', fs')" using sync.hyps(2) by (metis periodicSync_def prod.collapse)
    note s = sync_files [OF 1(2) this]
    have "length (entries (take (k - length (concat css)) cur)) \<le> length (entries cur)" for k
      by (metis append_take_drop_id concat_append le_add1 length_append map_append)
    from wal_invI [OF s(1) 1(3,4) _ s(2) this] 1(1,5) show ?thesis by simp
  qed
next
  case (rotate css0 d wl fs io wl' fs' rotated)
  from rotate.IH show ?case
  proof (cases rule: wal_invE)
    case (1 ds cur css cs f)
    from rotate.hyps(2) obtain r where r: "rotateLog cf io wl fs = Ret (r, wl', fs')"
      by (auto simp: periodicRotate_def split: outcome.splits prod.splits)
    show ?thesis
    proof (cases r)
      case None
      note w' = rotate_files [OF 1(2) r [unfolded None]]
      from wal_filesD(2,4) [OF w'(1)] obtain f' where "fs' (wl_csf wl') = Some f'" by auto
      from wal_invI [OF w'(1) _ _ _ this, of lib "css @ [cs]" "[]" "length (concat css0)"] 1 w'(2) rotate.hyps(3) show ?thesis
        by (simp add: list_all2_appendI)
    next
      case (Some err)
      then obtain q where s: "sync io wl fs = (q, wl', fs')"
        using r by (auto simp: rotateLog_def Let_def split: prod.splits option.splits if_splits)
      note s = sync_files [OF 1(2) s]
      have "length (entries (take (d - length (concat css)) cur)) \<le> length (entries cur)"
        by (metis append_take_drop_id concat_append le_add1 length_append map_append)
      from wal_invI [OF s(1) 1(3,4,5) s(2) this] 1(1) s(3) rotate.hyps(3) show ?thesis by simp
    qed
  qed
qed

end
