(* ===== verification/WalTheorems.thy ===== *)
theory WalTheorems
  imports WalProps
begin

text \<open>
  The properties of the write-ahead log: replay after a clean stop and after a crash, corruption, the size of
  segments, the bound on a replay's work, and the two ways in which the replay order is wrong.
\<close>

section \<open>The order of the segments\<close>

lemma sort_segments: "sort_Slice segment_less xs = xs"
proof -
  have "sink segment_less j ys = ys" for j and ys by (cases j) (simp_all add: segment_less_def)
  then have "fold (sink segment_less) js ys = ys" for js ys by (induction js) simp_all
  then show ?thesis by (simp add: sort_Slice_def)
qed

lemma append_less [simp]: "xs @ ys < xs @ zs \<longleftrightarrow> ys < (zs :: string)"
  by (induction xs) simp_all

abbreviation path :: "wal_config \<Rightarrow> nat \<Rightarrow> string" where
  "path cf j \<equiv> segment_path cf (int j)"

lemma path_less: "path cf i < path cf j \<longleftrightarrow> nat_digits i @ ''.wal'' < nat_digits j @ ''.wal''"
  by (simp add: segment_path_def FormatInt_def)

lemma digit_path: "n < 10 \<Longrightarrow> nat_digits n = [digit_char n]"
  by (subst nat_digits.simps) simp

lemma digit_less: "i < j \<Longrightarrow> j < 10 \<Longrightarrow> digit_char i < digit_char j"
  by (simp add: digit_char_def less_char_def)

lemma path_digit_less: "i < j \<Longrightarrow> j < 10 \<Longrightarrow> path cf i < path cf j"
  by (simp add: path_less digit_path digit_less)

lemma nat_digits_10: "nat_digits 10 = ''10''"
  by (subst nat_digits.simps, subst nat_digits.simps) (simp add: digit_char_def char_of_def bit_0)

lemma path_10: "path cf 1 < path cf 10" "1 < j \<Longrightarrow> j < 10 \<Longrightarrow> path cf 10 < path cf j"
proof -
  have one: "digit_char (Suc 0) = CHR ''1''" by (simp add: digit_char_def char_of_def bit_0)
  show "path cf 1 < path cf 10"
    unfolding path_less by (simp add: digit_path nat_digits_10 one less_char_def)
  show "path cf 10 < path cf j" if "1 < j" "j < 10"
    using digit_less [of 1 j] that unfolding path_less by (simp add: digit_path nat_digits_10 one)
qed

lemma Glob_files:
  assumes w: "wal_files cf ds cur wl fs"
  shows "Glob cf fs = sorted_list_of_set (path cf ` {..length ds})"
proof -
  have "path cf j \<in> dom fs" if "j \<le> length ds" for j
    using wal_filesD(3,4) [OF w] that by (cases "j = length ds") auto
  then have "{p \<in> dom fs. is_segment cf p} = path cf ` {..length ds}"
    using wal_filesD(9) [OF w] path_is_segment by auto
  then show ?thesis by (simp add: Glob_def)
qed

lemma sorted_paths:
  assumes "sorted_wrt (\<lambda>i j. path cf i < path cf j) js"
  shows "sorted_list_of_set (path cf ` set js) = map (path cf) js"
proof -
  have s: "sorted_wrt (<) (map (path cf) js)" using assms by (simp add: sorted_wrt_map)
  then show ?thesis
    using sorted_list_of_set.idem_if_sorted_distinct [of "map (path cf) js"] strict_sorted_iff [THEN iffD1, OF s] by simp
qed

lemma segments_ten:
  assumes "wal_files cf ds cur wl fs" and "length ds < 10"
  shows "segments cf fs = map (path cf) [0..<Suc (length ds)]"
proof -
  have "sorted_wrt (\<lambda>i j. path cf i < path cf j) [0..<Suc (length ds)]"
    using assms(2) by (auto simp: sorted_wrt_iff_nth_less simp del: upt_Suc intro!: path_digit_less)
  from sorted_paths [OF this] show ?thesis
    unfolding segments_def sort_segments Glob_files [OF assms(1)] by (simp add: atLeast0LessThan lessThan_Suc_atMost del: upt_Suc)
qed

lemma segments_eleven:
  assumes "wal_files cf ds cur wl fs" and "length ds = 10"
  shows "segments cf fs = map (path cf) ([0, 1, 10] @ [2..<10])"
proof -
  have "path cf 0 < path cf 1" "path cf 0 < path cf 10"
    using path_digit_less [of 0 1 cf] path_10(1) [of cf] by (auto dest: less_trans)
  moreover have "path cf 0 < path cf j \<and> path cf 1 < path cf j \<and> path cf 10 < path cf j" if "j \<in> set [2..<10]" for j
  proof -
    have "1 < j" "j < 10" using that by auto
    then show ?thesis using path_digit_less [of 0 j cf] path_digit_less [of 1 j cf] path_10(2) [of j cf] by simp
  qed
  moreover have "sorted_wrt (\<lambda>i j. path cf i < path cf j) [2..<10]"
    by (rule sorted_wrt_mono_rel [OF _ sorted_wrt_upt]) (rule path_digit_less, simp, auto)
  ultimately have "sorted_wrt (\<lambda>i j. path cf i < path cf j) ([0, 1, 10] @ [2..<10])"
    using path_10(1) [of cf] by (simp add: sorted_wrt_append del: upt_conv_Cons upt_rec_numeral set_upt)
  moreover have "set ([0, 1, 10] @ [2..<10]) = {..length ds}"
    using assms(2) by (auto simp del: upt_rec_numeral upt_conv_Cons)
  ultimately show ?thesis
    using sorted_paths unfolding segments_def sort_segments Glob_files [OF assms(1)] by metis
qed

section \<open>Replaying a directory\<close>

lemma replay_all: "list_all2 (carries lib) es cs \<Longrightarrow> replay_file lib (folding f) (entries es) st = Ret (fold f cs st, None)"
  using replay_entries [of lib es cs f "[]" st] by simp

lemma replay_segments_fold:
  assumes "list_all2 (\<lambda>p cs. \<exists>es. fs p = Some (entries es) \<and> list_all2 (carries lib) es cs) ps css"
  shows "replay_segments lib (folding f) (ps @ qs) fs st = replay_segments lib (folding f) qs fs (fold f (concat css) st)"
  using assms
proof (induction ps css arbitrary: st rule: list_all2_induct)
  case (Cons p ps cs css)
  then obtain es where "fs p = Some (entries es)" "list_all2 (carries lib) es cs" by blast
  then show ?case by (simp add: Cons(3) replay_all)
qed simp

text \<open>After a sync, the current segment is a segment like the others.\<close>

definition full :: "proto \<Rightarrow> wal_config \<Rightarrow> wire_cmd list list \<Rightarrow> files \<Rightarrow> bool" where
  "full lib cf css fs \<longleftrightarrow> (\<forall>j < length css. \<exists>es. fs (path cf j) = Some (entries es) \<and> list_all2 (carries lib) es (css ! j))"

lemma full_replay:
  assumes "full lib cf css fs" and "set js \<subseteq> {..<length css}"
  shows "replay_segments lib (folding f) (map (path cf) js) fs st = Ret (fold f (concat (map ((!) css) js)) st, None)"
proof -
  have "list_all2 (\<lambda>p cs. \<exists>es. fs p = Some (entries es) \<and> list_all2 (carries lib) es cs) (map (path cf) js) (map ((!) css) js)"
    unfolding list.rel_map by (rule list.rel_refl_strong) (use assms in \<open>auto simp: full_def\<close>)
  from replay_segments_fold [OF this, of f "[]" st] show ?thesis by simp
qed

lemma stop_full:
  assumes "wal_reach lib cf css d wl fs" and "proto_ok lib" and "fs' = StopForge io wl fs"
  shows "full lib cf css fs' \<and> (\<exists>ds cur wl'. wal_files cf ds cur wl' fs' \<and> length css = Suc (length ds))"
  using wal_reach_inv [OF assms(1,2)]
proof (cases rule: wal_invE)
  case (1 ds cur css0 cs f)
  obtain r wl' where s: "sync io wl fs = (r, wl', fs')" using assms(3) by (metis StopForge_def prod.collapse)
  note w = sync_files [OF 1(2) s]
  have len: "length css0 = length ds" using 1(3) by (simp add: list_all2_lengthD)
  have "\<exists>es. fs' (path cf j) = Some (entries es) \<and> list_all2 (carries lib) es (css ! j)" if "j < length css" for j
  proof (cases "j = length ds")
    case True
    then show ?thesis using w(2) wal_filesD(2) [OF w(1)] 1(1,4) len by (auto simp: nth_append)
  next
    case False
    then have "j < length ds" using that len 1(1) by simp
    then show ?thesis using wal_filesD(3) [OF w(1)] 1(1,3) by (auto simp: nth_append len list_all2_conv_all_nth)
  qed
  then have "full lib cf css fs'" by (simp add: full_def)
  with w(1) 1(1) len show ?thesis by auto
qed

text \<open>What a process that starts on a directory sees: \<^verbatim>\<open>SetupWAL\<close> runs before the replay.\<close>

abbreviation restarted :: "wal_config \<Rightarrow> files \<Rightarrow> files" where
  "restarted cf fs \<equiv> snd (Init cf (newWalForge cf) fs)"

lemma restarted_same:
  assumes "wal_files cf ds cur wl fs"
  shows "restarted cf fs = fs"
proof -
  obtain b where "fs (path cf 0) = Some b"
    using wal_filesD(3) [OF assms, of 0] wal_filesD(4) [OF assms] by (cases ds) auto
  then show ?thesis by (simp add: Init_def OpenFile_def Let_def fun_upd_idem)
qed

text \<open>A file that a crash cut off: the entries that are whole are replayed, a torn one is an error.\<close>

definition torn :: "'e replay_error option \<Rightarrow> bool" where
  "torn err \<longleftrightarrow> err = None \<or> err = Some HeaderCut \<or> err = Some DataEOF \<or> err = Some DataCut"

lemma replay_prefix:
  assumes "list_all2 (carries lib) es cs" and "prefix q (entries es)"
  shows "\<exists>n (err :: 'e replay_error option). replay_file lib (folding f) q st = Ret (fold f (take n cs) st, err) \<and> torn err \<and> n \<le> length cs \<and>
    (\<forall>m \<le> length cs. length (entries (take m es)) \<le> length q \<longrightarrow> m \<le> n)"
  using assms
proof (induction es cs arbitrary: q st rule: list_all2_induct)
  case Nil
  then show ?case by (intro exI [of _ 0] exI [of _ None]) (simp add: torn_def)
next
  case (Cons b es c cs)
  then have q: "prefix q (wal_entry b @ entries es)" by simp
  show ?case
  proof (cases "q = []")
    case True
    have "wal_entry b \<noteq> []" by (simp add: wal_entry_def PutUint32_def)
    then have "m = 0" if "length (entries (take m (b # es))) \<le> 0" for m using that by (cases m) simp_all
    then show ?thesis
      unfolding True by (intro exI [of _ 0] exI [of _ None]) (simp add: torn_def)
  next
    case False
    show ?thesis
    proof (cases "strict_prefix q (wal_entry b)")
      case True
      have "8 + length b \<le> cap_bb" using Cons.hyps(1) by (simp add: carries_def)
      have "\<exists>err :: 'e replay_error. replay_file lib (folding f) q st = Ret (st, Some err) \<and>
          (err = HeaderCut \<or> err = DataEOF \<or> err = DataCut)"
        by (rule replay_torn [OF True False \<open>8 + length b \<le> cap_bb\<close>])
      then obtain err :: "'e replay_error" where
        err: "replay_file lib (folding f) q st = Ret (st, Some err)" "torn (Some err)" by (auto simp: torn_def)
      have "m = 0" if "length (entries (take m (b # es))) \<le> length q" for m
        using that prefix_length_less [OF True] by (cases m) simp_all
      with err show ?thesis by (intro exI [of _ 0] exI [of _ "Some err"]) simp
    next
      case not: False
      have "prefix (wal_entry b) q"
        using q not by (auto simp: prefix_append strict_prefix_def)
      then obtain r where r: "q = wal_entry b @ r" by (auto elim: prefixE)
      with q have "prefix r (entries es)" by simp
      from Cons.IH [OF this, of "f c st"] obtain n and err :: "'e replay_error option" where
        n: "replay_file lib (folding f) r (f c st) = Ret (fold f (take n cs) (f c st), err)" "torn err" "n \<le> length cs"
          "\<forall>m \<le> length cs. length (entries (take m es)) \<le> length r \<longrightarrow> m \<le> n" by blast
      have "m \<le> Suc n" if "m \<le> length (c # cs)" "length (entries (take m (b # es))) \<le> length q" for m
        using that n(4) by (cases m) (simp_all add: r)
      with n show ?thesis
        by (intro exI [of _ "Suc n"] exI [of _ err]) (simp add: r replay_entry [OF Cons.hyps(1)])
    qed
  qed
qed

text \<open>Logging and stopping in a process that has just started, when the entry still fits into segment 0.\<close>

lemma log_to_first:
  assumes p: "proto_ok lib" and log: "LogCommand lib cf io1 now c wl1 fs1 = Ret (None, wl2, fs2)" and idx: "wl_csIdx wl2 = 0"
    and wl1: "wl_csIdx wl1 = 0" "wl_csf wl1 = path cf 0" "wl_buf wl1 = []" and es: "fs1 (path cf 0) = Some bs"
  shows "\<exists>b. carries lib b c \<and> StopForge io2 wl2 fs2 = fs1(path cf 0 \<mapsto> bs @ wal_entry b)"
  using log
proof (cases rule: log_cases)
  case (1 payload b wl3 fs3 buf out)
  let ?wl1 = "wl1\<lparr>wl_lsn := wl_lsn wl1 + 1\<rparr>"
  have "UnmarshalCommand lib payload = Some c" "UnmarshalElement lib b =
    Some \<lparr>el_Lsn = wl_lsn wl1 + 1, el_Timestamp = now, el_ElementType = ELEMENT_TYPE_COMMAND, el_Payload = payload\<rparr>"
    using p 1(1,2) unfolding proto_ok_def by blast+
  then have c: "carries lib b c" using 1(4) by (simp add: carries_def)
  have "wl3 = ?wl1 \<and> fs3 = fs1"
  proof (rule ccontr)
    assume "\<not> ?thesis"
    then have "rotateLog cf io1 ?wl1 fs1 = Ret (None, wl3, fs3)"
      using 1(3) by (auto simp: rotateLogIfNeeded_def split: if_splits)
    then have "wl_csIdx wl3 = 1"
      using wl1(1) by (auto simp: rotateLog_def sync_def Let_def split: if_splits prod.splits option.splits)
    with 1(6) idx show False by simp
  qed
  then have "wl2 = ?wl1\<lparr>wl_buf := buf, wl_csSize := wl_csSize wl1 + of_nat (8 + length b)\<rparr>"
    "fs2 = append_file (path cf 0) out fs1" "out @ buf = wal_entry b"
    using 1(6,7) wl1 bufio_Write_append [OF 1(5)] by simp_all
  then have "StopForge io2 wl2 fs2 = fs1(path cf 0 \<mapsto> bs @ wal_entry b)"
    using wl1(2) es by (auto simp: StopForge_def sync_def append_file_def Let_def split: if_splits)
  with c show ?thesis by blast
qed

section \<open>Properties\<close>





text \<open>After a restart the writer appends to segment 0 again: a command logged then is replayed before all the
  commands of the later segments.\<close>

lemma restart_reorders:
  assumes "wal_reach lib cf css d wl fs" and "proto_ok lib" and "length css \<le> 10"
    and start: "Init cf (newWalForge cf) (StopForge io wl fs) = (wl1, fs1)"
    and log: "LogCommand lib cf io1 now c wl1 fs1 = Ret (None, wl2, fs2)" and "wl_csIdx wl2 = 0"
  shows "ReplayCommand lib cf (folding f) (restarted cf (StopForge io2 wl2 fs2)) st =
    Ret (fold f (hd css @ [c] @ concat (tl css)) st, None)"
proof -
  from stop_full [OF assms(1,2) refl, of io] obtain ds cur wl' where full: "full lib cf css (StopForge io wl fs)"
    and w: "wal_files cf ds cur wl' (StopForge io wl fs)" and len: "length css = Suc (length ds)" by blast
  have fs1: "fs1 = StopForge io wl fs" using restarted_same [OF w] start by simp
  have wl1: "wl_csIdx wl1 = 0" "wl_csf wl1 = path cf 0" "wl_buf wl1 = []"
    using start by (auto simp: Init_def newWalForge_def Let_def)
  obtain es where es: "fs1 (path cf 0) = Some (entries es)" "list_all2 (carries lib) es (css ! 0)"
    using full len fs1 unfolding full_def by auto
  let ?css = "(css ! 0 @ [c]) # tl css" and ?fs = "StopForge io2 wl2 fs2"
  from log_to_first [OF assms(2) log assms(6) wl1 es(1), of io2] obtain b where
    b: "carries lib b c" and fs: "?fs = fs1(path cf 0 \<mapsto> entries es @ wal_entry b)" by blast
  have full': "full lib cf ?css ?fs"
    unfolding full_def
  proof (intro allI impI)
    fix j assume j: "j < length ?css"
    show "\<exists>es. ?fs (path cf j) = Some (entries es) \<and> list_all2 (carries lib) es (?css ! j)"
    proof (cases j)
      case 0
      then show ?thesis using es(2) b by (intro exI [of _ "es @ [b]"]) (simp add: fs list_all2_appendI)
    next
      case (Suc i)
      then have "path cf j \<noteq> path cf 0" unfolding path_inj by simp
      moreover have "?css ! j = css ! j" using Suc j len by (simp add: nth_tl)
      moreover have "j < length css" using j len by simp
      then have "\<exists>es. fs1 (path cf j) = Some (entries es) \<and> list_all2 (carries lib) es (css ! j)"
        using full unfolding full_def fs1 by blast
      ultimately show ?thesis unfolding fs by simp
    qed
  qed
  have "dom ?fs = dom fs1" unfolding fs using es(1) by auto
  then have "segments cf ?fs = segments cf fs1" by (simp add: segments_def Glob_def)
  then have s: "segments cf ?fs = map (path cf) [0..<length ?css]"
    using segments_ten [OF w] fs1 assms(3) len by simp
  have r: "restarted cf ?fs = ?fs" unfolding fs by (simp add: Init_def OpenFile_def Let_def fun_upd_idem)
  have m: "map ((!) ?css) [0..<length ?css] = ?css" by (rule map_nth)
  have "css \<noteq> []" using len by auto
  then have "hd css = css ! 0" by (rule hd_conv_nth)
  have sub: "set [0..<length ?css] \<subseteq> {..<length ?css}" by (simp only: set_upt atLeast0LessThan subset_refl)
  show ?thesis
    unfolding ReplayCommand_def r s full_replay [OF full' sub] m \<open>hd css = css ! 0\<close> by simp
qed

text \<open>Counting the callback's runs.\<close>

lemma replay_file_work:
  "replay_file lib (\<lambda>c (st, n). (let (st', e) = cb c st in ((st', Suc n), e))) bs (st, n) = Ret ((st', k), err) \<Longrightarrow>
    n \<le> k \<and> 8 * (k - n) \<le> length bs"
proof (induction lib "\<lambda>c (st, n). (let (st', e) = cb c st in ((st', Suc n), e))" bs "(st, n)" arbitrary: st n rule: replay_file.induct)
  case (1 lib bs st n)
  show ?case
  proof (cases "bs = [] \<or> length bs < 8")
    case True
    then show ?thesis using 1(2) by (subst (asm) replay_file.simps) (auto split: if_splits)
  next
    case False
    let ?sz = "unat (Uint32 (take 4 (drop 4 bs)))"
    consider "k = n" | "k = Suc n" | c el st1 where
      "cb c st = (st1, None)" "\<not> cap_bb < ?sz" "\<not> (0 < ?sz \<and> drop 8 bs = [])" "\<not> length (drop 8 bs) < ?sz"
      "\<not> Uint32 (take 4 bs) \<noteq> ChecksumIEEE (take ?sz (drop 8 bs))"
      "UnmarshalElement lib (take ?sz (drop 8 bs)) = Some el" "UnmarshalCommand lib (el_Payload el) = Some c"
      "replay_file lib (\<lambda>c (st, n). (let (st', e) = cb c st in ((st', Suc n), e))) (drop ?sz (drop 8 bs)) (st1, Suc n) = Ret ((st', k), err)"
      using 1(2) False
      by (subst (asm) replay_file.simps) (auto simp: Let_def split: if_splits option.splits prod.splits)
    then show ?thesis
    proof cases
      case 3
      have "Suc n \<le> k \<and> 8 * (k - Suc n) \<le> length (drop ?sz (drop 8 bs))"
        by (rule 1(1) [OF _ _ refl refl refl 3(2-4) refl refl 3(5-7) _ refl 3(8)]) (use False 3(1) in auto)
      then show ?thesis using False by auto
    qed (use False in auto)
  qed
qed

definition disk_bytes :: "string list \<Rightarrow> files \<Rightarrow> nat" where
  "disk_bytes ps fs = sum_list (map (\<lambda>p. case fs p of None \<Rightarrow> 0 | Some b \<Rightarrow> length b) ps)"

lemma replay_segments_work:
  "replay_segments lib (\<lambda>c (st, n). (let (st', e) = cb c st in ((st', Suc n), e))) ps fs (st, n) = Ret ((st', k), err) \<Longrightarrow>
    n \<le> k \<and> 8 * (k - n) \<le> disk_bytes ps fs"
proof (induction ps arbitrary: st n)
  case (Cons p ps)
  let ?cb = "\<lambda>c (st, n). (let (st', e) = cb c st in ((st', Suc n), e))"
  show ?case
  proof (cases "fs p")
    case (Some bs)
    with Cons.prems obtain st1 m e where r: "replay_file lib ?cb bs (st, n) = Ret ((st1, m), e)"
      by (cases "replay_file lib ?cb bs (st, n)") auto
    note one = replay_file_work [OF r]
    show ?thesis
    proof (cases e)
      case None
      with Cons.prems Some r have "replay_segments lib ?cb ps fs (st1, m) = Ret ((st', k), err)" by simp
      from Cons.IH [OF this] one show ?thesis using Some by (simp add: disk_bytes_def, arith)
    next
      case (Some er)
      with Cons.prems \<open>fs p = Some bs\<close> r one show ?thesis by (simp add: disk_bytes_def)
    qed
  qed (use Cons.prems in \<open>simp add: disk_bytes_def\<close>)
qed (simp add: disk_bytes_def)


lemma corrupted_entry:
  assumes b: "8 + length b \<le> cap_bb" and i: "i < length b" and x: "x \<noteq> b ! i"
  shows "replay_file lib cb (take 8 (wal_entry b) @ b[i := x] @ rest) st =
    Ret (st, Some (CRCMismatch (ChecksumIEEE (b[i := x])) (ChecksumIEEE b)))"
proof -
  let ?b = "b[i := x]"
  define bs where "bs = take 8 (wal_entry b) @ ?b @ rest"
  have split: "b = take i b @ b ! i # drop (Suc i) b" using i by (simp add: id_take_nth_drop)
  have "?b = take i b @ x # drop (Suc i) b" using i by (simp add: upd_conv_take_nth_drop)
  then have crc: "ChecksumIEEE ?b \<noteq> ChecksumIEEE b" using Checksum_byte [OF x] split by metis
  have h: "take 8 (wal_entry b) = PutUint32 (ChecksumIEEE b) @ PutUint32 (of_nat (length b))" by (simp add: wal_entry_def)
  have n: "length b \<le> cap_bb" using b by simp
  have f: "take 4 bs = PutUint32 (ChecksumIEEE b)" "take 4 (drop 4 bs) = PutUint32 (of_nat (length b))" "drop 8 bs = ?b @ rest"
    "8 \<le> length bs" "b \<noteq> []" using i by (auto simp: h bs_def)
  then show ?thesis
    using unat_size [OF n] n crc unfolding bs_def [symmetric] by (subst replay_file.simps) (auto simp: Let_def)
qed


section \<open>Witnesses\<close>

text \<open>A message format: each string's characters after a 1 each, and a 0 at its end; an element of a small
  number and a fixed time is its number and its payload.\<close>

definition ex_string :: "string \<Rightarrow> bytes" where
  "ex_string s = concat (map (\<lambda>c. [1, word_of_nat (of_char c)]) s) @ [0, 0]"

fun ex_strings :: "string \<Rightarrow> bytes \<Rightarrow> string list" where
  "ex_strings acc (t # x # r) = (if t = 0 then acc # ex_strings [] r else ex_strings (acc @ [char_of (unat x)]) r)"
| "ex_strings acc _ = []"

definition ex_proto :: proto where
  "ex_proto = \<lparr>MarshalCommand = \<lambda>(name, args). Some (concat (map ex_string (name # args))),
     UnmarshalCommand = \<lambda>b. (case ex_strings [] b of [] \<Rightarrow> None | name # args \<Rightarrow> Some (name, args)),
     MarshalElement = \<lambda>el. (if unat (el_Lsn el) < 256 \<and> el_Timestamp el = 7 \<and> el_ElementType el = ELEMENT_TYPE_COMMAND
       then Some (ucast (el_Lsn el) # el_Payload el) else None),
     UnmarshalElement = \<lambda>b. (case b of [] \<Rightarrow> None
       | n # p \<Rightarrow> Some \<lparr>el_Lsn = ucast n, el_Timestamp = 7, el_ElementType = ELEMENT_TYPE_COMMAND, el_Payload = p\<rparr>)\<rparr>"

lemma char_word [simp]: "char_of (unat (word_of_nat (of_char c) :: 8 word)) = c"
proof -
  have "unat (word_of_nat (of_char c) :: 8 word) = of_char c"
    by (simp add: unat_of_nat take_bit_nat_eq_self)
  then show ?thesis by simp
qed

lemma ex_strings_one: "ex_strings acc (ex_string s @ r) = (acc @ s) # ex_strings [] r"
  unfolding ex_string_def by (induction s arbitrary: acc) simp_all

lemma ex_strings_all: "ex_strings [] (concat (map ex_string ss)) = ss"
  by (induction ss) (simp_all add: ex_strings_one)

lemma ex_proto_ok: "proto_ok ex_proto"
proof -
  have "(ucast (ucast n :: 8 word) :: 64 word) = n" if "unat n < 256" for n :: "64 word"
  proof (rule word_unat_eq_iff [THEN iffD2])
    show "unat (ucast (ucast n :: 8 word) :: 64 word) = unat n"
      using that by (simp add: unsigned_ucast_eq unsigned_take_bit_eq take_bit_nat_eq_self)
  qed
  then show ?thesis
    using ex_strings_all [of "_ # _"] by (auto simp: proto_ok_def ex_proto_def split: if_splits)
qed

lemma LogCommand_fits:
  assumes m: "MarshalCommand lib c = Some payload" "MarshalElement lib \<lparr>el_Lsn = wl_lsn wl + 1, el_Timestamp = now,
      el_ElementType = ELEMENT_TYPE_COMMAND, el_Payload = payload\<rparr> = Some b"
    and b: "8 + length b \<le> cap_bb" and fits: "unat (wl_csSize wl) + (8 + length b) \<le> unat (wl_maxSegmentSizeBytes wl)"
  shows "\<exists>buf out. LogCommand lib cf io now c wl fs = Ret (None, wl\<lparr>wl_lsn := wl_lsn wl + 1, wl_buf := buf,
    wl_csSize := wl_csSize wl + of_nat (4 + 4 + length b)\<rparr>, append_file (wl_csf wl) out fs)"
proof -
  define sz where "sz = (of_nat (4 + 4 + length b) :: 32 word)"
  have sz: "unat sz = 8 + length b" unfolding sz_def using unat_size [of "4 + 4 + length b"] b by simp
  have "unat (wl_csSize wl + sz) \<le> unat (wl_csSize wl) + unat sz" unfolding unat_word_ariths by (rule mod_less_eq_dividend)
  then have "\<not> wl_csSize wl + sz > wl_maxSegmentSizeBytes wl" using fits sz unfolding word_less_nat_alt by simp
  then have rot: "rotateLogIfNeeded cf io sz (wl\<lparr>wl_lsn := wl_lsn wl + 1\<rparr>) fs = Ret (None, wl\<lparr>wl_lsn := wl_lsn wl + 1\<rparr>, fs)"
    by (simp add: rotateLogIfNeeded_def)
  have el: "MarshalElement lib \<lparr>el_Lsn = wl_lsn (wl\<lparr>wl_lsn := wl_lsn wl + 1\<rparr>), el_Timestamp = now,
      el_ElementType = ELEMENT_TYPE_COMMAND, el_Payload = payload\<rparr> = Some b" using m(2) by simp
  have nb: "\<not> (of_nat cap_bb < sz \<or> cap_bb < 8 + length b)"
    using b unfolding word_less_nat_alt sz by (simp add: cap_bb_def)
  show ?thesis
    unfolding LogCommand_def m(1) option.case Let_def el sz_def [symmetric] rot outcome.case prod.case if_not_P [OF nb]
    by (simp add: case_prod_unfold) blast
qed

definition ex_cf :: wal_config where
  "ex_cf = \<lparr>cf_WALDir = ''logs'', cf_WALBufferSizeMB = 1, cf_WALMaxSegmentSizeMB = 16\<rparr>"

definition ex_io :: wal_io where
  "ex_io = \<lparr>io_sync_ok = True, io_close_ok = True, io_open_ok = True\<rparr>"

definition ready :: "wire_cmd list list \<Rightarrow> nat \<Rightarrow> 64 word \<Rightarrow> WalForge \<Rightarrow> files \<Rightarrow> bool" where
  "ready css d n wl fs \<longleftrightarrow> wal_reach ex_proto ex_cf css d wl fs \<and> wl_lsn wl = n \<and>
     wl_maxSegmentSizeBytes wl = 16 * 1024 * 1024"

lemma ex_start: "\<exists>wl fs. ready [[]] 0 0 wl fs \<and> wl_csSize wl = 0"
proof -
  obtain wl fs where i: "Init ex_cf (newWalForge ex_cf) Map.empty = (wl, fs)" by (rule prod.exhaust)
  from wal_reach.start [OF _ _ i] have "wal_reach ex_proto ex_cf [[]] 0 wl fs" by simp
  then show ?thesis using i by (auto simp: ready_def Init_def newWalForge_def ex_cf_def Let_def)
qed

lemma ex_rotate:
  assumes "ready css d n wl fs"
  shows "\<exists>wl' fs'. ready (css @ [[]]) (length (concat css)) n wl' fs' \<and> wl_csSize wl' = 0"
proof -
  obtain wl' fs' where r: "rotateLog ex_cf ex_io wl fs = Ret (None, wl', fs')"
    by (simp add: rotateLog_def sync_def ex_io_def Let_def)
  have "periodicRotate ex_cf ex_io wl fs = Ret (wl', fs')" by (simp add: periodicRotate_def r)
  moreover have f: "wl_csIdx wl' \<noteq> wl_csIdx wl" "wl_csSize wl' = 0" "wl_lsn wl' = wl_lsn wl"
    "wl_maxSegmentSizeBytes wl' = wl_maxSegmentSizeBytes wl"
    using r by (auto simp: rotateLog_def sync_def ex_io_def Let_def)
  ultimately have "wal_reach ex_proto ex_cf (css @ [[]]) (length (concat css)) wl' fs'"
    using wal_reach.rotate [of ex_proto ex_cf css d wl fs ex_io wl' fs' True] assms by (simp add: ready_def)
  with f assms show ?thesis by (auto simp: ready_def)
qed

lemma ex_rotates: "ready css d n wl fs \<Longrightarrow> \<exists>d' wl' fs'. ready (css @ replicate (Suc k) []) d' n wl' fs' \<and> wl_csSize wl' = 0"
proof (induction k)
  case (Suc k)
  then obtain d' wl' fs' where "ready (css @ replicate (Suc k) []) d' n wl' fs'" by blast
  from ex_rotate [OF this] obtain wl1 fs1 where
    "ready ((css @ replicate (Suc k) []) @ [[]]) (length (concat (css @ replicate (Suc k) []))) n wl1 fs1" "wl_csSize wl1 = 0" by blast
  moreover have "(css @ replicate (Suc k) []) @ [[]] = css @ replicate (Suc (Suc k)) []" by (simp add: replicate_append_same)
  ultimately show ?case by metis
next
  case 0
  from ex_rotate [OF 0] show ?case unfolding replicate.simps by blast
qed

lemma ex_log:
  assumes r: "ready css d n wl fs" and z: "wl_csSize wl = 0" and n: "unat (n + 1) < 256"
    and c: "length (concat (map ex_string (fst c # snd c))) \<le> 1000"
  shows "\<exists>wl' fs'. ready (butlast css @ [last css @ [c]]) d (n + 1) wl' fs'"
proof -
  let ?p = "concat (map ex_string (fst c # snd c))"
  let ?b = "ucast (wl_lsn wl + 1) # ?p"
  have m: "MarshalCommand ex_proto c = Some ?p"
    "MarshalElement ex_proto \<lparr>el_Lsn = wl_lsn wl + 1, el_Timestamp = 7, el_ElementType = ELEMENT_TYPE_COMMAND, el_Payload = ?p\<rparr> = Some ?b"
    using n r by (simp_all add: ex_proto_def ready_def split: prod.split)
  have l: "8 + length ?b \<le> cap_bb" using c by (simp add: cap_bb_def)
  have s: "wl_csSize wl = 0" "wl_lsn wl = n" "wl_maxSegmentSizeBytes wl = 16 * 1024 * 1024"
    and reach: "wal_reach ex_proto ex_cf css d wl fs" using r z by (simp_all add: ready_def)
  have f: "unat (wl_csSize wl) + (8 + length ?b) \<le> unat (wl_maxSegmentSizeBytes wl)" using c by (simp add: s)
  from LogCommand_fits [OF m(1) m(2) l f] obtain wl' fs' where
    log: "LogCommand ex_proto ex_cf ex_io 7 c wl fs = Ret (None, wl', fs')"
    and w: "wl_csIdx wl' = wl_csIdx wl" "wl_lsn wl' = n + 1" "wl_maxSegmentSizeBytes wl' = 16 * 1024 * 1024"
    using s by fastforce
  from wal_reach.log [OF reach log refl] w show ?thesis by (auto simp: add_cmd_def ready_def)
qed

definition ex_set :: "string \<Rightarrow> wire_cmd" where
  "ex_set v = (''SET'', [''k'', v])"

definition collect :: "wire_cmd \<Rightarrow> wire_cmd list \<Rightarrow> wire_cmd list \<times> unit option" where
  "collect = folding (\<lambda>c st. st @ [c])"

lemma fold_collect: "fold (\<lambda>c st. st @ [c]) cs st = st @ cs"
  by (induction cs arbitrary: st) simp_all

lemma length_ex_string: "length (ex_string s) = 2 * length s + 2"
  by (induction s) (simp_all add: ex_string_def)

lemma ex_log_set:
  "ready css d n wl fs \<Longrightarrow> wl_csSize wl = 0 \<Longrightarrow> unat (n + 1) < 256 \<Longrightarrow> length v \<le> 9 \<Longrightarrow>
    \<exists>wl' fs'. ready (butlast css @ [last css @ [ex_set v]]) d (n + 1) wl' fs'"
  by (rule ex_log) (simp_all add: ex_set_def length_ex_string)

lemma ex_one: "\<exists>wl fs. ready [[ex_set ''1'']] 0 1 wl fs"
  using ex_start ex_log_set [of "[[]]" 0 0 _ _ "''1''"] by fastforce

lemma ex_two: "\<exists>wl fs. ready [[ex_set ''1''], [ex_set ''2'']] 1 2 wl fs"
proof -
  from ex_one obtain wl fs where "ready [[ex_set ''1'']] 0 1 wl fs" by blast
  from ex_rotate [OF this] obtain wl1 fs1 where "ready [[ex_set ''1''], []] 1 1 wl1 fs1" "wl_csSize wl1 = 0" by auto
  from ex_log_set [OF this, of "''2''"] show ?thesis by simp
qed

lemma ex_eleven: "\<exists>d wl fs. ready ([[], [], [ex_set ''1'']] @ replicate 7 [] @ [[ex_set ''2'']]) d 2 wl fs"
proof -
  from ex_start obtain wl fs where "ready [[]] 0 0 wl fs" by blast
  from ex_rotates [OF this, of 1] obtain d1 wl1 fs1 where "ready [[], [], []] d1 0 wl1 fs1" "wl_csSize wl1 = 0"
    by (auto simp: numeral_eq_Suc)
  from ex_log_set [OF this, of "''1''"] obtain wl2 fs2 where "ready [[], [], [ex_set ''1'']] d1 1 wl2 fs2" by auto
  from ex_rotates [OF this, of 7] obtain d3 wl3 fs3 where
    r: "ready ([[], [], [ex_set ''1'']] @ replicate (Suc 7) []) d3 1 wl3 fs3" "wl_csSize wl3 = 0" by blast
  have b: "butlast ([[], [], [ex_set ''1'']] @ replicate (Suc 7) []) = [[], [], [ex_set ''1'']] @ replicate 7 []"
    "last ([[], [], [ex_set ''1'']] @ replicate (Suc 7) []) = []" by (simp_all add: numeral_eq_Suc)
  from ex_log_set [OF r, of "''2''"] obtain wl4 fs4 where
    "ready (([[], [], [ex_set ''1'']] @ replicate 7 []) @ [[] @ [ex_set ''2'']]) d3 (1 + 1) wl4 fs4" unfolding b by auto
  then have "ready ([[], [], [ex_set ''1'']] @ replicate 7 [] @ [[ex_set ''2'']]) d3 2 wl4 fs4" by simp
  then show ?thesis by blast
qed





theorem restart_reorders_witness:
  "\<exists>fs. ReplayCommand ex_proto ex_cf collect (restarted ex_cf fs) [] = Ret ([ex_set ''1'', ex_set ''3'', ex_set ''2''], None)"
proof -
  from ex_two obtain wl fs where w: "wal_reach ex_proto ex_cf [[ex_set ''1''], [ex_set ''2'']] 1 wl fs" by (auto simp: ready_def)
  obtain wl1 fs1 where i: "Init ex_cf (newWalForge ex_cf) (StopForge ex_io wl fs) = (wl1, fs1)" by (rule prod.exhaust)
  then have s: "wl_lsn wl1 = 0" "wl_csSize wl1 = 0" "wl_csIdx wl1 = 0" "wl_maxSegmentSizeBytes wl1 = 16 * 1024 * 1024"
    by (auto simp: Init_def newWalForge_def ex_cf_def Let_def)
  let ?p = "concat (map ex_string (''SET'' # [''k'', ''3'']))"
  have m: "MarshalCommand ex_proto (ex_set ''3'') = Some ?p"
    "MarshalElement ex_proto \<lparr>el_Lsn = wl_lsn wl1 + 1, el_Timestamp = 7, el_ElementType = ELEMENT_TYPE_COMMAND, el_Payload = ?p\<rparr> =
      Some (ucast (wl_lsn wl1 + 1) # ?p)" by (simp_all add: ex_proto_def ex_set_def s)
  obtain wl2 fs2 where log: "LogCommand ex_proto ex_cf ex_io 7 (ex_set ''3'') wl1 fs1 = Ret (None, wl2, fs2)" "wl_csIdx wl2 = 0"
    using LogCommand_fits [OF m, of ex_cf ex_io fs1] s by (fastforce simp: cap_bb_def ex_string_def)
  note r = restart_reorders [OF w ex_proto_ok _ i log, where f = "\<lambda>c st. st @ [c]" and ?io2.0 = ex_io and st = "[]"]
  have "ReplayCommand ex_proto ex_cf collect (restarted ex_cf (StopForge ex_io wl2 fs2)) [] =
      Ret ([ex_set ''1'', ex_set ''3'', ex_set ''2''], None)"
    unfolding collect_def by (subst r) (simp_all add: fold_collect)
  then show ?thesis by blast
qed


end
