(* ===== verification/Dashboard.thy ===== *)
theory Dashboard
  imports Prelude GoStrings "HOL-Library.Char_ord" "HOL-Library.List_Lexorder"
begin

text \<open>
  The dashboard of \<^verbatim>\<open>dice-dashboard/services\<close>: the key-value store behind it (\<^verbatim>\<open>kv_store.go\<close>), the model
  types (\<^verbatim>\<open>models.go\<close>) and the simulated cluster (\<^verbatim>\<open>cluster_service.go\<close>) with heartbeats, replication,
  injected faults, logs and metrics. Every operation holds the service's lock and is one step; the clock is
  read once per operation, in nanoseconds, and the zero time is \<open>None\<close>.
\<close>

section \<open>The store behind the service\<close>

text \<open>The interface \<^verbatim>\<open>KVStore\<close>, an error as its text, and its implementation in memory.\<close>

record 's KVStore =
  kv_Set :: "string \<Rightarrow> string \<Rightarrow> 's \<Rightarrow> string option \<times> 's"
  kv_Get :: "string \<Rightarrow> 's \<Rightarrow> string \<times> string option"
  kv_Delete :: "string \<Rightarrow> 's \<Rightarrow> string option \<times> 's"
  kv_Count :: "'s \<Rightarrow> int"
  kv_Keys :: "'s \<Rightarrow> string list"

definition KeyNotFound :: string where
  "KeyNotFound = ''key not found''"

type_synonym MemoryStore = "string \<rightharpoonup> string"

definition mem_Set :: "string \<Rightarrow> string \<Rightarrow> MemoryStore \<Rightarrow> string option \<times> MemoryStore" where
  "mem_Set key val m = (None, m(key \<mapsto> val))"

definition mem_Get :: "string \<Rightarrow> MemoryStore \<Rightarrow> string \<times> string option" where
  "mem_Get key m = (case m key of None \<Rightarrow> ([], Some KeyNotFound) | Some v \<Rightarrow> (v, None))"

definition mem_Delete :: "string \<Rightarrow> MemoryStore \<Rightarrow> string option \<times> MemoryStore" where
  "mem_Delete key m = (if m key = None then (Some KeyNotFound, m) else (None, m(key := None)))"

definition mem_Count :: "MemoryStore \<Rightarrow> int" where
  "mem_Count m = int (card (dom m))"

definition mem_Keys :: "MemoryStore \<Rightarrow> string list" where
  "mem_Keys m = sorted_list_of_set (dom m)"

definition memory_ops :: "MemoryStore KVStore" where
  "memory_ops = \<lparr>kv_Set = mem_Set, kv_Get = mem_Get, kv_Delete = mem_Delete, kv_Count = mem_Count, kv_Keys = mem_Keys\<rparr>"

definition NewKVStoreFromEnv :: "string \<Rightarrow> MemoryStore" where
  "NewKVStoreFromEnv seed =
     (if seed = ''false'' then Map.empty
      else snd (mem_Set ''mode'' ''demo'' (snd (mem_Set ''course'' ''Ung dung Phan tan''
             (snd (mem_Set ''project'' ''DiceDB'' Map.empty))))))"

section \<open>The cluster's state\<close>

record Node =
  n_Name :: string
  n_Role :: string
  n_Port :: int
  n_Status :: string
  n_KeyCount :: int
  n_MemoryUsage :: string
  n_LastHeartbeat :: int
  n_LastSeen :: string
  n_LatencyMs :: int
  n_UptimeSeconds :: int
  n_UptimeStartedAt :: int
  n_ConsecutiveFailures :: int
  n_ReplicationDelayMs :: int
  n_LastReplicationAt :: "int option"
  n_ReplicatedCommands :: int
  n_HealthScore :: int
  n_HealthStatus :: string
  n_SimulatedFailure :: bool
  n_InjectedLatencyMs :: int

record ActivityLog =
  al_Timestamp :: string
  al_Type :: string
  al_Severity :: string
  al_Message :: string

record ReplicationLog =
  rl_Timestamp :: string
  rl_Target :: string
  rl_Action :: string
  rl_Message :: string
  rl_DelayMs :: int
  rl_Success :: bool

record ReplicationResult =
  rr_Target :: string
  rr_Status :: string
  rr_DelayMs :: int
  rr_Message :: string

record MetricPoint =
  mp_Timestamp :: string
  mp_Value :: int

record 's ClusterService =
  cs_store :: 's
  cs_nodes :: "Node list"
  cs_activityLogs :: "ActivityLog list"
  cs_replicationLogs :: "ReplicationLog list"
  cs_heartbeatTimeout :: int
  cs_replicatedCommands :: int
  cs_failedReplications :: int
  cs_replicationAttempts :: int
  cs_heartbeatChecks :: int
  cs_heartbeatSamples :: int
  cs_heartbeatLatencySum :: int
  cs_latencyTrend :: "MetricPoint list"
  cs_replicationDelayTrend :: "MetricPoint list"

text \<open>The clock, its formats (time of day, with day and month, with the year) and a parser of the last one,
  and the success rate as a floating-point number.\<close>

record dash_env =
  de_now :: int
  de_clock :: "int \<Rightarrow> string"
  de_clockDay :: "int \<Rightarrow> string"
  de_stamp :: "int \<Rightarrow> string"
  de_parse :: "string \<Rightarrow> int option"
  de_rate :: "int \<Rightarrow> int \<Rightarrow> 64 word"

section \<open>Health, logs and metrics\<close>

definition calculateHealth :: "string \<Rightarrow> int \<Rightarrow> int \<Rightarrow> int \<Rightarrow> int \<times> string" where
  "calculateHealth status latencyMs failures replicationDelayMs =
     (let score0 = (if \<not> EqualFold status ''Online'' then 100 - 55 else 100);
          score1 = i64 (score0 - go_div latencyMs 5);
          score2 = i64 (score1 - i64 (failures * 10));
          score3 = i64 (score2 - go_div replicationDelayMs 10);
          score = (if score3 < 0 then 0 else score3)
      in if score \<ge> 80 then (score, ''Healthy'')
         else if score \<ge> 55 then (score, ''Warning'')
         else (score, ''Critical''))"

definition with_health :: "string \<Rightarrow> int \<Rightarrow> Node \<Rightarrow> Node" where
  "with_health status failures n =
     (let (score, st) = calculateHealth status (n_LatencyMs n) failures (n_ReplicationDelayMs n)
      in n\<lparr>n_HealthScore := score, n_HealthStatus := st\<rparr>)"

definition keep_last :: "nat \<Rightarrow> 'a list \<Rightarrow> 'a list" where
  "keep_last n xs = (if length xs > n then drop (length xs - n) xs else xs)"

definition appendActivityLocked :: "dash_env \<Rightarrow> string \<Rightarrow> string \<Rightarrow> string \<Rightarrow> 's ClusterService \<Rightarrow> 's ClusterService" where
  "appendActivityLocked e kind severity message s =
     s\<lparr>cs_activityLogs := keep_last 80 (cs_activityLogs s @
        [\<lparr>al_Timestamp = de_clock e (de_now e), al_Type = kind, al_Severity = severity, al_Message = message\<rparr>])\<rparr>"

definition recordHistoryLocked :: "dash_env \<Rightarrow> int \<Rightarrow> int \<Rightarrow> 's ClusterService \<Rightarrow> 's ClusterService" where
  "recordHistoryLocked e avgLatency maxDelay s =
     (let timestamp = de_clock e (de_now e) in
      s\<lparr>cs_latencyTrend := keep_last 20 (cs_latencyTrend s @ [\<lparr>mp_Timestamp = timestamp, mp_Value = avgLatency\<rparr>]),
        cs_replicationDelayTrend := keep_last 20 (cs_replicationDelayTrend s @ [\<lparr>mp_Timestamp = timestamp, mp_Value = maxDelay\<rparr>])\<rparr>)"

definition refreshKeyCountLocked :: "'s KVStore \<Rightarrow> 's ClusterService \<Rightarrow> 's ClusterService" where
  "refreshKeyCountLocked ops s =
     s\<lparr>cs_nodes := map (\<lambda>n. n\<lparr>n_KeyCount := kv_Count ops (cs_store s)\<rparr>) (cs_nodes s)\<rparr>"

definition averageHeartbeatLatencyLocked :: "'s ClusterService \<Rightarrow> int" where
  "averageHeartbeatLatencyLocked s =
     (if cs_heartbeatSamples s = 0 then 0 else go_div (cs_heartbeatLatencySum s) (cs_heartbeatSamples s))"

definition onlineOfflineLocked :: "'s ClusterService \<Rightarrow> int \<times> int" where
  "onlineOfflineLocked s =
     fold (\<lambda>n (online, offline). if EqualFold (n_Status n) ''Online'' then (online + 1, offline) else (online, offline + 1))
       (cs_nodes s) (0, 0)"

text \<open>The index of the first node of the name, if any.\<close>

fun find_from :: "string \<Rightarrow> nat \<Rightarrow> Node list \<Rightarrow> nat option" where
  "find_from name i [] = None"
| "find_from name i (n # ns) = (if EqualFold (n_Name n) name then Some i else find_from name (Suc i) ns)"

definition findNodeLocked :: "string \<Rightarrow> 's ClusterService \<Rightarrow> nat option" where
  "findNodeLocked name s = find_from name 0 (cs_nodes s)"

definition upd_node :: "nat \<Rightarrow> (Node \<Rightarrow> Node) \<Rightarrow> 's ClusterService \<Rightarrow> 's ClusterService" where
  "upd_node i f s = s\<lparr>cs_nodes := (cs_nodes s)[i := f (cs_nodes s ! i)]\<rparr>"

section \<open>Start and heartbeats\<close>

definition start_node :: "dash_env \<Rightarrow> string \<Rightarrow> string \<Rightarrow> int \<Rightarrow> string \<Rightarrow> Node" where
  "start_node e name role port memory =
     \<lparr>n_Name = name, n_Role = role, n_Port = port, n_Status = ''Online'', n_KeyCount = 0, n_MemoryUsage = memory,
      n_LastHeartbeat = de_now e, n_LastSeen = ''just now'', n_LatencyMs = 0, n_UptimeSeconds = 0,
      n_UptimeStartedAt = de_now e, n_ConsecutiveFailures = 0, n_ReplicationDelayMs = 0, n_LastReplicationAt = None,
      n_ReplicatedCommands = 0, n_HealthScore = 100, n_HealthStatus = ''Healthy'', n_SimulatedFailure = False,
      n_InjectedLatencyMs = 0\<rparr>"

definition NewClusterService :: "'s KVStore \<Rightarrow> dash_env \<Rightarrow> 's \<Rightarrow> int \<Rightarrow> 's ClusterService" where
  "NewClusterService ops e store heartbeatTimeout =
     (let s = \<lparr>cs_store = store,
               cs_nodes = [start_node e ''Master'' ''master'' 7379 ''32 MB'', start_node e ''Replica1'' ''replica'' 7380 ''28 MB'',
                 start_node e ''Replica2'' ''replica'' 7381 ''29 MB''],
               cs_activityLogs = [], cs_replicationLogs = [], cs_heartbeatTimeout = heartbeatTimeout,
               cs_replicatedCommands = 0, cs_failedReplications = 0, cs_replicationAttempts = 0, cs_heartbeatChecks = 0,
               cs_heartbeatSamples = 0, cs_heartbeatLatencySum = 0, cs_latencyTrend = [], cs_replicationDelayTrend = []\<rparr>
      in recordHistoryLocked e 0 0
           (appendActivityLocked e ''CLUSTER'' ''INFO'' ''Dashboard monitoring service initialized'' (refreshKeyCountLocked ops s)))"

text \<open>Whole seconds of a duration in nanoseconds.\<close>

definition go_seconds :: "int \<Rightarrow> int" where
  "go_seconds d = go_div d (10 ^ 9)"

definition tick_node :: "dash_env \<Rightarrow> nat \<Rightarrow> 's ClusterService \<times> int \<times> int \<Rightarrow> 's ClusterService \<times> int \<times> int" where
  "tick_node e i st =
     (let (s0, avgLatency, maxDelay) = st;
          s = s0\<lparr>cs_heartbeatChecks := cs_heartbeatChecks s0 + 1\<rparr>;
          n = cs_nodes s ! i
      in if n_SimulatedFailure n then
           let s1 = upd_node i (\<lambda>n. let n1 = n\<lparr>n_Status := ''Offline'', n_ConsecutiveFailures := n_ConsecutiveFailures n + 1,
                       n_UptimeSeconds := 0, n_LastSeen := FormatInt (go_seconds (de_now e - n_LastHeartbeat n)) @ ''s ago''\<rparr>
                     in with_health ''Offline'' (n_ConsecutiveFailures n1) n1) s
           in (appendActivityLocked e ''HEARTBEAT'' ''WARNING'' (n_Name n @ '' heartbeat timeout detected'') s1, avgLatency, maxDelay)
         else
           let latency = i64 (2 + int i * 3 + (if n_InjectedLatencyMs n > 0 then n_InjectedLatencyMs n else 0));
               s1 = upd_node i (\<lambda>n. with_health ''Online'' 0 (n\<lparr>n_Status := ''Online'', n_LastHeartbeat := de_now e,
                      n_LastSeen := ''just now'', n_LatencyMs := latency,
                      n_UptimeSeconds := go_seconds (de_now e - n_UptimeStartedAt n), n_ConsecutiveFailures := 0\<rparr>)) s;
               s2 = s1\<lparr>cs_heartbeatSamples := cs_heartbeatSamples s1 + 1,
                       cs_heartbeatLatencySum := i64 (cs_heartbeatLatencySum s1 + latency)\<rparr>
           in (s2, i64 (avgLatency + latency), max maxDelay (n_ReplicationDelayMs n)))"

definition tickHeartbeat :: "dash_env \<Rightarrow> 's ClusterService \<Rightarrow> 's ClusterService" where
  "tickHeartbeat e s =
     (let (s1, avgLatency, maxDelay) = fold (tick_node e) [0..<length (cs_nodes s)] (s, 0, 0);
          avg = (if length (cs_nodes s1) > 0 then go_div avgLatency (int (length (cs_nodes s1))) else avgLatency)
      in recordHistoryLocked e avg maxDelay s1)"

section \<open>Replication and the key-value operations\<close>

definition replicate_node ::
  "dash_env \<Rightarrow> string \<Rightarrow> string \<Rightarrow> nat \<Rightarrow> 's ClusterService \<times> ReplicationResult list \<times> int \<Rightarrow> 's ClusterService \<times> ReplicationResult list \<times> int" where
  "replicate_node e action payload i st =
     (let (s0, results, maxDelay) = st; n = cs_nodes s0 ! i in
      if n_Role n \<noteq> ''replica'' then st
      else
        let s = s0\<lparr>cs_replicationAttempts := cs_replicationAttempts s0 + 1\<rparr>;
            delay = i64 (4 + int i * 2 + (if n_InjectedLatencyMs n > 0 then n_InjectedLatencyMs n else 0))
        in if n_SimulatedFailure n then
             let message = action @ '' failed on '' @ n_Name n;
                 s1 = upd_node i (\<lambda>n. with_health ''Offline'' (n_ConsecutiveFailures n + 1) (n\<lparr>n_ReplicationDelayMs := 0\<rparr>))
                        (s\<lparr>cs_failedReplications := cs_failedReplications s + 1\<rparr>);
                 s2 = s1\<lparr>cs_replicationLogs := cs_replicationLogs s1 @ [\<lparr>rl_Timestamp = de_clock e (de_now e), rl_Target = n_Name n,
                        rl_Action = action, rl_Message = message, rl_DelayMs = 0, rl_Success = False\<rparr>]\<rparr>
             in (appendActivityLocked e ''REPLICATION'' ''ERROR'' message s2,
                 results @ [\<lparr>rr_Target = n_Name n, rr_Status = ''failed'', rr_DelayMs = 0, rr_Message = message\<rparr>], maxDelay)
           else
             let message = action @ '' replicated to '' @ n_Name n @ '' ('' @ payload @ '')'';
                 s1 = upd_node i (\<lambda>n. with_health (n_Status n) (n_ConsecutiveFailures n)
                        (n\<lparr>n_ReplicatedCommands := n_ReplicatedCommands n + 1, n_ReplicationDelayMs := delay,
                           n_LastReplicationAt := Some (de_now e)\<rparr>)) s;
                 s2 = s1\<lparr>cs_replicatedCommands := cs_replicatedCommands s1 + 1,
                        cs_replicationLogs := cs_replicationLogs s1 @ [\<lparr>rl_Timestamp = de_clock e (de_now e), rl_Target = n_Name n,
                          rl_Action = action, rl_Message = message, rl_DelayMs = delay, rl_Success = True\<rparr>]\<rparr>
             in (appendActivityLocked e ''REPLICATION'' ''SUCCESS'' message s2,
                 results @ [\<lparr>rr_Target = n_Name n, rr_Status = ''success'', rr_DelayMs = delay, rr_Message = message\<rparr>],
                 max maxDelay delay))"

definition replicateCommandLocked ::
  "dash_env \<Rightarrow> string \<Rightarrow> string \<Rightarrow> 's ClusterService \<Rightarrow> ReplicationResult list \<times> 's ClusterService" where
  "replicateCommandLocked e action payload s =
     (let (s1, results, maxDelay) = fold (replicate_node e action payload) [0..<length (cs_nodes s)] (s, [], 0)
      in (results, recordHistoryLocked e (averageHeartbeatLatencyLocked s1) maxDelay s1))"

definition cluster_Set :: "'s KVStore \<Rightarrow> dash_env \<Rightarrow> string \<Rightarrow> string \<Rightarrow> 's ClusterService \<Rightarrow> (string + ReplicationResult list) \<times> 's ClusterService" where
  "cluster_Set ops e key val s =
     (case kv_Set ops key val (cs_store s) of
        (Some err, st) \<Rightarrow> (Inl err, s\<lparr>cs_store := st\<rparr>)
      | (None, st) \<Rightarrow>
          let s1 = refreshKeyCountLocked ops (s\<lparr>cs_store := st\<rparr>);
              s2 = appendActivityLocked e ''SET'' ''SUCCESS'' (''SET '' @ key @ ''='' @ val) s1;
              (results, s3) = replicateCommandLocked e ''SET'' (key @ ''='' @ val) s2
          in (Inr results, s3))"

definition cluster_Get :: "'s KVStore \<Rightarrow> string \<Rightarrow> 's ClusterService \<Rightarrow> string \<times> string option" where
  "cluster_Get ops key s = kv_Get ops key (cs_store s)"

definition cluster_Delete :: "'s KVStore \<Rightarrow> dash_env \<Rightarrow> string \<Rightarrow> 's ClusterService \<Rightarrow> string option \<times> 's ClusterService" where
  "cluster_Delete ops e key s =
     (case kv_Delete ops key (cs_store s) of
        (Some err, st) \<Rightarrow> (Some err, s\<lparr>cs_store := st\<rparr>)
      | (None, st) \<Rightarrow>
          let s1 = refreshKeyCountLocked ops (s\<lparr>cs_store := st\<rparr>);
              s2 = appendActivityLocked e ''DELETE'' ''SUCCESS'' (''DELETE '' @ key) s1
          in (None, snd (replicateCommandLocked e ''DELETE'' key s2)))"

section \<open>Faults\<close>

definition on_node :: "string \<Rightarrow> (nat \<Rightarrow> 's ClusterService \<Rightarrow> 's ClusterService) \<Rightarrow> 's ClusterService \<Rightarrow> string option \<times> 's ClusterService" where
  "on_node name f s =
     (case findNodeLocked name s of
        None \<Rightarrow> (Some (''node '' @ name @ '' not found''), s)
      | Some i \<Rightarrow> (None, f i s))"

definition SimulateNodeFailure :: "dash_env \<Rightarrow> string \<Rightarrow> 's ClusterService \<Rightarrow> string option \<times> 's ClusterService" where
  "SimulateNodeFailure e name = on_node name (\<lambda>i s.
     let s1 = upd_node i (\<lambda>n. with_health ''Offline'' (n_ConsecutiveFailures n + 1) (n\<lparr>n_SimulatedFailure := True, n_Status := ''Offline'',
                n_ConsecutiveFailures := n_ConsecutiveFailures n + 1, n_UptimeSeconds := 0\<rparr>)) s
     in appendActivityLocked e ''FAULT'' ''ERROR'' (''Simulated failure injected on '' @ n_Name (cs_nodes s ! i)) s1)"

definition RecoverNode :: "dash_env \<Rightarrow> string \<Rightarrow> 's ClusterService \<Rightarrow> string option \<times> 's ClusterService" where
  "RecoverNode e name = on_node name (\<lambda>i s.
     let s1 = upd_node i (\<lambda>n. with_health ''Online'' 0 (n\<lparr>n_SimulatedFailure := False, n_Status := ''Online'', n_UptimeStartedAt := de_now e,
                n_UptimeSeconds := 0, n_ConsecutiveFailures := 0, n_LastHeartbeat := de_now e, n_LastSeen := ''just now''\<rparr>)) s
     in appendActivityLocked e ''RECOVERY'' ''SUCCESS'' (''Node '' @ n_Name (cs_nodes s ! i) @ '' recovered'') s1)"

definition InjectLatency :: "dash_env \<Rightarrow> string \<Rightarrow> int \<Rightarrow> 's ClusterService \<Rightarrow> string option \<times> 's ClusterService" where
  "InjectLatency e name milliseconds = on_node name (\<lambda>i s.
     let s1 = upd_node i (\<lambda>n. with_health (n_Status n) (n_ConsecutiveFailures n)
                (n\<lparr>n_InjectedLatencyMs := milliseconds, n_LatencyMs := i64 (milliseconds + 5)\<rparr>)) s
     in appendActivityLocked e ''LATENCY'' ''WARNING''
          (''Injected '' @ FormatInt milliseconds @ ''ms latency on '' @ n_Name (cs_nodes s ! i)) s1)"

definition ClearLatency :: "dash_env \<Rightarrow> string \<Rightarrow> 's ClusterService \<Rightarrow> string option \<times> 's ClusterService" where
  "ClearLatency e name = on_node name (\<lambda>i s.
     let s1 = upd_node i (\<lambda>n. with_health (n_Status n) (n_ConsecutiveFailures n) (n\<lparr>n_InjectedLatencyMs := 0, n_LatencyMs := 0\<rparr>)) s
     in appendActivityLocked e ''LATENCY'' ''INFO'' (''Cleared injected latency on '' @ n_Name (cs_nodes s ! i)) s1)"

definition ClearLogs :: "dash_env \<Rightarrow> 's ClusterService \<Rightarrow> 's ClusterService" where
  "ClearLogs e s = appendActivityLocked e ''SYSTEM'' ''INFO'' ''Logs cleared from dashboard''
     (s\<lparr>cs_activityLogs := [], cs_replicationLogs := []\<rparr>)"

section \<open>What the dashboard shows\<close>

record DashboardOverview =
  ov_TotalNodes :: int
  ov_NodeOnline :: int
  ov_NodeOffline :: int
  ov_TotalKeys :: int
  ov_ReplicatedCommands :: int
  ov_AverageLatencyMs :: int
  ov_LastUpdated :: string
  ov_StorageMode :: string

definition GetOverview :: "'s KVStore \<Rightarrow> dash_env \<Rightarrow> 's ClusterService \<Rightarrow> DashboardOverview" where
  "GetOverview ops e s =
     (let (online, offline) = onlineOfflineLocked s in
      \<lparr>ov_TotalNodes = int (length (cs_nodes s)), ov_NodeOnline = online, ov_NodeOffline = offline,
       ov_TotalKeys = kv_Count ops (cs_store s), ov_ReplicatedCommands = cs_replicatedCommands s,
       ov_AverageLatencyMs = averageHeartbeatLatencyLocked s, ov_LastUpdated = de_clock e (de_now e),
       ov_StorageMode = ''In-memory demo mode''\<rparr>)"

definition replicationSuccessRateLocked :: "dash_env \<Rightarrow> 's ClusterService \<Rightarrow> 64 word + int" where
  "replicationSuccessRateLocked e s =
     (if cs_replicationAttempts s = 0 then Inr 100
      else Inl (de_rate e (cs_replicationAttempts s - cs_failedReplications s) (cs_replicationAttempts s)))"

text \<open>The zero time comes before every other one.\<close>

definition parseTimeFallback :: "dash_env \<Rightarrow> string \<Rightarrow> int option" where
  "parseTimeFallback e val = de_parse e val"

definition time_after :: "int \<Rightarrow> int option \<Rightarrow> bool" where
  "time_after t u = (case u of None \<Rightarrow> True | Some t' \<Rightarrow> t > t')"

fun stats_loop :: "dash_env \<Rightarrow> Node list \<Rightarrow> int \<Rightarrow> string \<Rightarrow> int \<times> string" where
  "stats_loop e [] maxDelay lastReplication = (maxDelay, lastReplication)"
| "stats_loop e (n # ns) maxDelay lastReplication =
     stats_loop e ns (if n_ReplicationDelayMs n > maxDelay then n_ReplicationDelayMs n else maxDelay)
       (case n_LastReplicationAt n of
          None \<Rightarrow> lastReplication
        | Some t \<Rightarrow>
            if lastReplication = ''No replication yet'' \<or> time_after t (parseTimeFallback e lastReplication)
            then de_stamp e t else lastReplication)"

record ClusterStats =
  st_TotalNodes :: int
  st_OnlineNodes :: int
  st_OfflineNodes :: int
  st_TotalKeys :: int
  st_ReplicatedCommands :: int
  st_FailedReplications :: int
  st_ReplicationAttempts :: int
  st_ReplicationSuccessRate :: "64 word + int"
  st_TotalHeartbeatChecks :: int
  st_AverageLatencyMs :: int
  st_MaxReplicationDelay :: int
  st_LastReplicationAt :: string
  st_StorageMode :: string

definition GetClusterStats :: "'s KVStore \<Rightarrow> dash_env \<Rightarrow> 's ClusterService \<Rightarrow> ClusterStats" where
  "GetClusterStats ops e s =
     (let (online, offline) = onlineOfflineLocked s;
          (maxDelay, lastReplication) = stats_loop e (cs_nodes s) 0 ''No replication yet'' in
      \<lparr>st_TotalNodes = int (length (cs_nodes s)), st_OnlineNodes = online, st_OfflineNodes = offline,
       st_TotalKeys = kv_Count ops (cs_store s), st_ReplicatedCommands = cs_replicatedCommands s,
       st_FailedReplications = cs_failedReplications s, st_ReplicationAttempts = cs_replicationAttempts s,
       st_ReplicationSuccessRate = replicationSuccessRateLocked e s, st_TotalHeartbeatChecks = cs_heartbeatChecks s,
       st_AverageLatencyMs = averageHeartbeatLatencyLocked s, st_MaxReplicationDelay = maxDelay,
       st_LastReplicationAt = lastReplication, st_StorageMode = ''In-memory demo mode''\<rparr>)"

definition GetMetricsHistory :: "'s ClusterService \<Rightarrow> MetricPoint list \<times> MetricPoint list" where
  "GetMetricsHistory s = (cs_latencyTrend s, cs_replicationDelayTrend s)"

definition GetNodes :: "'s ClusterService \<Rightarrow> Node list" where
  "GetNodes s = cs_nodes s"

definition formatDuration :: "int \<Rightarrow> string" where
  "formatDuration seconds =
     (let h = go_div seconds 3600;
          r = seconds - 3600 * h;
          m = go_div r 60;
          sec = seconds - 60 * go_div seconds 60
      in if h > 0 then FormatInt h @ ''h '' @ FormatInt m @ ''m '' @ FormatInt sec @ ''s''
         else if m > 0 then FormatInt m @ ''m '' @ FormatInt sec @ ''s''
         else FormatInt sec @ ''s'')"

record HeartbeatRow =
  hr_Node :: string
  hr_LastHeartbeat :: string
  hr_LastSeen :: string
  hr_Status :: string
  hr_LatencyMs :: int
  hr_Uptime :: string
  hr_ConsecutiveFailures :: int
  hr_HealthScore :: int
  hr_HealthStatus :: string

definition GetHeartbeatRows :: "dash_env \<Rightarrow> 's ClusterService \<Rightarrow> HeartbeatRow list" where
  "GetHeartbeatRows e s =
     map (\<lambda>n. \<lparr>hr_Node = n_Name n, hr_LastHeartbeat = de_clockDay e (n_LastHeartbeat n), hr_LastSeen = n_LastSeen n,
        hr_Status = n_Status n, hr_LatencyMs = n_LatencyMs n, hr_Uptime = formatDuration (n_UptimeSeconds n),
        hr_ConsecutiveFailures = n_ConsecutiveFailures n, hr_HealthScore = n_HealthScore n,
        hr_HealthStatus = n_HealthStatus n\<rparr>) (cs_nodes s)"

text \<open>The loop runs over the indices downwards until enough items are collected.\<close>

fun rev_loop :: "'a list \<Rightarrow> nat \<Rightarrow> int \<Rightarrow> 'a list \<Rightarrow> 'a list" where
  "rev_loop items 0 limit acc = acc"
| "rev_loop items (Suc i) limit acc = (if int (length acc) < limit then rev_loop items i limit (acc @ [items ! i]) else acc)"

definition reverseLimit :: "'a list \<Rightarrow> int \<Rightarrow> 'a list" where
  "reverseLimit items limit =
     (let l = (if limit \<le> 0 \<or> limit > int (length items) then int (length items) else limit)
      in rev_loop items (length items) l [])"

definition GetActivityLogs :: "int \<Rightarrow> 's ClusterService \<Rightarrow> ActivityLog list" where
  "GetActivityLogs limit s = reverseLimit (cs_activityLogs s) limit"

definition GetReplicationLogs :: "int \<Rightarrow> 's ClusterService \<Rightarrow> ReplicationLog list" where
  "GetReplicationLogs limit s = reverseLimit (cs_replicationLogs s) limit"

end
