(* ===== verification/DashboardProps.thy ===== *)
theory DashboardProps
  imports Dashboard
begin

text \<open>
  The contract between the cluster service and its store as a locale, with the memory store as its
  interpretation; the invariant of every reachable cluster state; what replication and the health score do.
\<close>

section \<open>The store's contract\<close>

locale kv_store =
  fixes ops :: "'s KVStore" and good :: "'s \<Rightarrow> bool" and view :: "'s \<Rightarrow> string \<rightharpoonup> string"
  assumes set_ok: "good s \<Longrightarrow> \<exists>s'. kv_Set ops k v s = (None, s') \<and> good s' \<and> view s' = (view s)(k \<mapsto> v)"
    and get_ok: "good s \<Longrightarrow> kv_Get ops k s = (case view s k of None \<Rightarrow> ([], Some KeyNotFound) | Some v \<Rightarrow> (v, None))"
    and delete_ok: "good s \<Longrightarrow> \<exists>s'. kv_Delete ops k s = (if view s k = None then Some KeyNotFound else None, s') \<and> good s' \<and>
      view s' = (view s)(k := None)"
    and count_ok: "good s \<Longrightarrow> finite (dom (view s)) \<and> kv_Count ops s = int (card (dom (view s)))"
begin

lemma set_get: "good s \<Longrightarrow> kv_Get ops k' (snd (kv_Set ops k v s)) = (if k' = k then (v, None) else kv_Get ops k' s)"
  using set_ok [of s k v] get_ok [of _ k'] by auto

lemma delete_get:
  "good s \<Longrightarrow> kv_Get ops k' (snd (kv_Delete ops k s)) = (if k' = k then ([], Some KeyNotFound) else kv_Get ops k' s)"
  using delete_ok [of s k] get_ok [of _ k'] by auto

lemma delete_known: "good s \<Longrightarrow> fst (kv_Delete ops k s) = snd (kv_Get ops k s)"
  using delete_ok [of s k] get_ok [of s k] by (auto split: option.splits)

lemma delete_count:
  assumes "good s"
  shows "kv_Count ops (snd (kv_Delete ops k s)) = kv_Count ops s - (if snd (kv_Get ops k s) = None then 1 else 0)"
proof -
  from delete_ok [OF assms, of k] obtain s' where s': "snd (kv_Delete ops k s) = s'" "good s'" "view s' = (view s)(k := None)"
    by auto
  from count_ok [OF assms] have f: "finite (dom (view s))" ..
  have g: "snd (kv_Get ops k s) = None \<longleftrightarrow> k \<in> dom (view s)" by (auto simp: get_ok [OF assms] split: option.split)
  have "int (card (dom (view s) - {k})) = int (card (dom (view s))) - (if k \<in> dom (view s) then 1 else 0)"
    using f card_gt_0_iff [of "dom (view s)"] by (auto simp: card_Diff_singleton of_nat_diff Suc_leI)
  then show ?thesis unfolding g s'(1) using count_ok [OF assms] count_ok [OF s'(2)] by (simp add: s'(3))
qed

end

definition mem_good :: "MemoryStore \<Rightarrow> bool" where
  "mem_good m \<longleftrightarrow> finite (dom m)"

interpretation mem: kv_store memory_ops mem_good id
  by unfold_locales (auto simp: memory_ops_def mem_good_def mem_Set_def mem_Get_def mem_Delete_def mem_Count_def fun_upd_idem)

section \<open>The invariant of the cluster\<close>

definition label :: "int \<Rightarrow> string" where
  "label score = (if score \<ge> 80 then ''Healthy'' else if score \<ge> 55 then ''Warning'' else ''Critical'')"

definition node_ok :: "int \<Rightarrow> Node \<Rightarrow> bool" where
  "node_ok keys n \<longleftrightarrow> n_Status n = (if n_SimulatedFailure n then ''Offline'' else ''Online'') \<and>
     0 \<le> n_ConsecutiveFailures n \<and> (n_SimulatedFailure n \<longrightarrow> 0 < n_ConsecutiveFailures n) \<and>
     0 \<le> n_HealthScore n \<and> n_HealthStatus n = label (n_HealthScore n) \<and> n_KeyCount n = keys"

definition node_ids :: "(string \<times> string) list" where
  "node_ids = [(''Master'', ''master''), (''Replica1'', ''replica''), (''Replica2'', ''replica'')]"

abbreviation ids :: "Node list \<Rightarrow> (string \<times> string) list" where
  "ids ns \<equiv> map (\<lambda>n. (n_Name n, n_Role n)) ns"

definition cluster_inv :: "'s KVStore \<Rightarrow> 's ClusterService \<Rightarrow> bool" where
  "cluster_inv ops s \<longleftrightarrow> ids (cs_nodes s) = node_ids \<and> (\<forall>n\<in>set (cs_nodes s). node_ok (kv_Count ops (cs_store s)) n) \<and>
     length (cs_activityLogs s) \<le> 80 \<and>
     length (cs_latencyTrend s) \<le> 20 \<and> length (cs_replicationDelayTrend s) = length (cs_latencyTrend s) \<and>
     cs_replicationAttempts s = cs_replicatedCommands s + cs_failedReplications s \<and>
     0 \<le> cs_replicatedCommands s \<and> 0 \<le> cs_failedReplications s \<and>
     0 \<le> cs_heartbeatSamples s \<and> cs_heartbeatSamples s \<le> cs_heartbeatChecks s"

lemma calculateHealth_ok: "calculateHealth st l f d = (sc, lb) \<Longrightarrow> 0 \<le> sc \<and> lb = label sc"
  by (auto simp: calculateHealth_def label_def Let_def split: if_splits)

lemma with_health_fields [simp]:
  "n_Name (with_health st f n) = n_Name n" "n_Role (with_health st f n) = n_Role n"
  "n_Status (with_health st f n) = n_Status n" "n_KeyCount (with_health st f n) = n_KeyCount n"
  "n_SimulatedFailure (with_health st f n) = n_SimulatedFailure n"
  "n_ConsecutiveFailures (with_health st f n) = n_ConsecutiveFailures n"
  "0 \<le> n_HealthScore (with_health st f n)" "n_HealthStatus (with_health st f n) = label (n_HealthScore (with_health st f n))"
  using calculateHealth_ok [of st "n_LatencyMs n" f "n_ReplicationDelayMs n"]
  by (simp_all add: with_health_def split: prod.split)

lemma length_keep_last: "length (keep_last n xs) = min n (length xs)"
  by (simp add: keep_last_def)

lemma log_frame [simp]:
  "cs_nodes (appendActivityLocked e k v m s) = cs_nodes s" "cs_store (appendActivityLocked e k v m s) = cs_store s"
  "cs_nodes (recordHistoryLocked e a d s) = cs_nodes s" "cs_store (recordHistoryLocked e a d s) = cs_store s"
  by (simp_all add: appendActivityLocked_def recordHistoryLocked_def Let_def)

lemma append_inv: "cluster_inv ops s \<Longrightarrow> cluster_inv ops (appendActivityLocked e k v m s)"
  by (simp add: cluster_inv_def appendActivityLocked_def length_keep_last)

lemma history_inv: "cluster_inv ops s \<Longrightarrow> cluster_inv ops (recordHistoryLocked e a d s)"
  by (simp add: cluster_inv_def recordHistoryLocked_def Let_def length_keep_last)

lemma inv_length: "cluster_inv ops s \<Longrightarrow> length (cs_nodes s) = 3"
  using arg_cong [of "ids (cs_nodes s)" node_ids length] by (auto simp: cluster_inv_def node_ids_def)

text \<open>A step that replaces one node and moves the counters consistently keeps the invariant.\<close>

lemma node_step_inv:
  assumes s: "cluster_inv ops s" and i: "i < 3"
    and s': "cs_nodes s' = (cs_nodes s)[i := n']" "cs_store s' = cs_store s"
    and n': "node_ok (kv_Count ops (cs_store s)) (cs_nodes s ! i) \<Longrightarrow> node_ok (kv_Count ops (cs_store s)) n'"
      "n_Name n' = n_Name (cs_nodes s ! i)" "n_Role n' = n_Role (cs_nodes s ! i)"
    and rest: "cs_activityLogs s' = cs_activityLogs s" "cs_latencyTrend s' = cs_latencyTrend s"
      "cs_replicationDelayTrend s' = cs_replicationDelayTrend s"
      "cs_replicationAttempts s' - cs_replicatedCommands s' - cs_failedReplications s' =
       cs_replicationAttempts s - cs_replicatedCommands s - cs_failedReplications s"
      "cs_replicatedCommands s \<le> cs_replicatedCommands s'" "cs_failedReplications s \<le> cs_failedReplications s'"
      "cs_heartbeatSamples s \<le> cs_heartbeatSamples s'"
      "cs_heartbeatChecks s - cs_heartbeatSamples s \<le> cs_heartbeatChecks s' - cs_heartbeatSamples s'"
  shows "cluster_inv ops s'"
proof -
  have l: "i < length (cs_nodes s)" using inv_length [OF s] i by simp
  then have "node_ok (kv_Count ops (cs_store s)) n'" using s n'(1) by (simp add: cluster_inv_def)
  then have "\<forall>n\<in>set ((cs_nodes s)[i := n']). node_ok (kv_Count ops (cs_store s)) n"
    using s set_update_subset_insert [of "cs_nodes s" i] by (auto simp: cluster_inv_def)
  moreover have "ids ((cs_nodes s)[i := n']) = ids (cs_nodes s)"
    using l n'(2,3) list_update_id [of "ids (cs_nodes s)" i] by (simp add: map_update)
  ultimately show ?thesis using s rest by (simp add: cluster_inv_def s')
qed

lemma fold_upt_inv:
  assumes "P st" and "\<And>i st. i < n \<Longrightarrow> P st \<Longrightarrow> P (f i st)"
  shows "P (fold f [0..<n] st)"
proof -
  have "P (fold f [0..<m] st)" if "m \<le> n" for m
    using that by (induction m) (simp_all add: assms)
  then show ?thesis by simp
qed

section \<open>Every operation keeps the invariant\<close>

lemma tick_node_inv:
  assumes s: "cluster_inv ops (fst st)" and i: "i < 3"
  shows "cluster_inv ops (fst (tick_node e i st)) \<and> cs_store (fst (tick_node e i st)) = cs_store (fst st)"
proof -
  obtain s0 a d where st: "st = (s0, a, d)" by (cases st)
  have inv: "cluster_inv ops s0" using s by (simp add: st)
  note step = node_step_inv [OF inv i]
  show ?thesis
  proof (cases "n_SimulatedFailure (cs_nodes s0 ! i)")
    case True
    then show ?thesis
      by (simp add: st tick_node_def Let_def upd_node_def) (rule append_inv, rule step, simp, auto simp: node_ok_def)
  next
    case False
    then show ?thesis
      by (simp add: st tick_node_def Let_def upd_node_def) (intro conjI impI; rule step, simp, auto simp: node_ok_def)
  qed
qed

lemma replicate_node_inv:
  assumes s: "cluster_inv ops (fst st)" and i: "i < 3"
  shows "cluster_inv ops (fst (replicate_node e a p i st)) \<and> cs_store (fst (replicate_node e a p i st)) = cs_store (fst st)"
proof -
  obtain s0 rs d where st: "st = (s0, rs, d)" by (cases st)
  have inv: "cluster_inv ops s0" using s by (simp add: st)
  note step = node_step_inv [OF inv i]
  show ?thesis
  proof (cases "n_SimulatedFailure (cs_nodes s0 ! i)")
    case True
    then show ?thesis using inv
      by (simp add: st replicate_node_def Let_def upd_node_def) (intro conjI impI append_inv; rule step, simp, auto simp: node_ok_def)
  next
    case False
    then show ?thesis using inv
      by (simp add: st replicate_node_def Let_def upd_node_def) (intro conjI impI append_inv; rule step, simp, auto simp: node_ok_def)
  qed
qed

lemma tickHeartbeat_inv:
  assumes "cluster_inv ops s"
  shows "cluster_inv ops (tickHeartbeat e s) \<and> cs_store (tickHeartbeat e s) = cs_store s"
proof -
  let ?P = "\<lambda>st. cluster_inv ops (fst st) \<and> cs_store (fst st) = cs_store s"
  have "?P (fold (tick_node e) [0..<3] (s, 0, 0))"
    by (rule fold_upt_inv) (simp add: assms, metis tick_node_inv)
  then show ?thesis
    by (simp add: tickHeartbeat_def inv_length [OF assms] split_beta Let_def history_inv del: fold_simps)
qed

lemma replicate_inv:
  assumes "cluster_inv ops s"
  shows "cluster_inv ops (snd (replicateCommandLocked e a p s)) \<and> cs_store (snd (replicateCommandLocked e a p s)) = cs_store s"
proof -
  let ?P = "\<lambda>st. cluster_inv ops (fst st) \<and> cs_store (fst st) = cs_store s"
  have "?P (fold (replicate_node e a p) [0..<3] (s, [], 0))"
    by (rule fold_upt_inv) (simp add: assms, metis replicate_node_inv)
  then show ?thesis
    by (simp add: replicateCommandLocked_def inv_length [OF assms] split_beta Let_def history_inv)
qed

lemma refresh_inv:
  assumes "cluster_inv ops s"
  shows "cluster_inv ops (refreshKeyCountLocked ops (s\<lparr>cs_store := st\<rparr>))"
  using assms by (auto simp: cluster_inv_def refreshKeyCountLocked_def node_ok_def comp_def)

lemma on_node_inv:
  assumes s: "cluster_inv ops s"
    and f: "\<And>i. i < 3 \<Longrightarrow> cluster_inv ops (f i s) \<and> cs_store (f i s) = cs_store s"
  shows "cluster_inv ops (snd (on_node name f s)) \<and> cs_store (snd (on_node name f s)) = cs_store s"
proof -
  have found: "find_from name k ns = Some i \<Longrightarrow> i < k + length ns" for k i ns
    by (induction ns arbitrary: k) (auto split: if_splits, fastforce)
  show ?thesis using s f found [of 0 "cs_nodes s"] inv_length [OF s]
    by (auto simp: on_node_def findNodeLocked_def split: option.split)
qed

lemma node_fault_inv:
  assumes s: "cluster_inv ops s"
    and f: "\<And>keys n. node_ok keys n \<Longrightarrow> node_ok keys (f n)" "\<And>n. n_Name (f n) = n_Name n" "\<And>n. n_Role (f n) = n_Role n"
  shows "cluster_inv ops (snd (on_node name (\<lambda>i s. appendActivityLocked e a b (m i s) (upd_node i f s)) s)) \<and>
    cs_store (snd (on_node name (\<lambda>i s. appendActivityLocked e a b (m i s) (upd_node i f s)) s)) = cs_store s"
proof (rule on_node_inv [OF s])
  fix i :: nat assume i: "i < 3"
  show "cluster_inv ops (appendActivityLocked e a b (m i s) (upd_node i f s)) \<and>
    cs_store (appendActivityLocked e a b (m i s) (upd_node i f s)) = cs_store s"
    by (simp add: upd_node_def, rule append_inv, rule node_step_inv [OF s i], simp, auto simp: f)
qed

lemma fault_inv:
  assumes "cluster_inv ops s"
  shows "cluster_inv ops (snd (SimulateNodeFailure e name s)) \<and> cs_store (snd (SimulateNodeFailure e name s)) = cs_store s"
    and "cluster_inv ops (snd (RecoverNode e name s)) \<and> cs_store (snd (RecoverNode e name s)) = cs_store s"
    and "cluster_inv ops (snd (InjectLatency e name ms s)) \<and> cs_store (snd (InjectLatency e name ms s)) = cs_store s"
    and "cluster_inv ops (snd (ClearLatency e name s)) \<and> cs_store (snd (ClearLatency e name s)) = cs_store s"
  unfolding SimulateNodeFailure_def RecoverNode_def InjectLatency_def ClearLatency_def Let_def
  by (rule node_fault_inv [OF assms]; simp add: node_ok_def)+

lemma clear_inv: "cluster_inv ops s \<Longrightarrow> cluster_inv ops (ClearLogs e s)"
  unfolding ClearLogs_def by (rule append_inv) (simp add: cluster_inv_def)

context kv_store
begin

lemma set_inv:
  assumes "cluster_inv ops s" and "good (cs_store s)"
  shows "cluster_inv ops (snd (cluster_Set ops e k v s)) \<and> good (cs_store (snd (cluster_Set ops e k v s)))"
proof -
  from set_ok [OF assms(2), of k v] obtain st where st: "kv_Set ops k v (cs_store s) = (None, st)" "good st" by blast
  have "cluster_inv ops (appendActivityLocked e ''SET'' ''SUCCESS'' m (refreshKeyCountLocked ops (s\<lparr>cs_store := st\<rparr>)))" for m
    by (intro append_inv refresh_inv assms)
  from replicate_inv [OF this] show ?thesis
    using st by (simp add: cluster_Set_def Let_def split_beta refreshKeyCountLocked_def)
qed

lemma delete_inv:
  assumes "cluster_inv ops s" and "good (cs_store s)"
  shows "cluster_inv ops (snd (cluster_Delete ops e k s)) \<and> good (cs_store (snd (cluster_Delete ops e k s)))"
proof (cases "view (cs_store s) k")
  case None
  with delete_ok [OF assms(2), of k] obtain st where st: "kv_Delete ops k (cs_store s) = (Some KeyNotFound, st)" "good st"
    "view st = view (cs_store s)" by (auto simp: fun_upd_idem)
  have "kv_Count ops st = kv_Count ops (cs_store s)"
    using count_ok [OF assms(2)] count_ok [OF st(2)] st(3) by simp
  then show ?thesis using assms st(1,2) by (simp add: cluster_Delete_def cluster_inv_def)
next
  case (Some v)
  with delete_ok [OF assms(2), of k] obtain st where st: "kv_Delete ops k (cs_store s) = (None, st)" "good st" by auto
  have "cluster_inv ops (appendActivityLocked e ''DELETE'' ''SUCCESS'' m (refreshKeyCountLocked ops (s\<lparr>cs_store := st\<rparr>)))" for m
    by (intro append_inv refresh_inv assms)
  from replicate_inv [OF this] show ?thesis
    using st by (simp add: cluster_Delete_def Let_def split_beta refreshKeyCountLocked_def)
qed

end

lemma cluster_start_inv: "cluster_inv ops (NewClusterService ops e st t)"
  unfolding NewClusterService_def Let_def
  by (rule history_inv, rule append_inv)
    (simp add: cluster_inv_def refreshKeyCountLocked_def node_ids_def node_ok_def start_node_def label_def)

section \<open>Reachable states of the cluster\<close>

inductive dash_reach :: "MemoryStore ClusterService \<Rightarrow> bool" where
  dr_start: "finite (dom st) \<Longrightarrow> dash_reach (NewClusterService memory_ops e st timeout)"
| dr_tick: "dash_reach s \<Longrightarrow> dash_reach (tickHeartbeat e s)"
| dr_set: "dash_reach s \<Longrightarrow> dash_reach (snd (cluster_Set memory_ops e k v s))"
| dr_delete: "dash_reach s \<Longrightarrow> dash_reach (snd (cluster_Delete memory_ops e k s))"
| dr_fail: "dash_reach s \<Longrightarrow> dash_reach (snd (SimulateNodeFailure e name s))"
| dr_recover: "dash_reach s \<Longrightarrow> dash_reach (snd (RecoverNode e name s))"
| dr_latency: "dash_reach s \<Longrightarrow> dash_reach (snd (InjectLatency e name ms s))"
| dr_clear_latency: "dash_reach s \<Longrightarrow> dash_reach (snd (ClearLatency e name s))"
| dr_clear_logs: "dash_reach s \<Longrightarrow> dash_reach (ClearLogs e s)"

lemma dash_inv: "dash_reach s \<Longrightarrow> cluster_inv memory_ops s \<and> mem_good (cs_store s)"
proof (induction rule: dash_reach.induct)
  case (dr_start st e timeout)
  then show ?case
    using cluster_start_inv by (simp add: NewClusterService_def Let_def refreshKeyCountLocked_def mem_good_def)
qed (use mem.set_inv mem.delete_inv tickHeartbeat_inv fault_inv clear_inv in
  \<open>fastforce simp: ClearLogs_def\<close>)+


section \<open>A write is replicated and can be read back\<close>

lemma three_nodes:
  assumes "cluster_inv ops s"
  obtains m r1 r2 :: Node where "cs_nodes s = [m, r1, r2]" "n_Role m = ''master''" "n_Role r1 = ''replica''" "n_Role r2 = ''replica''"
    "n_Name r1 = ''Replica1''" "n_Name r2 = ''Replica2''"
proof -
  have "ids (cs_nodes s) = node_ids" using assms by (simp add: cluster_inv_def)
  then obtain m r1 r2 where "cs_nodes s = [m, r1, r2]" "(n_Name m, n_Role m) = (''Master'', ''master'')"
    "(n_Name r1, n_Role r1) = (''Replica1'', ''replica'')" "(n_Name r2, n_Role r2) = (''Replica2'', ''replica'')"
    unfolding node_ids_def map_eq_Cons_conv map_is_Nil_conv by blast
  then show thesis using that [of m r1 r2] by simp
qed

lemma log_counters [simp]:
  "cs_replicationAttempts (appendActivityLocked e k v m s) = cs_replicationAttempts s"
  "cs_failedReplications (appendActivityLocked e k v m s) = cs_failedReplications s"
  "cs_replicatedCommands (appendActivityLocked e k v m s) = cs_replicatedCommands s"
  "cs_replicationAttempts (recordHistoryLocked e a d s) = cs_replicationAttempts s"
  "cs_failedReplications (recordHistoryLocked e a d s) = cs_failedReplications s"
  "cs_replicatedCommands (recordHistoryLocked e a d s) = cs_replicatedCommands s"
  by (simp_all add: appendActivityLocked_def recordHistoryLocked_def Let_def)

definition replica_result :: "string \<Rightarrow> string \<Rightarrow> int \<Rightarrow> Node \<Rightarrow> ReplicationResult" where
  "replica_result action payload base n =
     (if n_SimulatedFailure n then \<lparr>rr_Target = n_Name n, rr_Status = ''failed'', rr_DelayMs = 0,
        rr_Message = action @ '' failed on '' @ n_Name n\<rparr>
      else \<lparr>rr_Target = n_Name n, rr_Status = ''success'', rr_DelayMs = i64 (base + max 0 (n_InjectedLatencyMs n)),
        rr_Message = action @ '' replicated to '' @ n_Name n @ '' ('' @ payload @ '')''\<rparr>)"

lemma replicate_node_replica:
  assumes "n_Role (cs_nodes s ! i) = ''replica''" and "i < length (cs_nodes s)"
  shows "\<exists>s' d'. replicate_node e a p i (s, rs, d) = (s', rs @ [replica_result a p (4 + 2 * int i) (cs_nodes s ! i)], d') \<and>
    (\<forall>j<length (cs_nodes s). j \<noteq> i \<longrightarrow> cs_nodes s' ! j = cs_nodes s ! j) \<and> length (cs_nodes s') = length (cs_nodes s) \<and>
    cs_replicationAttempts s' = cs_replicationAttempts s + 1 \<and>
    cs_failedReplications s' = cs_failedReplications s + (if n_SimulatedFailure (cs_nodes s ! i) then 1 else 0)"
  using assms by (simp add: replicate_node_def replica_result_def Let_def upd_node_def max_def mult.commute)

lemma replicate_results:
  assumes inv: "cluster_inv ops s" and n: "cs_nodes s = [m, r1, r2]"
  shows "fst (replicateCommandLocked e a p s) = [replica_result a p 6 r1, replica_result a p 8 r2]"
    and "cs_replicationAttempts (snd (replicateCommandLocked e a p s)) = cs_replicationAttempts s + 2"
    and "cs_failedReplications (snd (replicateCommandLocked e a p s)) = cs_failedReplications s +
      (if n_SimulatedFailure r1 then 1 else 0) + (if n_SimulatedFailure r2 then 1 else 0)"
proof -
  from three_nodes [OF inv] n have role: "n_Role m = ''master''" "n_Role r1 = ''replica''" "n_Role r2 = ''replica''" by auto
  have 0: "replicate_node e a p 0 (s, [], 0) = (s, [], 0)" by (simp add: replicate_node_def n role)
  from replicate_node_replica [of s 1 e a p "[]" 0] obtain s1 d1 where
    1: "replicate_node e a p 1 (s, [], 0) = (s1, [replica_result a p 6 r1], d1)" "cs_nodes s1 ! 2 = r2" "length (cs_nodes s1) = 3"
    "cs_replicationAttempts s1 = cs_replicationAttempts s + 1"
    "cs_failedReplications s1 = cs_failedReplications s + (if n_SimulatedFailure r1 then 1 else 0)"
    by (auto simp: n role)
  from replicate_node_replica [of s1 2 e a p "[replica_result a p 6 r1]" d1] obtain s2 d2 where
    2: "replicate_node e a p 2 (s1, [replica_result a p 6 r1], d1) = (s2, [replica_result a p 6 r1, replica_result a p 8 r2], d2)"
    "cs_replicationAttempts s2 = cs_replicationAttempts s1 + 1"
    "cs_failedReplications s2 = cs_failedReplications s1 + (if n_SimulatedFailure r2 then 1 else 0)"
    by (auto simp: 1 role)
  have "[0..<length (cs_nodes s)] = [0, 1, 2]" by (simp add: n upt_rec)
  then have f: "fold (replicate_node e a p) [0..<length (cs_nodes s)] (s, [], 0) =
      (s2, [replica_result a p 6 r1, replica_result a p 8 r2], d2)" using 0 1(1) 2(1) by simp
  show "fst (replicateCommandLocked e a p s) = [replica_result a p 6 r1, replica_result a p 8 r2]"
    "cs_replicationAttempts (snd (replicateCommandLocked e a p s)) = cs_replicationAttempts s + 2"
    "cs_failedReplications (snd (replicateCommandLocked e a p s)) = cs_failedReplications s +
      (if n_SimulatedFailure r1 then 1 else 0) + (if n_SimulatedFailure r2 then 1 else 0)"
    unfolding replicateCommandLocked_def f using 1 2 by simp_all
qed

text \<open>C30. In every reachable cluster a \<^verbatim>\<open>Set\<close> succeeds and answers one result per replica, in order: a failure without
  delay for a replica whose failure is simulated, and otherwise a success whose delay is the base delay of its
  position plus its injected latency; the attempts grow by two and the failures by the replicas that failed; and
  the master's store answers the new value afterwards, with every other key unchanged.
\<close>

theorem dashboard_set_replicates:
  assumes "dash_reach s"
  shows "\<exists>m r1 r2 s'. cs_nodes s = [m, r1, r2] \<and> n_Name r1 = ''Replica1'' \<and> n_Name r2 = ''Replica2'' \<and>
    cluster_Set memory_ops e k v s =
      (Inr [replica_result ''SET'' (k @ ''='' @ v) 6 r1, replica_result ''SET'' (k @ ''='' @ v) 8 r2], s') \<and>
    cs_replicationAttempts s' = cs_replicationAttempts s + 2 \<and>
    cs_failedReplications s' = cs_failedReplications s + (if n_SimulatedFailure r1 then 1 else 0) + (if n_SimulatedFailure r2 then 1 else 0) \<and>
    cluster_Get memory_ops k s' = (v, None) \<and>
    (\<forall>k'. k' = k \<or> cluster_Get memory_ops k' s' = cluster_Get memory_ops k' s)"
proof -
  have inv: "cluster_inv memory_ops s" and good: "mem_good (cs_store s)" using dash_inv [OF assms] by auto
  obtain m r1 r2 where n: "cs_nodes s = [m, r1, r2]" "n_Name r1 = ''Replica1''" "n_Name r2 = ''Replica2''"
    using three_nodes [OF inv] by metis
  obtain st where st: "kv_Set memory_ops k v (cs_store s) = (None, st)" using mem.set_ok [OF good] by blast
  let ?s = "appendActivityLocked e ''SET'' ''SUCCESS'' (''SET '' @ k @ ''='' @ v) (refreshKeyCountLocked memory_ops (s\<lparr>cs_store := st\<rparr>))"
  let ?c = "\<lambda>n. n\<lparr>n_KeyCount := kv_Count memory_ops st\<rparr>"
  have inv': "cluster_inv memory_ops ?s" by (intro append_inv refresh_inv inv)
  have n': "cs_nodes ?s = [?c m, ?c r1, ?c r2]" by (simp add: refreshKeyCountLocked_def n)
  have same: "replica_result a p b (?c n) = replica_result a p b n" for a p b n by (simp add: replica_result_def)
  have set: "cluster_Set memory_ops e k v s = (case replicateCommandLocked e ''SET'' (k @ ''='' @ v) ?s of (rs, s') \<Rightarrow> (Inr rs, s'))"
    using st by (simp add: cluster_Set_def Let_def)
  have store: "cs_store (snd (replicateCommandLocked e a p ?s)) = st" for a p
    using replicate_inv [OF inv'] by (simp add: refreshKeyCountLocked_def)
  show ?thesis
    using n replicate_results [OF inv' n', of e "''SET''" "k @ ''='' @ v"] store mem.set_get [OF good, of _ k v] st mem.get_ok
    by (auto simp: set split_beta same cluster_Get_def refreshKeyCountLocked_def)
qed

definition noon :: dash_env where
  "noon = \<lparr>de_now = 1000, de_clock = (\<lambda>t. ''12:00:00''), de_clockDay = (\<lambda>t. ''12:00:00 01/06''),
     de_stamp = (\<lambda>t. ''2024-06-01 12:00:00''), de_parse = (\<lambda>s. None), de_rate = (\<lambda>a b. 0)\<rparr>"

definition one_down :: "MemoryStore ClusterService" where
  "one_down = snd (SimulateNodeFailure noon ''replica2'' (NewClusterService memory_ops noon Map.empty 5))"

lemma one_down_reach: "dash_reach one_down"
  unfolding one_down_def by (intro dash_reach.intros) simp


lemma one_down_nodes: "map n_SimulatedFailure (cs_nodes one_down) = [False, False, True]" "cs_failedReplications one_down = 0"
  by (simp_all add: one_down_def SimulateNodeFailure_def on_node_def findNodeLocked_def NewClusterService_def Let_def
    refreshKeyCountLocked_def start_node_def upd_node_def EqualFold_def ascii_upper_def char_of_def bit_0 appendActivityLocked_def recordHistoryLocked_def with_health_def
    split: prod.split)

theorem dashboard_set_replicates_witness:
  "fst (cluster_Get memory_ops ''k'' (snd (cluster_Set memory_ops noon ''k'' ''v'' one_down))) = ''v'' \<and>
   cs_failedReplications (snd (cluster_Set memory_ops noon ''k'' ''v'' one_down)) = 1"
  using dashboard_set_replicates [OF one_down_reach, of noon "''k''" "''v''"] one_down_nodes by auto

section \<open>The health score\<close>

lemma health_exact:
  assumes "0 \<le> l" "l < 2 ^ 60" "0 \<le> f" "f < 2 ^ 55" "0 \<le> d" "d < 2 ^ 60"
  shows "fst (calculateHealth st l f d) =
    max 0 ((if EqualFold st ''Online'' then 100 else 45) - l div 5 - f * 10 - d div 10)"
proof -
  have b: "0 \<le> l div 5" "l div 5 < 2 ^ 60" "0 \<le> d div 10" "d div 10 < 2 ^ 60" using assms by auto
  have r: "in_i64 (f * 10)" "in_i64 (z - l div 5)" "in_i64 (z - l div 5 - f * 10)" "in_i64 (z - l div 5 - f * 10 - d div 10)"
    if "z = 100 \<or> z = 45" for z
    using assms(1-4) b that by (auto simp: in_i64_def)
  show ?thesis
    using assms r [of 100] r [of 45] by (auto simp: calculateHealth_def Let_def go_div_nonneg)
qed

text \<open>For latencies, failure counts and replication delays that are not negative and far from the bounds of the
  machine integers, the health score lies between 0 and 100; an Offline node scores at most 45 and is Critical; a
  node with no latency, failure and delay that is Online scores 100; and a larger latency, failure count or delay
  never raises the score.
\<close>

lemma health_score_bounds:
  assumes "0 \<le> l" "l \<le> l'" "l' < 2 ^ 60" "0 \<le> f" "f \<le> f'" "f' < 2 ^ 55" "0 \<le> d" "d \<le> d'" "d' < 2 ^ 60"
  shows "0 \<le> fst (calculateHealth st l f d)" and "fst (calculateHealth st l f d) \<le> 100"
    and "fst (calculateHealth st l' f' d') \<le> fst (calculateHealth st l f d)"
    and "calculateHealth ''Online'' 0 0 0 = (100, ''Healthy'')"
    and "\<exists>sc. calculateHealth ''Offline'' l f d = (sc, ''Critical'') \<and> sc \<le> 45"
proof -
  have on: "EqualFold ''Online'' ''Online''" "\<not> EqualFold ''Offline'' ''Online''" by (simp_all add: EqualFold_def ascii_upper_def)
  have e: "fst (calculateHealth st l f d) = max 0 ((if EqualFold st ''Online'' then 100 else 45) - l div 5 - f * 10 - d div 10)" for st
    by (rule health_exact) (use assms in auto)
  have e': "fst (calculateHealth st l' f' d') = max 0 ((if EqualFold st ''Online'' then 100 else 45) - l' div 5 - f' * 10 - d' div 10)"
    by (rule health_exact) (use assms in auto)
  have b: "0 \<le> l div 5" "0 \<le> d div 10" "l div 5 \<le> l' div 5" "d div 10 \<le> d' div 10" using assms by (auto intro: zdiv_mono1)
  show "0 \<le> fst (calculateHealth st l f d)" "fst (calculateHealth st l f d) \<le> 100" using b assms(4) by (auto simp: e)
  show "fst (calculateHealth st l' f' d') \<le> fst (calculateHealth st l f d)" unfolding e e' using b assms(5) by (intro max.mono) auto
  show "calculateHealth ''Online'' 0 0 0 = (100, ''Healthy'')"
    by (simp add: calculateHealth_def Let_def on go_div_def i64_def)
  have "fst (calculateHealth ''Offline'' l f d) \<le> 45" using b assms(4) by (simp add: e on)
  then show "\<exists>sc. calculateHealth ''Offline'' l f d = (sc, ''Critical'') \<and> sc \<le> 45"
    using calculateHealth_ok [of "''Offline''" l f d] by (cases "calculateHealth ''Offline'' l f d") (auto simp: label_def)
qed

theorem health_score_bounds_witness: "fst (calculateHealth ''Online'' 20 2 30) \<le> fst (calculateHealth ''Online'' 10 1 30)"
  by (rule health_score_bounds(3)) simp_all

end
