(* ===== verification/Monitor.thy ===== *)
theory Monitor
  imports Prelude "HOL-Library.Char_ord" "HOL-Library.List_Lexorder"
begin

text \<open>
  The heartbeat monitor (\<^verbatim>\<open>monitoring/heartbeat.go\<close>): the last reported status of every node, failures, the
  check that takes silent nodes offline, and the health score; what a check answers, for any enumeration order of
  the map, and the invariant of every reachable monitor.
\<close>

section \<open>State and operations\<close>

text \<open>Times are nanoseconds and the zero time is \<open>None\<close>; a difference of times saturates at the bounds of 64 bits.
  A duration's whole seconds pass through a floating-point number in the code, exact below \<open>2 ^ 23\<close> seconds.\<close>

record NodeStatus =
  ns_ID :: string
  ns_Status :: string
  ns_LastSeen :: "int option"
  ns_CommandsSynced :: int
  ns_LatencyMs :: int
  ns_UptimeSeconds :: int
  ns_ConsecutiveFailures :: int
  ns_ReplicationDelayMs :: int
  ns_HealthScore :: int
  ns_HealthStatus :: string
  ns_StartedAt :: "int option"
  ns_Online :: bool

definition zero_status :: NodeStatus where
  "zero_status = \<lparr>ns_ID = [], ns_Status = [], ns_LastSeen = None, ns_CommandsSynced = 0, ns_LatencyMs = 0,
     ns_UptimeSeconds = 0, ns_ConsecutiveFailures = 0, ns_ReplicationDelayMs = 0, ns_HealthScore = 0,
     ns_HealthStatus = [], ns_StartedAt = None, ns_Online = False\<rparr>"

type_synonym HeartbeatMonitor = "string \<rightharpoonup> NodeStatus"

definition NewHeartbeatMonitor :: HeartbeatMonitor where
  "NewHeartbeatMonitor = Map.empty"

text \<open>The map's zero value for an absent node.\<close>

definition status_of :: "HeartbeatMonitor \<Rightarrow> string \<Rightarrow> NodeStatus" where
  "status_of m i = (case m i of None \<Rightarrow> zero_status | Some s \<Rightarrow> s)"

definition time_sub :: "int \<Rightarrow> int option \<Rightarrow> int" where
  "time_sub now t = (case t of None \<Rightarrow> 2 ^ 63 - 1 | Some t' \<Rightarrow> max (- (2 ^ 63)) (min (2 ^ 63 - 1) (now - t')))"

definition monitorHealth :: "bool \<Rightarrow> int \<Rightarrow> int \<Rightarrow> int \<Rightarrow> int \<times> string" where
  "monitorHealth online latencyMs failures replicationDelayMs =
     (let score0 = (if \<not> online then 100 - 55 else 100);
          score1 = i64 (score0 - go_div latencyMs 5);
          score2 = i64 (score1 - i64 (failures * 8));
          score3 = i64 (score2 - go_div replicationDelayMs 10);
          score = (if score3 < 0 then 0 else score3)
      in if score \<ge> 80 then (score, ''Healthy'')
         else if score \<ge> 55 then (score, ''Warning'')
         else (score, ''Critical''))"

definition score_status :: "bool \<Rightarrow> NodeStatus \<Rightarrow> NodeStatus" where
  "score_status online s =
     (let (score, st) = monitorHealth online (ns_LatencyMs s) (ns_ConsecutiveFailures s) (ns_ReplicationDelayMs s)
      in s\<lparr>ns_HealthScore := score, ns_HealthStatus := st\<rparr>)"

definition UpdateHeartbeat :: "int \<Rightarrow> string \<Rightarrow> int \<Rightarrow> int \<Rightarrow> int \<Rightarrow> HeartbeatMonitor \<Rightarrow> HeartbeatMonitor" where
  "UpdateHeartbeat now i commandsSynced latencyMs replicationDelayMs m =
     (let s0 = status_of m i;
          s1 = (if ns_StartedAt s0 = None \<or> \<not> ns_Online s0 then s0\<lparr>ns_StartedAt := Some now\<rparr> else s0);
          s2 = s1\<lparr>ns_ID := i, ns_Status := ''Online'', ns_LastSeen := Some now, ns_CommandsSynced := commandsSynced,
                  ns_LatencyMs := latencyMs, ns_ReplicationDelayMs := replicationDelayMs, ns_ConsecutiveFailures := 0,
                  ns_Online := True, ns_UptimeSeconds := go_div (time_sub now (ns_StartedAt s1)) (10 ^ 9)\<rparr>
      in m(i \<mapsto> score_status True s2))"

definition MarkFailure :: "int \<Rightarrow> string \<Rightarrow> HeartbeatMonitor \<Rightarrow> HeartbeatMonitor" where
  "MarkFailure now i m =
     (let s0 = (status_of m i)\<lparr>ns_ID := i\<rparr>;
          s1 = (if ns_StartedAt s0 = None then s0\<lparr>ns_StartedAt := Some now\<rparr> else s0);
          s2 = s1\<lparr>ns_Status := ''Offline'', ns_LastSeen := Some now, ns_Online := False,
                  ns_ConsecutiveFailures := i64 (ns_ConsecutiveFailures s1 + 1), ns_UptimeSeconds := 0\<rparr>
      in m(i \<mapsto> score_status False s2))"

definition take_offline :: "NodeStatus \<Rightarrow> NodeStatus" where
  "take_offline s = score_status False (s\<lparr>ns_Status := ''Offline'', ns_Online := False,
     ns_ConsecutiveFailures := i64 (ns_ConsecutiveFailures s + 1), ns_UptimeSeconds := 0\<rparr>)"

text \<open>The loops enumerate the map in some order \<open>order\<close>.\<close>

fun check_loop :: "int \<Rightarrow> int \<Rightarrow> string list \<Rightarrow> HeartbeatMonitor \<Rightarrow> NodeStatus list \<Rightarrow> NodeStatus list \<times> HeartbeatMonitor" where
  "check_loop now timeout [] m items = (items, m)"
| "check_loop now timeout (i # order) m items =
     (let status = status_of m i in
      if time_sub now (ns_LastSeen status) > timeout
      then check_loop now timeout order (m(i \<mapsto> take_offline status)) (items @ [take_offline status])
      else check_loop now timeout order m (items @ [status]))"

definition CheckNodeHealth :: "int \<Rightarrow> int \<Rightarrow> string list \<Rightarrow> HeartbeatMonitor \<Rightarrow> NodeStatus list \<times> HeartbeatMonitor" where
  "CheckNodeHealth now timeout order m =
     (let (items, m') = check_loop now timeout order m [] in (sort_key ns_ID items, m'))"

definition Snapshot :: "string list \<Rightarrow> HeartbeatMonitor \<Rightarrow> NodeStatus list" where
  "Snapshot order m = sort_key ns_ID (map (status_of m) order)"

section \<open>Reachable monitors\<close>

definition enumerates :: "string list \<Rightarrow> HeartbeatMonitor \<Rightarrow> bool" where
  "enumerates order m \<longleftrightarrow> distinct order \<and> set order = dom m"

definition status_ok :: "string \<Rightarrow> NodeStatus \<Rightarrow> bool" where
  "status_ok i s \<longleftrightarrow> ns_ID s = i \<and> ns_Status s = (if ns_Online s then ''Online'' else ''Offline'') \<and>
     (ns_Online s \<longrightarrow> ns_ConsecutiveFailures s = 0) \<and> ns_LastSeen s \<noteq> None \<and> ns_StartedAt s \<noteq> None \<and>
     (ns_HealthScore s, ns_HealthStatus s) = monitorHealth (ns_Online s) (ns_LatencyMs s) (ns_ConsecutiveFailures s) (ns_ReplicationDelayMs s)"

definition monitor_inv :: "HeartbeatMonitor \<Rightarrow> bool" where
  "monitor_inv m \<longleftrightarrow> (\<forall>i s. m i = Some s \<longrightarrow> status_ok i s)"

inductive monitor_reach :: "HeartbeatMonitor \<Rightarrow> bool" where
  mr_new: "monitor_reach NewHeartbeatMonitor"
| mr_beat: "monitor_reach m \<Longrightarrow> monitor_reach (UpdateHeartbeat now i c l d m)"
| mr_fail: "monitor_reach m \<Longrightarrow> monitor_reach (MarkFailure now i m)"
| mr_check: "monitor_reach m \<Longrightarrow> enumerates order m \<Longrightarrow> monitor_reach (snd (CheckNodeHealth now timeout order m))"

lemma score_status_fields [simp]:
  "ns_ID (score_status b s) = ns_ID s" "ns_Status (score_status b s) = ns_Status s" "ns_Online (score_status b s) = ns_Online s"
  "ns_LastSeen (score_status b s) = ns_LastSeen s" "ns_StartedAt (score_status b s) = ns_StartedAt s"
  "ns_ConsecutiveFailures (score_status b s) = ns_ConsecutiveFailures s" "ns_LatencyMs (score_status b s) = ns_LatencyMs s"
  "ns_ReplicationDelayMs (score_status b s) = ns_ReplicationDelayMs s"
  "(ns_HealthScore (score_status b s), ns_HealthStatus (score_status b s)) =
   monitorHealth b (ns_LatencyMs s) (ns_ConsecutiveFailures s) (ns_ReplicationDelayMs s)"
  by (simp_all add: score_status_def split: prod.split)

lemma take_offline_ok: "status_ok i s \<Longrightarrow> status_ok i (take_offline s)"
  by (simp add: status_ok_def take_offline_def)

text \<open>The status of a node after a check.\<close>

definition checked :: "int \<Rightarrow> int \<Rightarrow> NodeStatus \<Rightarrow> NodeStatus" where
  "checked now timeout s = (if time_sub now (ns_LastSeen s) > timeout then take_offline s else s)"

lemma check_loop_eq:
  assumes "distinct order" "set order \<subseteq> dom m"
  shows "check_loop now timeout order m items =
    (items @ map (\<lambda>i. checked now timeout (status_of m i)) order,
     \<lambda>i. if i \<in> set order then Some (checked now timeout (status_of m i)) else m i)"
  using assms
proof (induction order arbitrary: m items)
  case (Cons i order)
  have other: "status_of (m(i \<mapsto> s)) j = status_of m j" if "j \<in> set order" for j s
    using that Cons.prems by (auto simp: status_of_def)
  then have items: "map (\<lambda>j. checked now timeout (status_of (m(i \<mapsto> s)) j)) order = map (\<lambda>j. checked now timeout (status_of m j)) order" for s
    by simp
  have i: "m i = Some (status_of m i)" "i \<notin> set order" using Cons.prems by (auto simp: status_of_def)
  show ?case
  proof (cases "time_sub now (ns_LastSeen (status_of m i)) > timeout")
    case True
    let ?m = "m(i \<mapsto> take_offline (status_of m i))"
    have "check_loop now timeout order ?m (items @ [take_offline (status_of m i)]) =
      (items @ take_offline (status_of m i) # map (\<lambda>j. checked now timeout (status_of m j)) order,
       \<lambda>j. if j \<in> set order then Some (checked now timeout (status_of m j)) else ?m j)"
      using Cons.prems by (subst Cons.IH) (auto simp: items other fun_eq_iff)
    with True i show ?thesis by (auto simp: checked_def Let_def fun_eq_iff)
  next
    case False
    with Cons i show ?thesis by (auto simp: Let_def checked_def fun_eq_iff)
  qed
qed auto

lemma check_inv:
  assumes "monitor_inv m" and "enumerates order m"
  shows "monitor_inv (snd (CheckNodeHealth now timeout order m))"
  using assms take_offline_ok
  by (auto simp: CheckNodeHealth_def check_loop_eq enumerates_def monitor_inv_def checked_def status_of_def split: if_splits)

lemma monitor_reach_inv: "monitor_reach m \<Longrightarrow> monitor_inv m"
proof (induction rule: monitor_reach.induct)
  case (mr_beat m now i c l d)
  then show ?case by (auto simp: monitor_inv_def UpdateHeartbeat_def Let_def status_ok_def)
next
  case (mr_fail m now i)
  then show ?case by (auto simp: monitor_inv_def MarkFailure_def Let_def status_ok_def)
qed (auto simp: monitor_inv_def NewHeartbeatMonitor_def check_inv [unfolded monitor_inv_def])

lemma sorted_items:
  assumes "enumerates order m" and "\<And>i. i \<in> dom m \<Longrightarrow> ns_ID (f i) = i"
  shows "sort_key ns_ID (map f order) = map f (sorted_list_of_set (dom m))"
proof -
  have o: "sorted_list_of_set (dom m) = sort order"
    using assms(1) sorted_list_of_set_sort_remdups [of order] by (simp add: enumerates_def distinct_remdups_id)
  have "sort_key ns_ID (map f xs) = map f (sort xs)" if "set xs \<subseteq> dom m" for xs
    using that
  proof (induction xs)
    case (Cons x xs)
    have "insort_key ns_ID (f x) (map f ys) = map f (insort x ys)" if "set ys \<subseteq> dom m" for ys
      using that Cons.prems assms(2) by (induction ys) auto
    then show ?case using Cons by simp
  qed simp
  then show ?thesis using assms(1) by (simp add: o enumerates_def)
qed

text \<open>C31. A check of a reachable monitor, whatever the order in which it enumerates the map, answers the nodes
  sorted by their identifiers, each once: a node whose last sign of life is older than the timeout is Offline with
  one failure more and no uptime, every other node is as it was; a snapshot afterwards answers the same list; and in
  every reported status the label is Online or Offline as the flag says, an Online node has no failures, and the
  health score is the one of the reported values.\<close>

theorem check_health_reports:
  assumes "monitor_reach m" and "enumerates order m" and "enumerates order' m"
  shows "\<exists>m'. CheckNodeHealth now timeout order m = (map (\<lambda>i. checked now timeout (status_of m i)) (sorted_list_of_set (dom m)), m') \<and>
      dom m' = dom m \<and> (\<forall>i\<in>dom m. m' i = Some (checked now timeout (status_of m i))) \<and>
      Snapshot order' m' = fst (CheckNodeHealth now timeout order m) \<and>
      (\<forall>s\<in>set (fst (CheckNodeHealth now timeout order m)). status_ok (ns_ID s) s)"
proof -
  have inv: "monitor_inv m" by (rule monitor_reach_inv) fact
  have ok: "status_ok i (checked now timeout (status_of m i))" if "i \<in> dom m" for i
    using that inv take_offline_ok by (auto simp: monitor_inv_def checked_def status_of_def)
  then have id: "ns_ID (checked now timeout (status_of m i)) = i" if "i \<in> dom m" for i
    using that by (simp add: status_ok_def)
  let ?m = "\<lambda>i. if i \<in> set order then Some (checked now timeout (status_of m i)) else m i"
  have loop: "check_loop now timeout order m [] = (map (\<lambda>i. checked now timeout (status_of m i)) order, ?m)"
    using assms(2) check_loop_eq [of order m now timeout "[]"] by (simp add: enumerates_def)
  have dom: "dom ?m = dom m" using assms(2) by (auto simp: enumerates_def split: if_splits)
  have st: "status_of ?m i = checked now timeout (status_of m i)" if "i \<in> dom m" for i
    using that assms(2) by (simp add: status_of_def enumerates_def)
  have "map (status_of ?m) order' = map (\<lambda>i. checked now timeout (status_of m i)) order'"
    using assms(3) st by (simp add: enumerates_def)
  then have "Snapshot order' ?m = map (\<lambda>i. checked now timeout (status_of m i)) (sorted_list_of_set (dom m))"
    unfolding Snapshot_def by (simp only: sorted_items [OF assms(3) id])
  moreover have "finite (dom m)" using assms(2) by (metis enumerates_def finite_set)
  ultimately show ?thesis using dom ok id assms(2)
    by (auto simp: CheckNodeHealth_def loop sorted_items [OF assms(2) id] enumerates_def)
qed

definition two_nodes :: HeartbeatMonitor where
  "two_nodes = UpdateHeartbeat 100 ''a'' 1 2 3 (UpdateHeartbeat 50 ''b'' 1 2 3 NewHeartbeatMonitor)"

theorem check_health_reports_witness:
  "map ns_ID (fst (CheckNodeHealth 120 30 [''b'', ''a''] two_nodes)) = [''a'', ''b''] \<and>
   map ns_Online (fst (CheckNodeHealth 120 30 [''b'', ''a''] two_nodes)) = [True, False]"
proof -
  have reach: "monitor_reach two_nodes" unfolding two_nodes_def by (intro monitor_reach.intros)
  have dom: "dom two_nodes = {''a'', ''b''}" by (auto simp: two_nodes_def UpdateHeartbeat_def NewHeartbeatMonitor_def Let_def)
  have s: "sorted_list_of_set {''a'', ''b''} = [''a'', ''b'']" by simp
  have e: "enumerates [''b'', ''a''] two_nodes" by (auto simp: enumerates_def dom)
  have l: "ns_LastSeen (status_of two_nodes ''a'') = Some 100" "ns_LastSeen (status_of two_nodes ''b'') = Some 50"
    "ns_ID (status_of two_nodes ''a'') = ''a''" "ns_ID (status_of two_nodes ''b'') = ''b''" "ns_Online (status_of two_nodes ''a'')"
    by (simp_all add: two_nodes_def UpdateHeartbeat_def status_of_def Let_def)
  obtain m' where "CheckNodeHealth 120 30 [''b'', ''a''] two_nodes =
      (map (\<lambda>i. checked 120 30 (status_of two_nodes i)) (sorted_list_of_set (dom two_nodes)), m')"
    using check_health_reports [OF reach e e, of 120 30] by (elim exE conjE)
  then have "fst (CheckNodeHealth 120 30 [''b'', ''a''] two_nodes) =
      [checked 120 30 (status_of two_nodes ''a''), checked 120 30 (status_of two_nodes ''b'')]"
    unfolding dom s by simp
  then show ?thesis by (simp add: checked_def l time_sub_def take_offline_def)
qed

end
