(* ===== verification/Auth.thy ===== *)
theory Auth
  imports Prelude Errors
begin

text \<open>
  Users and sessions (\<^verbatim>\<open>internal/auth/session.go\<close>) and the command AUTH (\<^verbatim>\<open>internal/eval/eval.go\<close>): a session
  points to a user, whose passwords are stored as bcrypt hashes; a session is pending, active or expired. With a
  password configured, a session is active only after its last expiry a password was accepted.
\<close>

section \<open>Users\<close>

text \<open>A user is an object: the store of users and the sessions point to it, so it is an address of a heap.\<close>

record User =
  us_Username :: string
  us_Passwords :: "string list"
  us_IsPasswordEnabled :: bool

record Users =
  ur_heap :: "User list"
  ur_store :: "string \<rightharpoonup> nat"

text \<open>The bcrypt package: a hash from a salt and a password, unless the password is too long, and its comparison.\<close>

record bcrypt =
  bc_generate :: "string \<Rightarrow> string \<Rightarrow> string option"
  bc_matches :: "string \<Rightarrow> string \<Rightarrow> bool"

definition NewUsersStore :: Users where
  "NewUsersStore = \<lparr>ur_heap = [], ur_store = Map.empty\<rparr>"

definition users_Get :: "Users \<Rightarrow> string \<Rightarrow> string + nat" where
  "users_Get us username = (case ur_store us username of None \<Rightarrow> Inl ''ERR user not found'' | Some u \<Rightarrow> Inr u)"

definition users_Add :: "string \<Rightarrow> Users \<Rightarrow> nat \<times> Users" where
  "users_Add username us =
     (length (ur_heap us),
      us\<lparr>ur_heap := ur_heap us @ [\<lparr>us_Username = username, us_Passwords = [], us_IsPasswordEnabled = False\<rparr>],
         ur_store := (ur_store us)(username \<mapsto> length (ur_heap us))\<rparr>)"

text \<open>The error is the one of the hash generation.\<close>

definition SetPassword :: "bcrypt \<Rightarrow> string \<Rightarrow> nat \<Rightarrow> string \<Rightarrow> Users \<Rightarrow> bool \<times> Users" where
  "SetPassword bc salt u password us =
     (case bc_generate bc salt password of
        None \<Rightarrow> (False, us)
      | Some h \<Rightarrow> (True, us\<lparr>ur_heap := (ur_heap us)[u := (ur_heap us ! u)\<lparr>us_Passwords := us_Passwords (ur_heap us ! u) @ [h]\<rparr>]\<rparr>))"

text \<open>The server's start adds the configured user when a password is configured.\<close>

record auth_config =
  ac_Username :: string
  ac_Password :: string

definition start_users :: "bcrypt \<Rightarrow> string \<Rightarrow> auth_config \<Rightarrow> Users \<Rightarrow> Users" where
  "start_users bc salt cfg us =
     (if ac_Password cfg \<noteq> [] then let (u, us1) = users_Add (ac_Username cfg) us in snd (SetPassword bc salt u (ac_Password cfg) us1)
      else us)"

section \<open>Sessions\<close>

datatype SessionStatusT = SessionStatusPending | SessionStatusActive | SessionStatusExpired

record Session =
  ss_ID :: int
  ss_User :: "nat option"
  ss_CreatedAt :: int
  ss_LastAccessedAt :: int
  ss_Status :: SessionStatusT

text \<open>The clock in milliseconds.\<close>

definition NewSession :: "int \<Rightarrow> Session" where
  "NewSession now = \<lparr>ss_ID = go_div now 1000 mod 2 ^ 64, ss_User = None, ss_CreatedAt = now, ss_LastAccessedAt = now,
     ss_Status = SessionStatusPending\<rparr>"

definition Activate :: "int \<Rightarrow> nat option \<Rightarrow> Session \<Rightarrow> Session" where
  "Activate now user s = s\<lparr>ss_User := user, ss_Status := SessionStatusActive, ss_CreatedAt := now, ss_LastAccessedAt := now\<rparr>"

definition IsActive :: "auth_config \<Rightarrow> int \<Rightarrow> Session \<Rightarrow> bool \<times> Session" where
  "IsActive cfg now s =
     (let s1 = (if ac_Password cfg = [] \<and> ss_Status s \<noteq> SessionStatusActive then Activate now (ss_User s) s else s);
          isActive = (ss_Status s1 = SessionStatusActive)
      in (isActive, if isActive then s1\<lparr>ss_LastAccessedAt := now\<rparr> else s1))"

fun try_passwords :: "bcrypt \<Rightarrow> string \<Rightarrow> string list \<Rightarrow> bool" where
  "try_passwords bc password [] = False"
| "try_passwords bc password (userPassword # ps) = (if bc_matches bc userPassword password then True else try_passwords bc password ps)"

definition Validate :: "bcrypt \<Rightarrow> auth_config \<Rightarrow> Users \<Rightarrow> int \<Rightarrow> string \<Rightarrow> string \<Rightarrow> Session \<Rightarrow> string option \<times> Session" where
  "Validate bc cfg us now username password s =
     (case users_Get us username of
        Inl err \<Rightarrow> (Some err, s)
      | Inr u \<Rightarrow>
          if username = ac_Username cfg \<and> us_Passwords (ur_heap us ! u) = [] then (None, Activate now (Some u) s)
          else if try_passwords bc password (us_Passwords (ur_heap us ! u)) then (None, Activate now (Some u) s)
          else (Some ''WRONGPASS invalid username-password pair or user is disabled'', s))"

definition Expire :: "Session \<Rightarrow> Session" where
  "Expire s = s\<lparr>ss_Status := SessionStatusExpired\<rparr>"

section \<open>The command AUTH\<close>

definition RespOK :: string where
  "RespOK = ''+OK'' @ [CHR 0x0D, CHR 0x0A]"

text \<open>The encoding of a value's text.\<close>

definition Encode :: "string \<Rightarrow> bool \<Rightarrow> string" where
  "Encode val isSimple =
     (if isSimple then '':'' @ val @ [CHR 0x0D, CHR 0x0A] else '':'' @ val @ [CHR 0x0D, CHR 0x0A])"

definition auth_with :: "bcrypt \<Rightarrow> auth_config \<Rightarrow> Users \<Rightarrow> int \<Rightarrow> string \<Rightarrow> string \<Rightarrow> Session \<Rightarrow> string \<times> Session" where
  "auth_with bc cfg us now username password s =
     (case Validate bc cfg us now username password s of
        (Some err, s') \<Rightarrow> (Encode err False, s')
      | (None, s') \<Rightarrow> (RespOK, s'))"

definition EvalAUTH :: "bcrypt \<Rightarrow> auth_config \<Rightarrow> Users \<Rightarrow> int \<Rightarrow> string list \<Rightarrow> Session \<Rightarrow> string \<times> Session" where
  "EvalAUTH bc cfg us now args s =
     (if ac_Password cfg = [] then
        (NewErrWithMessage ''AUTH <password> called without any password configured for the default user. Are you sure your configuration is correct?'', s)
      else case args of
        [password] \<Rightarrow> auth_with bc cfg us now (ac_Username cfg) password s
      | [username, password] \<Rightarrow> auth_with bc cfg us now username password s
      | _ \<Rightarrow> (NewErrArity ''AUTH'', s))"

section \<open>Runs\<close>

text \<open>What may happen to the users and one session.\<close>

datatype auth_event =
    Ask int
  | Login int string string
  | AuthCmd int "string list"
  | Expiry
  | AddUser string
  | ChangePassword string nat string

fun auth_step :: "bcrypt \<Rightarrow> auth_config \<Rightarrow> auth_event \<Rightarrow> Users \<times> Session \<Rightarrow> Users \<times> Session" where
  "auth_step bc cfg (Ask now) (us, s) = (us, snd (IsActive cfg now s))"
| "auth_step bc cfg (Login now u p) (us, s) = (us, snd (Validate bc cfg us now u p s))"
| "auth_step bc cfg (AuthCmd now args) (us, s) = (us, snd (EvalAUTH bc cfg us now args s))"
| "auth_step bc cfg Expiry (us, s) = (us, Expire s)"
| "auth_step bc cfg (AddUser name) (us, s) = (snd (users_Add name us), s)"
| "auth_step bc cfg (ChangePassword salt u p) (us, s) = (snd (SetPassword bc salt u p us), s)"

definition auth_run :: "bcrypt \<Rightarrow> auth_config \<Rightarrow> auth_event list \<Rightarrow> Users \<times> Session \<Rightarrow> Users \<times> Session" where
  "auth_run bc cfg evs st = fold (auth_step bc cfg) evs st"

text \<open>The credentials an event presents, if it does.\<close>

fun presents :: "auth_config \<Rightarrow> auth_event \<Rightarrow> (string \<times> string) option" where
  "presents cfg (Login now u p) = Some (u, p)"
| "presents cfg (AuthCmd now [p]) = Some (ac_Username cfg, p)"
| "presents cfg (AuthCmd now [u, p]) = Some (u, p)"
| "presents cfg ev = None"

text \<open>The credentials are accepted by the users: the user is known, and one of its hashes matches, or it is the
  configured user and has none.\<close>

definition accepted :: "bcrypt \<Rightarrow> auth_config \<Rightarrow> Users \<Rightarrow> string \<times> string \<Rightarrow> bool" where
  "accepted bc cfg us up \<longleftrightarrow> (\<exists>a. ur_store us (fst up) = Some a \<and>
     ((\<exists>h\<in>set (us_Passwords (ur_heap us ! a)). bc_matches bc h (snd up)) \<or>
      (fst up = ac_Username cfg \<and> us_Passwords (ur_heap us ! a) = [])))"

lemma try_passwords_iff: "try_passwords bc p ps \<longleftrightarrow> (\<exists>h\<in>set ps. bc_matches bc h p)"
  by (induction ps) auto

lemma Validate_accepts:
  "fst (Validate bc cfg us now u p s) = None \<longleftrightarrow> accepted bc cfg us (u, p)"
  "ss_Status (snd (Validate bc cfg us now u p s)) = (if accepted bc cfg us (u, p) then SessionStatusActive else ss_Status s)"
  by (auto simp: Validate_def accepted_def users_Get_def try_passwords_iff Activate_def split: option.splits)

lemma EvalAUTH_status:
  "ss_Status (snd (EvalAUTH bc cfg us now args s)) =
     (if ac_Password cfg \<noteq> [] \<and> (\<exists>up. presents cfg (AuthCmd now args) = Some up \<and> accepted bc cfg us up)
      then SessionStatusActive else ss_Status s)"
proof (cases "(cfg, AuthCmd now args)" rule: presents.cases)
  case (2 cfg now p)
  then show ?thesis using Validate_accepts(2) [of bc cfg us now "ac_Username cfg" p s]
    by (auto simp: EvalAUTH_def auth_with_def split: prod.split option.split)
next
  case (3 cfg now u p)
  then show ?thesis using Validate_accepts(2) [of bc cfg us now u p s]
    by (auto simp: EvalAUTH_def auth_with_def split: prod.split option.split)
qed (auto simp: EvalAUTH_def)

lemma auth_step_status:
  assumes "ac_Password cfg \<noteq> []"
  shows "ss_Status (snd (auth_step bc cfg ev (us, s))) =
    (if ev = Expiry then SessionStatusExpired
     else if \<exists>up. presents cfg ev = Some up \<and> accepted bc cfg us up then SessionStatusActive else ss_Status s)"
  using assms by (cases ev) (simp_all add: IsActive_def Let_def Validate_accepts EvalAUTH_status Expire_def)

text \<open>C32. With a password configured, whatever users are added and passwords changed meanwhile, a session that is
  not active at first is active after a run exactly when some event of the run presented a user name and password
  that the users of that moment accept - the user is known, and one of its hashes matches or it is the configured
  user and has no password - and the session has not expired since.\<close>

theorem active_needs_credentials:
  assumes "ac_Password cfg \<noteq> []" and "ss_Status s \<noteq> SessionStatusActive"
  shows "ss_Status (snd (auth_run bc cfg evs (us, s))) = SessionStatusActive \<longleftrightarrow>
    (\<exists>before ev after up. evs = before @ ev # after \<and> presents cfg ev = Some up \<and>
       accepted bc cfg (fst (auth_run bc cfg before (us, s))) up \<and> Expiry \<notin> set after)"
  (is "_ \<longleftrightarrow> ?R evs")
proof (induction evs rule: rev_induct)
  case Nil
  then show ?case using assms(2) by (simp add: auth_run_def)
next
  case (snoc ev evs)
  obtain us' s' where st: "auth_run bc cfg evs (us, s) = (us', s')" by fastforce
  have run: "auth_run bc cfg (evs @ [ev]) (us, s) = auth_step bc cfg ev (us', s')" using st by (simp add: auth_run_def)
  have "?R (evs @ [ev]) \<longleftrightarrow> (\<exists>up. presents cfg ev = Some up \<and> accepted bc cfg us' up) \<or> (ev \<noteq> Expiry \<and> ?R evs)"
    (is "_ \<longleftrightarrow> ?now \<or> _")
  proof
    assume "?R (evs @ [ev])"
    then obtain before e after up where h: "evs @ [ev] = before @ e # after" "presents cfg e = Some up"
      "accepted bc cfg (fst (auth_run bc cfg before (us, s))) up" "Expiry \<notin> set after" by blast
    show "?now \<or> (ev \<noteq> Expiry \<and> ?R evs)"
    proof (cases after rule: rev_cases)
      case Nil
      then show ?thesis using h st by auto
    next
      case (snoc mid x)
      then have "evs = before @ e # mid" "x = ev" using h(1) by auto
      moreover have "?R evs" by (intro exI conjI) (use calculation h snoc in auto)
      ultimately show ?thesis using h(4) snoc by auto
    qed
  next
    assume "?now \<or> (ev \<noteq> Expiry \<and> ?R evs)"
    then show "?R (evs @ [ev])"
    proof
      assume ?now
      then show ?thesis using st by (intro exI [of _ evs] exI [of _ ev] exI [of _ "[]"]) auto
    next
      assume "ev \<noteq> Expiry \<and> ?R evs"
      then obtain before e after up where "ev \<noteq> Expiry" "evs = before @ e # after" "presents cfg e = Some up"
        "accepted bc cfg (fst (auth_run bc cfg before (us, s))) up" "Expiry \<notin> set after" by blast
      then show ?thesis by (intro exI [of _ before] exI [of _ e] exI [of _ "after @ [ev]"]) auto
    qed
  qed
  moreover have "presents cfg Expiry = None" by simp
  ultimately show ?case
    using snoc.IH auth_step_status [OF assms(1), of bc ev us' s'] st by (auto simp: run)
qed

text \<open>Given that bcrypt accepts the password a hash was generated from: after the start with a password
  configured, AUTH with exactly this password as its argument answers OK and the session is active, and an
  argument that no hash of the configured user matches is answered with WRONGPASS and leaves the session as it was.\<close>

lemma auth_after_start:
  assumes bc: "\<And>salt p h. bc_generate bc salt p = Some h \<Longrightarrow> bc_matches bc h p"
    and pw: "ac_Password cfg \<noteq> []" and gen: "bc_generate bc salt (ac_Password cfg) = Some h"
  shows "fst (EvalAUTH bc cfg (start_users bc salt cfg NewUsersStore) now [ac_Password cfg] s) = RespOK \<and>
      ss_Status (snd (EvalAUTH bc cfg (start_users bc salt cfg NewUsersStore) now [ac_Password cfg] s)) = SessionStatusActive \<and>
      (\<forall>p. bc_matches bc h p \<or> EvalAUTH bc cfg (start_users bc salt cfg NewUsersStore) now [p] s =
         (Encode ''WRONGPASS invalid username-password pair or user is disabled'' False, s))"
  using bc [OF gen] pw gen
  by (simp add: EvalAUTH_def auth_with_def start_users_def users_Add_def SetPassword_def NewUsersStore_def Validate_def
      users_Get_def Activate_def)

section \<open>Instances\<close>

text \<open>A bcrypt whose hash is the password and a mark.\<close>

definition hash_bcrypt :: bcrypt where
  "hash_bcrypt = \<lparr>bc_generate = (\<lambda>salt p. if length p > 72 then None else Some (p @ ''$'')), bc_matches = (\<lambda>h p. h = p @ ''$'')\<rparr>"

definition admin :: auth_config where
  "admin = \<lparr>ac_Username = ''dice'', ac_Password = ''secret''\<rparr>"

theorem auth_after_start_witness:
  "fst (EvalAUTH hash_bcrypt admin (start_users hash_bcrypt [] admin NewUsersStore) 5 [''secret''] (NewSession 1)) = RespOK"
proof -
  have "fst (EvalAUTH hash_bcrypt admin (start_users hash_bcrypt [] admin NewUsersStore) 5 [ac_Password admin] (NewSession 1)) = RespOK"
    by (rule auth_after_start [THEN conjunct1, of hash_bcrypt admin "[]" "''secret$''"])
      (auto simp: hash_bcrypt_def admin_def split: if_splits)
  then show ?thesis by (simp add: admin_def)
qed

theorem active_needs_credentials_witness:
  "ss_Status (snd (auth_run hash_bcrypt admin [Ask 1, Expiry, Ask 2] (NewUsersStore, NewSession 1))) \<noteq> SessionStatusActive"
proof -
  have "ac_Password admin \<noteq> []" "ss_Status (NewSession 1) \<noteq> SessionStatusActive" by (simp_all add: admin_def NewSession_def)
  from active_needs_credentials [OF this, of hash_bcrypt "[Ask 1, Expiry, Ask 2]" NewUsersStore] show ?thesis
    by (auto simp: Cons_eq_append_conv)
qed

end
