(* ===== verification/Deque.thy ===== *)
theory Deque
  imports Varint GoStrings
begin

text \<open>
  The entries of a deque and the deque in one buffer (\<^verbatim>\<open>internal/eval/deque.go\<close>): an entry is an encoding byte,
  the data and the reversed length of both, so that the buffer can be read from either end; short strings that
  parse as integers are stored as integers of seven to 64 bits.
\<close>

section \<open>Bytes of strings and integers\<close>

definition bytes_of :: "string \<Rightarrow> byte list" where
  "bytes_of x = map (\<lambda>c. of_nat (of_char c)) x"

definition string_of :: "byte list \<Rightarrow> string" where
  "string_of bs = map (\<lambda>b. char_of (unat b)) bs"

text \<open>The byte \<open>k\<close> of an integer, its conversion from the little-endian bytes, and a read from a slice.\<close>

definition byte_at :: "int \<Rightarrow> nat \<Rightarrow> byte" where
  "byte_at v k = word_of_int (drop_bit (8 * k) v)"

fun le_val :: "byte list \<Rightarrow> int" where
  "le_val [] = 0"
| "le_val (b # bs) = uint b OR push_bit 8 (le_val bs)"

definition slice :: "byte list \<Rightarrow> nat \<Rightarrow> nat \<Rightarrow> byte list outcome" where
  "slice xb lo hi = (if lo \<le> hi \<and> hi \<le> length xb then Ret (take (hi - lo) (drop lo xb)) else Panic)"

section \<open>Encoding\<close>

definition str_header :: "u64 \<Rightarrow> byte list" where
  "str_header strLen =
     (if strLen \<le> 63 then [0x80 OR ucast strLen]
      else if strLen \<le> 4095 then [0xE0 OR ucast (drop_bit 8 strLen), ucast strLen]
      else [0xF0, ucast strLen, ucast (drop_bit 8 strLen), ucast (drop_bit 16 strLen), ucast (drop_bit 24 strLen)])"

definition EncodeDeqStr :: "string \<Rightarrow> byte list outcome" where
  "EncodeDeqStr x =
     (let strLen = of_nat (length x) :: u64;
          backlen = of_nat (length (str_header strLen)) + strLen;
          backlenSize = GetEncodeUIntSize backlen
      in bind_outcome (EncodeUIntRevInPlace backlen (replicate (unat backlenSize) 0))
           (\<lambda>back. Ret (str_header strLen @ bytes_of x @ back)))"

text \<open>The encoding byte and the data of an integer; the last byte is their number.\<close>

definition int_data :: "int \<Rightarrow> byte list" where
  "int_data v =
     (if 0 \<le> v \<and> v \<le> 127 then [byte_at v 0]
      else if v \<ge> -4096 \<and> v \<le> 4095 then [word_of_int (0xC0 OR (drop_bit 8 v AND 0x1F)), byte_at v 0]
      else if v \<ge> -32768 \<and> v \<le> 32767 then 0xF1 # map (byte_at v) [0..<2]
      else if v \<ge> -8388608 \<and> v \<le> 8388607 then 0xF2 # map (byte_at v) [0..<3]
      else if v \<ge> -2147483648 \<and> v \<le> 2147483647 then 0xF3 # map (byte_at v) [0..<4]
      else 0xF4 # map (byte_at v) [0..<8])"

definition EncodeDeqInt :: "int \<Rightarrow> byte list" where
  "EncodeDeqInt v = int_data v @ [of_nat (length (int_data v))]"

definition EncodeDeqEntry :: "string \<Rightarrow> byte list outcome" where
  "EncodeDeqEntry x =
     (if length x \<ge> 21 then EncodeDeqStr x
      else case ParseInt x of None \<Rightarrow> EncodeDeqStr x | Some v \<Rightarrow> Ret (EncodeDeqInt v))"

section \<open>Decoding\<close>

definition sign_extend :: "nat \<Rightarrow> int \<Rightarrow> int" where
  "sign_extend bits val = signed_take_bit (bits - 1) val"

definition dec_int :: "byte list \<Rightarrow> nat \<Rightarrow> (string \<times> int) outcome" where
  "dec_int xb n = bind_outcome (slice xb 1 (1 + n))
     (\<lambda>bs. Ret (FormatInt (sign_extend (8 * n) (le_val bs)), int (n + 2)))"

definition dec_str :: "byte list \<Rightarrow> nat \<Rightarrow> int \<Rightarrow> (string \<times> int) outcome" where
  "dec_str xb hdr strLen = bind_outcome (slice xb hdr (hdr + nat strLen))
     (\<lambda>bs. Ret (string_of bs, int hdr + strLen + uint (GetEncodeUIntSize (of_nat hdr + of_int strLen))))"

definition DecodeDeqEntry :: "byte list \<Rightarrow> (string \<times> int) outcome" where
  "DecodeDeqEntry xb =
     (case xb of [] \<Rightarrow> Panic | b # _ \<Rightarrow>
        if b AND 0x80 = 0 then Ret (FormatInt (sign_extend 8 (uint (b AND 0x7F))), 2)
        else if b AND 0xE0 = 0xC0 then
          bind_outcome (slice xb 1 2) (\<lambda>bs.
            Ret (FormatInt (sign_extend 13 (push_bit 8 (uint (b AND 0x1F)) OR le_val bs)), 3))
        else if b AND 0xFF = 0xF1 then dec_int xb 2
        else if b AND 0xFF = 0xF2 then dec_int xb 3
        else if b AND 0xFF = 0xF3 then dec_int xb 4
        else if b AND 0xFF = 0xF4 then dec_int xb 8
        else if b AND 0xC0 = 0x80 then dec_str xb 1 (uint (b AND 0x3F))
        else if b AND 0xF0 = 0xE0 then
          bind_outcome (slice xb 1 2) (\<lambda>bs. dec_str xb 2 (push_bit 8 (uint (b AND 0xF)) OR le_val bs))
        else if b AND 0xFF = 0xF0 then bind_outcome (slice xb 1 5) (\<lambda>bs. dec_str xb 5 (le_val bs))
        else Ret (FormatInt (sign_extend 64 (12345678900000000 + uint b)), 0))"

section \<open>Sizes\<close>

definition GetEncodeDeqStrSize :: "string \<Rightarrow> u64" where
  "GetEncodeDeqStrSize x =
     (let strLen = of_nat (length x) :: u64;
          enclen = (if strLen \<le> 63 then 1 else if strLen \<le> 4095 then 2 else 5)
      in enclen + strLen + GetEncodeUIntSize (enclen + strLen))"

definition GetEncodeDeqIntSize :: "int \<Rightarrow> u64" where
  "GetEncodeDeqIntSize v =
     (if 0 \<le> v \<and> v \<le> 127 then 2
      else if v \<ge> -4096 \<and> v \<le> 4095 then 3
      else if v \<ge> -32768 \<and> v \<le> 32767 then 4
      else if v \<ge> -8388608 \<and> v \<le> 8388607 then 5
      else if v \<ge> -2147483648 \<and> v \<le> 2147483647 then 6
      else 10)"

definition GetEncodeDeqEntrySize :: "string \<Rightarrow> u64" where
  "GetEncodeDeqEntrySize x = (case ParseInt x of None \<Rightarrow> GetEncodeDeqStrSize x | Some v \<Rightarrow> GetEncodeDeqIntSize v)"

section \<open>Encoding in place\<close>

text \<open>The buffer is written from its start; the reversed length goes to the rest of it behind the data.\<close>

definition EncodeDeqStrInPlace :: "string \<Rightarrow> byte list \<Rightarrow> byte list outcome" where
  "EncodeDeqStrInPlace x buf =
     (let strLen = of_nat (length x) :: u64;
          enclen = length (str_header strLen)
      in if length buf < enclen + length x then Panic
         else bind_outcome (EncodeUIntRevInPlace (of_nat enclen + strLen) (drop (enclen + length x) buf))
           (\<lambda>back. Ret (str_header strLen @ bytes_of x @ back)))"

definition EncodeDeqIntInPlace :: "int \<Rightarrow> byte list \<Rightarrow> byte list outcome" where
  "EncodeDeqIntInPlace v buf =
     (if length buf < length (int_data v) then Panic
      else Ret ((int_data v @ drop (length (int_data v)) buf)[length buf - 1 := of_nat (length buf - 1)]))"

definition EncodeDeqEntryInPlace :: "string \<Rightarrow> byte list \<Rightarrow> byte list outcome" where
  "EncodeDeqEntryInPlace x buf =
     (if length x \<ge> 21 then EncodeDeqStrInPlace x buf
      else case ParseInt x of None \<Rightarrow> EncodeDeqStrInPlace x buf | Some v \<Rightarrow> EncodeDeqIntInPlace v buf)"

section \<open>The deque in one buffer\<close>

text \<open>The capacity of the buffer only decides whether it is copied before it grows and is left out.\<close>

record DequeBasic =
  db_Length :: int
  db_buf :: "byte list"

definition NewBasicDeque :: DequeBasic where
  "NewBasicDeque = \<lparr>db_Length = 0, db_buf = []\<rparr>"

definition basic_LPush :: "string \<Rightarrow> DequeBasic \<Rightarrow> DequeBasic outcome" where
  "basic_LPush x q = bind_outcome (EncodeDeqEntry x)
     (\<lambda>xb. Ret (q\<lparr>db_buf := xb @ db_buf q, db_Length := db_Length q + 1\<rparr>))"

definition basic_RPush :: "string \<Rightarrow> DequeBasic \<Rightarrow> DequeBasic outcome" where
  "basic_RPush x q = bind_outcome (EncodeDeqEntry x)
     (\<lambda>xb. Ret (q\<lparr>db_buf := db_buf q @ xb, db_Length := db_Length q + 1\<rparr>))"

text \<open>From the end of the buffer back to the first byte with a clear top bit; before the buffer it panics.\<close>

fun back_start :: "byte list \<Rightarrow> nat \<Rightarrow> nat outcome" where
  "back_start buf 0 = (if buf = [] \<or> buf ! 0 AND 0x80 \<noteq> 0 then Panic else Ret 0)"
| "back_start buf (Suc i) = (if buf ! Suc i AND 0x80 \<noteq> 0 then back_start buf i else Ret (Suc i))"

text \<open>The first component of a pop is the element, or nothing when the deque is empty.\<close>

definition basic_RPop :: "DequeBasic \<Rightarrow> (string option \<times> DequeBasic) outcome" where
  "basic_RPop q =
     (if db_Length q = 0 then Ret (None, q)
      else if db_buf q = [] then Panic
      else bind_outcome (back_start (db_buf q) (length (db_buf q) - 1)) (\<lambda>start.
           bind_outcome (DecodeUIntRev (drop start (db_buf q))) (\<lambda>backlen.
           if int start - sint backlen < 0 \<or> sint backlen < 0 then Panic
           else let entryStart = nat (int start - sint backlen) in
             bind_outcome (slice (db_buf q) entryStart start) (\<lambda>xb.
             bind_outcome (DecodeDeqEntry xb) (\<lambda>(x, _).
             Ret (Some x, q\<lparr>db_buf := take entryStart (db_buf q), db_Length := db_Length q - 1\<rparr>))))))"

definition basic_LPop :: "DequeBasic \<Rightarrow> (string option \<times> DequeBasic) outcome" where
  "basic_LPop q =
     (if db_Length q = 0 then Ret (None, q)
      else bind_outcome (DecodeDeqEntry (db_buf q)) (\<lambda>(x, entryLen).
           if nat entryLen > length (db_buf q) then Panic
           else Ret (Some x, q\<lparr>db_buf := drop (nat entryLen) (db_buf q), db_Length := db_Length q - 1\<rparr>)))"

definition insertElementAfterIndex :: "string \<Rightarrow> nat \<Rightarrow> DequeBasic \<Rightarrow> DequeBasic outcome" where
  "insertElementAfterIndex element idx q = bind_outcome (EncodeDeqEntry element)
     (\<lambda>xb. if idx > length (db_buf q) then Panic
           else Ret (q\<lparr>db_buf := take idx (db_buf q) @ xb @ drop idx (db_buf q), db_Length := db_Length q + 1\<rparr>))"

text \<open>The iterator is the number of elements passed and the index into the buffer.\<close>

type_synonym basic_iter = "int \<times> nat"

definition basic_HasNext :: "DequeBasic \<Rightarrow> basic_iter \<Rightarrow> bool" where
  "basic_HasNext q it \<longleftrightarrow> fst it < db_Length q"

definition basic_Next :: "DequeBasic \<Rightarrow> basic_iter \<Rightarrow> (string \<times> basic_iter) outcome" where
  "basic_Next q it =
     (if snd it > length (db_buf q) then Panic
      else bind_outcome (DecodeDeqEntry (drop (snd it) (db_buf q)))
        (\<lambda>(x, entryLen). Ret (x, (fst it + 1, snd it + nat entryLen))))"

definition insertBeforeAfterPivot :: "string \<Rightarrow> string \<Rightarrow> nat \<Rightarrow> basic_iter \<Rightarrow> DequeBasic \<Rightarrow> DequeBasic outcome" where
  "insertBeforeAfterPivot element beforeAfter pivotIndexStart it q =
     (if pivotIndexStart = 0 \<and> beforeAfter = ''before'' then basic_LPush element q
      else if \<not> basic_HasNext q it \<and> beforeAfter = ''after'' then basic_RPush element q
      else insertElementAfterIndex element (if beforeAfter = ''after'' then snd it else pivotIndexStart) q)"

text \<open>The loops run at most as many rounds as elements are left; the first argument counts them.\<close>

fun insert_loop :: "nat \<Rightarrow> string \<Rightarrow> string \<Rightarrow> string \<Rightarrow> basic_iter \<Rightarrow> DequeBasic \<Rightarrow> (int \<times> DequeBasic) outcome" where
  "insert_loop 0 pivot element beforeAfter it q = Ret (-1, q)"
| "insert_loop (Suc n) pivot element beforeAfter it q =
     bind_outcome (basic_Next q it) (\<lambda>(x, it').
       if x = pivot then bind_outcome (insertBeforeAfterPivot element beforeAfter (snd it) it' q) (\<lambda>q'. Ret (db_Length q', q'))
       else insert_loop n pivot element beforeAfter it' q)"

definition basic_LInsert :: "string \<Rightarrow> string \<Rightarrow> string \<Rightarrow> DequeBasic \<Rightarrow> ((string + int) \<times> DequeBasic) outcome" where
  "basic_LInsert pivot element beforeAfter q =
     (if db_Length q = 0 then Ret (Inr (-1), q)
      else if beforeAfter \<noteq> ''before'' \<and> beforeAfter \<noteq> ''after'' then Ret (Inl ''syntax error'', q)
      else bind_outcome (insert_loop (nat (db_Length q)) pivot element beforeAfter (0, 0) q) (\<lambda>(n, q'). Ret (Inr n, q')))"

definition sanitizeStartIndex :: "int \<Rightarrow> int \<Rightarrow> int" where
  "sanitizeStartIndex len start = (let s = (if start < 0 then i64 (len + start) else start) in if s < 0 then 0 else s)"

definition sanitizeStopIndex :: "int \<Rightarrow> int \<Rightarrow> int" where
  "sanitizeStopIndex len stop = (let s = (if stop < 0 then i64 (len + stop) else stop) in if s \<ge> len then len - 1 else s)"

fun range_loop :: "nat \<Rightarrow> int \<Rightarrow> int \<Rightarrow> int \<Rightarrow> basic_iter \<Rightarrow> DequeBasic \<Rightarrow> string list outcome" where
  "range_loop 0 currIndex start stop it q = Ret []"
| "range_loop (Suc n) currIndex start stop it q =
     (if currIndex > stop then Ret []
      else bind_outcome (basic_Next q it) (\<lambda>(x, it').
           bind_outcome (range_loop n (currIndex + 1) start stop it' q) (\<lambda>res.
           Ret (if currIndex \<ge> start \<and> currIndex \<le> stop then x # res else res))))"

definition basic_LRange :: "int \<Rightarrow> int \<Rightarrow> DequeBasic \<Rightarrow> string list outcome" where
  "basic_LRange start0 stop0 q =
     (let start = sanitizeStartIndex (db_Length q) start0; stop = sanitizeStopIndex (db_Length q) stop0 in
      if start > stop then Ret []
      else range_loop (nat (db_Length q)) 0 start stop (0, 0) q)"

end
