(* ===== verification/DequeProps.thy ===== *)
theory DequeProps
  imports Deque
begin

text \<open>
  Every entry decodes to the canonical form of the element it was encoded from, from either end of the buffer, and
  the deque in one buffer implements a list of such elements.
\<close>

section \<open>Bytes\<close>

lemma length_bytes_of [simp]: "length (bytes_of x) = length x"
  by (simp add: bytes_of_def)

lemma string_of_bytes_of [simp]: "string_of (bytes_of x) = x"
proof -
  have "of_char c < (256 :: nat)" for c
    using nat_of_char_less_256 [of c] by simp
  then have "char_of (unat (of_nat (of_char c) :: byte)) = c" for c :: char
    by (simp add: unat_of_nat take_bit_eq_mod)
  then show ?thesis by (simp add: string_of_def bytes_of_def comp_def)
qed

lemma slice_app: "length a = lo \<Longrightarrow> length a + length b = hi \<Longrightarrow> slice (a @ b @ c) lo hi = Ret b"
  by (simp add: slice_def)

lemma le_val_bytes: "le_val (map (byte_at v) [k..<k + n]) = take_bit (8 * n) (drop_bit (8 * k) v)"
proof (induction n arbitrary: k)
  case (Suc n)
  have "le_val (map (byte_at v) [k..<k + Suc n]) = uint (byte_at v k) OR push_bit 8 (le_val (map (byte_at v) [Suc k..<Suc k + n]))"
    by (simp add: upt_conv_Cons del: upt_Suc)
  also have "\<dots> = take_bit 8 (drop_bit (8 * k) v) OR push_bit 8 (take_bit (8 * n) (drop_bit (8 * Suc k) v))"
    by (simp only: Suc.IH byte_at_def uint_word_of_int) (simp add: take_bit_eq_mod)
  also have "\<dots> = take_bit (8 * Suc n) (drop_bit (8 * k) v)"
    by (rule bit_eqI) (auto simp: bit_simps ac_simps)
  finally show ?case .
qed simp

lemma sign_extend_bytes:
  assumes "0 < n" and "- (2 ^ (8 * n - 1)) \<le> v" and "v < 2 ^ (8 * n - 1)"
  shows "sign_extend (8 * n) (le_val (map (byte_at v) [0..<n])) = v"
proof -
  have "signed_take_bit (8 * n - 1) (take_bit (8 * n) v) = signed_take_bit (8 * n - 1) v"
    using assms(1) by (auto simp: signed_take_bit_take_bit)
  then show ?thesis using assms le_val_bytes [of v 0 n]
    by (simp add: sign_extend_def signed_take_bit_int_eq_self)
qed

section \<open>Headers\<close>

lemma byte_eq_iff:
  "(x :: byte) = y \<longleftrightarrow> bit x 0 = bit y 0 \<and> bit x 1 = bit y 1 \<and> bit x 2 = bit y 2 \<and> bit x 3 = bit y 3 \<and>
    bit x 4 = bit y 4 \<and> bit x 5 = bit y 5 \<and> bit x 6 = bit y 6 \<and> bit x 7 = bit y 7"
proof
  assume bits: "bit x 0 = bit y 0 \<and> bit x 1 = bit y 1 \<and> bit x 2 = bit y 2 \<and> bit x 3 = bit y 3 \<and>
    bit x 4 = bit y 4 \<and> bit x 5 = bit y 5 \<and> bit x 6 = bit y 6 \<and> bit x 7 = bit y 7"
  show "x = y"
  proof (rule bit_word_eqI)
    fix n assume "n < LENGTH(8)"
    then consider "n = 0" | "n = 1" | "n = 2" | "n = 3" | "n = 4" | "n = 5" | "n = 6" | "n = 7" by fastforce
    then show "bit x n = bit y n" using bits by cases simp_all
  qed
qed simp

lemma masks:
  fixes x :: byte
  shows "x AND 0x80 = 0 \<longleftrightarrow> \<not> bit x 7" and "x AND 0xE0 = 0xC0 \<longleftrightarrow> bit x 7 \<and> bit x 6 \<and> \<not> bit x 5"
    and "x AND 0xC0 = 0x80 \<longleftrightarrow> bit x 7 \<and> \<not> bit x 6" and "x AND 0xF0 = 0xE0 \<longleftrightarrow> bit x 7 \<and> bit x 6 \<and> bit x 5 \<and> \<not> bit x 4"
    and "x AND 0xFF = x"
  by (auto simp: byte_eq_iff bit_simps)

lemma high_bit: "n < 2 ^ k \<Longrightarrow> k \<le> m \<Longrightarrow> \<not> bit (of_nat n :: byte) m"
proof -
  assume "n < 2 ^ k" "k \<le> m"
  then have "n < 2 ^ m" by (meson less_le_trans one_le_numeral power_increasing)
  then have "\<not> bit n m" by (simp add: bit_iff_odd)
  moreover have "bit (of_nat n :: byte) m = (m < 8 \<and> bit n m)" by transfer (simp add: bit_take_bit_iff bit_of_nat_iff)
  ultimately show ?thesis by simp
qed

lemma header_6:
  assumes "n < 64"
  defines "b \<equiv> 0x80 OR of_nat n :: byte"
  shows "b AND 0x80 \<noteq> 0" "b AND 0xE0 \<noteq> 0xC0" "b \<noteq> 0xF1" "b \<noteq> 0xF2" "b \<noteq> 0xF3" "b \<noteq> 0xF4" "b AND 0xC0 = 0x80"
    "uint (b AND 0x3F) = int n"
proof -
  have h: "\<not> bit (of_nat n :: byte) 6" "\<not> bit (of_nat n :: byte) 7" using assms(1) high_bit [of n 6] by simp_all
  then have "b AND 0x3F = of_nat n" unfolding b_def by (simp add: byte_eq_iff bit_simps)
  then show "uint (b AND 0x3F) = int n" using assms(1) by (simp add: unsigned_of_nat take_bit_eq_mod)
  show "b AND 0x80 \<noteq> 0" "b AND 0xE0 \<noteq> 0xC0" "b \<noteq> 0xF1" "b \<noteq> 0xF2" "b \<noteq> 0xF3" "b \<noteq> 0xF4" "b AND 0xC0 = 0x80"
    using h unfolding b_def masks by (simp_all add: byte_eq_iff bit_simps)
qed

lemma header_12:
  assumes "n < 16"
  defines "b \<equiv> 0xE0 OR of_nat n :: byte"
  shows "b AND 0x80 \<noteq> 0" "b AND 0xE0 \<noteq> 0xC0" "b \<noteq> 0xF1" "b \<noteq> 0xF2" "b \<noteq> 0xF3" "b \<noteq> 0xF4" "b AND 0xC0 \<noteq> 0x80"
    "b AND 0xF0 = 0xE0" "uint (b AND 0xF) = int n"
proof -
  have h: "\<not> bit (of_nat n :: byte) 4" "\<not> bit (of_nat n :: byte) 5" "\<not> bit (of_nat n :: byte) 6" "\<not> bit (of_nat n :: byte) 7"
    using assms(1) high_bit [of n 4] by simp_all
  then have "b AND 0xF = of_nat n" unfolding b_def by (simp add: byte_eq_iff bit_simps)
  then show "uint (b AND 0xF) = int n" using assms(1) by (simp add: unsigned_of_nat take_bit_eq_mod)
  show "b AND 0x80 \<noteq> 0" "b AND 0xE0 \<noteq> 0xC0" "b \<noteq> 0xF1" "b \<noteq> 0xF2" "b \<noteq> 0xF3" "b \<noteq> 0xF4" "b AND 0xC0 \<noteq> 0x80"
    "b AND 0xF0 = 0xE0"
    using h unfolding b_def masks by (simp_all add: byte_eq_iff bit_simps)
qed

lemma header_13:
  assumes "n < 32"
  defines "b \<equiv> 0xC0 OR of_nat n :: byte"
  shows "b AND 0x80 \<noteq> 0" "b AND 0xE0 = 0xC0" "uint (b AND 0x1F) = int n"
proof -
  have h: "\<not> bit (of_nat n :: byte) 5" "\<not> bit (of_nat n :: byte) 6" "\<not> bit (of_nat n :: byte) 7"
    using assms(1) high_bit [of n 5] by simp_all
  then have "b AND 0x1F = of_nat n" unfolding b_def by (simp add: byte_eq_iff bit_simps)
  then show "uint (b AND 0x1F) = int n" using assms(1) by (simp add: unsigned_of_nat take_bit_eq_mod)
  show "b AND 0x80 \<noteq> 0" "b AND 0xE0 = 0xC0" using h unfolding b_def masks by (simp_all add: byte_eq_iff bit_simps)
qed

lemma header_7:
  assumes "n < 128"
  shows "(of_nat n :: byte) AND 0x80 = 0" "uint ((of_nat n :: byte) AND 0x7F) = int n"
proof -
  have h: "\<not> bit (of_nat n :: byte) 7" using assms(1) high_bit [of n 7] by simp
  then have "of_nat n AND 0x7F = (of_nat n :: byte)" by (simp add: byte_eq_iff bit_simps)
  then show "uint ((of_nat n :: byte) AND 0x7F) = int n" using assms(1) by (simp add: unsigned_of_nat take_bit_eq_mod)
  show "(of_nat n :: byte) AND 0x80 = 0" using h unfolding masks .
qed

section \<open>Decoding a string\<close>

lemma small_u64: "n < 2 ^ 32 \<Longrightarrow> unat (of_nat n :: u64) = n"
  by (simp add: unat_of_nat take_bit_eq_mod)

lemma header_cases:
  assumes "n < 2 ^ 32"
  shows "str_header (of_nat n) = (if n \<le> 63 then [0x80 OR of_nat n] else if n \<le> 4095 then [0xE0 OR of_nat (n div 256), byte_at (int n) 0]
    else 0xF0 # map (byte_at (int n)) [0..<4])"
proof -
  have u: "unat (of_nat n :: u64) = n" by (rule small_u64) fact
  have b: "ucast (drop_bit (8 * k) (of_nat n :: u64)) = byte_at (int n) k" for k
  proof -
    have w: "bit (of_nat n :: u64) j = (j < 64 \<and> bit n j)" for j by transfer (simp add: bit_take_bit_iff bit_of_nat_iff)
    have "\<not> bit n j" if "64 \<le> j" for j
    proof -
      have "(2 :: nat) ^ 32 \<le> 2 ^ j" using that by (intro power_increasing) auto
      then show ?thesis using assms by (simp add: bit_iff_odd)
    qed
    then have "bit n j \<Longrightarrow> j < 64" for j by (meson not_le)
    then show ?thesis by (intro bit_word_eqI) (auto simp: byte_at_def bit_simps w)
  qed
  have "byte_at (int n) 1 = of_nat (n div 256)"
    by (simp add: byte_at_def drop_bit_eq_div) (metis of_int_of_nat_eq of_nat_numeral zdiv_int)
  then have d: "ucast (drop_bit 8 (of_nat n :: u64)) = (of_nat (n div 256) :: byte)" using b [of 1] by simp
  have e: "ucast (of_nat n :: u64) = (of_nat n :: byte)" using b [of 0] by (simp add: byte_at_def)
  have le: "(of_nat n :: u64) \<le> 63 \<longleftrightarrow> n \<le> 63" "(of_nat n :: u64) \<le> 4095 \<longleftrightarrow> n \<le> 4095" by (simp_all add: word_le_nat_alt u)
  have "[0..<4] = [0, 1, 2, 3]" by (simp add: upt_rec)
  moreover have "ucast (of_nat n :: u64) = byte_at (int n) 0" "ucast (drop_bit 8 (of_nat n :: u64)) = byte_at (int n) 1"
    "ucast (drop_bit 16 (of_nat n :: u64)) = byte_at (int n) 2" "ucast (drop_bit 24 (of_nat n :: u64)) = byte_at (int n) 3"
    using b [of 0] b [of 1] b [of 2] b [of 3] by simp_all
  ultimately show ?thesis unfolding str_header_def le using d e by simp
qed

lemma dec_str_ok:
  assumes "length x < 2 ^ 32" and "length h = hdr"
  shows "dec_str (h @ bytes_of x @ r) hdr (int (length x)) =
    Ret (x, int (hdr + length x) + uint (GetEncodeUIntSize (of_nat hdr + of_nat (length x))))"
  using assms slice_app [of h hdr "bytes_of x" "hdr + length x" r] by (simp add: dec_str_def)

lemma le_val_4: "n < 2 ^ 32 \<Longrightarrow> le_val (map (byte_at (int n)) [0..<4]) = int n"
  using le_val_bytes [of "int n" 0 4] by (simp add: take_bit_eq_mod)

lemma low_byte: "uint (byte_at (int n) 0) = int (n mod 256)"
  by (simp only: byte_at_def mult_0_right drop_bit_0 id_apply uint_word_of_int) (simp add: zmod_int)

lemma split_low: "push_bit 8 (int (n div 256)) OR int (n mod 256) = int n"
proof -
  have "push_bit 8 (drop_bit 8 (int n)) OR take_bit 8 (int n) = int n"
    by (rule bit_eqI) (auto simp: bit_simps)
  then show ?thesis by (simp add: take_bit_eq_mod drop_bit_eq_div zmod_int zdiv_int)
qed

lemma decode_str:
  assumes n: "length x < 2 ^ 32"
  shows "DecodeDeqEntry (str_header (of_nat (length x)) @ bytes_of x @ r) =
    Ret (x, int (length (str_header (of_nat (length x))) + length x) +
      uint (GetEncodeUIntSize (of_nat (length (str_header (of_nat (length x)))) + of_nat (length x))))"
proof -
  consider "length x \<le> 63" | "\<not> length x \<le> 63" "length x \<le> 4095" | "\<not> length x \<le> 4095" by linarith
  then show ?thesis
  proof cases
    case 1
    then have h: "str_header (of_nat (length x)) = [0x80 OR of_nat (length x)]" using header_cases [OF n] by simp
    note m = header_6 [of "length x"]
    show ?thesis unfolding h using 1 m dec_str_ok [OF n, of "[0x80 OR of_nat (length x)]" 1 r]
      by (simp add: DecodeDeqEntry_def masks(5))
  next
    case 2
    then have h: "str_header (of_nat (length x)) = [0xE0 OR of_nat (length x div 256), byte_at (int (length x)) 0]"
      using header_cases [OF n] by simp
    note m = header_12 [of "length x div 256"]
    show ?thesis unfolding h
      using 2 m dec_str_ok [OF n, of "[0xE0 OR of_nat (length x div 256), byte_at (int (length x)) 0]" 2 r]
      by (simp add: DecodeDeqEntry_def masks(5) slice_def low_byte split_low)
  next
    case 3
    then have h: "str_header (of_nat (length x)) = 0xF0 # map (byte_at (int (length x))) [0..<4]"
      using header_cases [OF n] by simp
    have s: "slice (0xF0 # map (byte_at (int (length x))) [0..<4] @ bytes_of x @ r) 1 5 = Ret (map (byte_at (int (length x))) [0..<4])"
      using slice_app [of "[0xF0]" 1 "map (byte_at (int (length x))) [0..<4]" 5 "bytes_of x @ r"] by simp
    show ?thesis unfolding h
      using s dec_str_ok [OF n, of "0xF0 # map (byte_at (int (length x))) [0..<4]" 5 r]
      by (simp add: DecodeDeqEntry_def masks(5) le_val_4 [OF n])
  qed
qed

section \<open>Decoding an integer\<close>

lemma decode_int:
  assumes v: "in_i64 v"
  shows "DecodeDeqEntry (int_data v @ r) = Ret (FormatInt v, int (length (int_data v) + 1))"
proof -
  have multi: "dec_int (c # map (byte_at v) [0..<n] @ r) n = Ret (FormatInt v, int (n + 2))"
    if "0 < n" "- (2 ^ (8 * n - 1)) \<le> v" "v < 2 ^ (8 * n - 1)" for c n
    using slice_app [of "[c]" 1 "map (byte_at v) [0..<n]" "1 + n" r] sign_extend_bytes [OF that] by (simp add: dec_int_def)
  show ?thesis
  proof (cases "0 \<le> v \<and> v \<le> 127")
    case True
    define n where "n = nat v"
    have n: "v = int n" "n < 128" using True by (auto simp: n_def)
    have "int_data v = [of_nat n]" using True by (simp add: int_data_def byte_at_def n(1))
    then show ?thesis using header_7 [OF n(2)] n
      by (simp add: DecodeDeqEntry_def sign_extend_def signed_take_bit_int_eq_self)
  next
    case small: False
    show ?thesis
    proof (cases "v \<ge> -4096 \<and> v \<le> 4095")
      case True
      define n where "n = nat (drop_bit 8 v AND 0x1F)"
      have m: "drop_bit 8 v AND 0x1F = take_bit 5 (drop_bit 8 v)" by (simp add: take_bit_eq_mask mask_eq_exp_minus_1)
      then have n: "drop_bit 8 v AND 0x1F = int n" "n < 32" by (auto simp: n_def take_bit_eq_mod nat_less_iff)
      have b: "(word_of_int (0xC0 OR (drop_bit 8 v AND 0x1F)) :: byte) = 0xC0 OR of_nat n"
        by (simp only: n(1) of_int_or_eq) simp
      have low: "uint (byte_at v 0) = take_bit 8 v"
        by (simp only: byte_at_def mult_0_right drop_bit_0 id_apply uint_word_of_int) (simp add: take_bit_eq_mod)
      have "push_bit 8 (int n) OR uint (byte_at v 0) = take_bit 13 v"
        unfolding n(1) [symmetric] m low by (rule bit_eqI) (auto simp: bit_simps)
      then have "sign_extend 13 (push_bit 8 (int n) OR uint (byte_at v 0)) = v"
        using True by (simp add: sign_extend_def signed_take_bit_take_bit signed_take_bit_int_eq_self)
      moreover have "int_data v = [0xC0 OR of_nat n, byte_at v 0]" using small True b by (simp add: int_data_def)
      ultimately show ?thesis using header_13 [OF n(2)]
        by (simp add: DecodeDeqEntry_def slice_def)
    next
      case False
      have d: "DecodeDeqEntry (0xF1 # bs) = dec_int (0xF1 # bs) 2" "DecodeDeqEntry (0xF2 # bs) = dec_int (0xF2 # bs) 3"
        "DecodeDeqEntry (0xF3 # bs) = dec_int (0xF3 # bs) 4" "DecodeDeqEntry (0xF4 # bs) = dec_int (0xF4 # bs) 8" for bs
        by (simp_all add: DecodeDeqEntry_def)
      have go: ?thesis if "int_data v = c # map (byte_at v) [0..<n]" "0 < n" "- (2 ^ (8 * n - 1)) \<le> v" "v < 2 ^ (8 * n - 1)"
          "\<And>bs. DecodeDeqEntry (c # bs) = dec_int (c # bs) n" for c n
        using multi [where c = c, OF that(2) that(3) that(4)] that(5) by (simp add: that(1))
      consider "v \<ge> -32768 \<and> v \<le> 32767" | "\<not> (v \<ge> -32768 \<and> v \<le> 32767)" "v \<ge> -8388608 \<and> v \<le> 8388607"
        | "\<not> (v \<ge> -8388608 \<and> v \<le> 8388607)" "v \<ge> -2147483648 \<and> v \<le> 2147483647"
        | "\<not> (v \<ge> -2147483648 \<and> v \<le> 2147483647)" by blast
      then show ?thesis
      proof cases
        case 1
        then show ?thesis by (intro go [of "0xF1" 2]) (use small False d(1) in \<open>auto simp: int_data_def simp del: upt_rec_numeral\<close>)
      next
        case 2
        then show ?thesis by (intro go [of "0xF2" 3]) (use small False d(2) in \<open>auto simp: int_data_def simp del: upt_rec_numeral\<close>)
      next
        case 3
        then show ?thesis by (intro go [of "0xF3" 4]) (use small False d(3) in \<open>auto simp: int_data_def simp del: upt_rec_numeral\<close>)
      next
        case 4
        then show ?thesis by (intro go [of "0xF4" 8]) (use small False d(4) v in \<open>auto simp: int_data_def in_i64_def simp del: upt_rec_numeral\<close>)
      qed
    qed
  qed
qed

section \<open>Entries\<close>

text \<open>The form in which an element comes back: a short string that parses as an integer is rewritten.\<close>

definition canon :: "string \<Rightarrow> string" where
  "canon x = (if length x \<ge> 21 then x else case ParseInt x of None \<Rightarrow> x | Some v \<Rightarrow> FormatInt v)"

text \<open>An entry holds an element and can be read from both ends.\<close>

definition frames :: "string \<Rightarrow> byte list \<Rightarrow> bool" where
  "frames x e \<longleftrightarrow> (\<exists>body b bs. e = body @ b # bs \<and> \<not> bit b 7 \<and> list_all (\<lambda>c. bit c 7) bs \<and> body \<noteq> [] \<and>
     length body < 2 ^ 33 \<and> DecodeUIntRev (b # bs) = Ret (of_nat (length body)) \<and>
     (\<forall>r. DecodeDeqEntry (body @ r) = Ret (x, int (length e))))"

lemma str_frames:
  assumes "length x < 2 ^ 32"
  shows "\<exists>e. EncodeDeqStr x = Ret e \<and> frames x e"
proof -
  let ?h = "str_header (of_nat (length x))"
  let ?n = "of_nat (length ?h) + of_nat (length x) :: u64"
  have h: "0 < length ?h" "length ?h \<le> 5" by (simp_all add: str_header_def)
  then have l: "length ?h + length x < 2 ^ 33" using assms by simp
  have n: "?n = of_nat (length ?h + length x)" by simp
  have u: "unat ?n = length ?h + length x" unfolding n using l by (simp add: unat_of_nat take_bit_eq_mod del: of_nat_add)
  then have "unat ?n < 2 ^ 35" using l by simp
  then obtain b bs where b: "EncodeUIntRevInPlace ?n (replicate (unat (GetEncodeUIntSize ?n)) 0) = Ret (b # bs)"
    "DecodeUIntRev (b # bs) = Ret ?n" "length (b # bs) = unat (GetEncodeUIntSize ?n)" "\<not> bit b 7" "list_all (\<lambda>c. bit c 7) bs"
    using EncodeUIntRevInPlace_sized [of ?n] by auto
  have sz: "uint (GetEncodeUIntSize ?n) = int (length (b # bs))" unfolding b(3) by (rule uint_nat)
  let ?body = "?h @ bytes_of x"
  have "EncodeDeqStr x = Ret (?body @ b # bs)" using b(1) by (simp add: EncodeDeqStr_def Let_def)
  moreover have "frames x (?body @ b # bs)"
    unfolding frames_def
  proof (intro exI conjI allI)
    show "DecodeDeqEntry (?body @ r) = Ret (x, int (length (?body @ b # bs)))" for r
      using decode_str [OF assms, of r] unfolding sz by simp
    show "DecodeUIntRev (b # bs) = Ret (of_nat (length ?body))" using b(2) by simp
  qed (use b h l in auto)
  ultimately show ?thesis by blast
qed

lemma length_int_data: "0 < length (int_data v) \<and> length (int_data v) \<le> 9"
  by (simp add: int_data_def)

lemma int_frames:
  assumes "in_i64 v"
  shows "frames (FormatInt v) (EncodeDeqInt v)"
proof -
  let ?n = "length (int_data v)"
  have n: "0 < ?n" "?n \<le> 9" using length_int_data [of v] by auto
  have "\<not> bit (of_nat ?n :: byte) 7" using n high_bit [of ?n 7] by simp
  moreover have "DecodeUIntRev [of_nat ?n] = Ret (of_nat ?n)"
  proof -
    have "take_bit 7 (of_nat ?n :: byte) = of_nat ?n" using n
      by (simp only: take_bit_of_nat) (simp add: take_bit_nat_eq_self)
    moreover have "ucast (of_nat ?n :: byte) = (of_nat ?n :: u64)" using n by (simp add: unsigned_of_nat take_bit_eq_mod)
    ultimately show ?thesis by (simp add: DecodeUIntRev_def)
  qed
  ultimately show ?thesis unfolding frames_def EncodeDeqInt_def using n decode_int [OF assms]
    by (intro exI [of _ "int_data v"] exI [of _ "of_nat ?n"] exI [of _ "[]"]) auto
qed

lemma entry_frames:
  assumes "length x < 2 ^ 32"
  shows "\<exists>e. EncodeDeqEntry x = Ret e \<and> frames (canon x) e"
  using str_frames [OF assms] int_frames ParseInt_in_range by (auto simp: EncodeDeqEntry_def canon_def split: option.split)

lemma frames_decode: "frames x e \<Longrightarrow> DecodeDeqEntry (e @ r) = Ret (x, int (length e))"
  unfolding frames_def by fastforce

text \<open>Walking back from the end of a buffer finds the start of the last length.\<close>

lemma back_start_eq:
  assumes "\<not> bit b 7" and "list_all (\<lambda>c. bit c 7) bs"
  shows "back_start (pre @ b # bs) (length pre + length bs) = Ret (length pre)"
  using assms
proof (induction bs rule: rev_induct)
  case Nil
  show ?case by (cases pre rule: rev_cases) (use Nil in \<open>auto simp: masks(1) nth_append\<close>)
next
  case (snoc c bs)
  have "back_start (pre @ b # bs @ [c]) i = back_start (pre @ b # bs) i" if "i < length pre + Suc (length bs)" for i
    using that by (induction i) (auto simp: nth_append nth_Cons split: nat.split)
  moreover have "(pre @ b # bs @ [c]) ! Suc (length pre + length bs) = c" by (simp add: nth_append)
  ultimately show ?case using snoc by (simp add: masks(1))
qed

section \<open>The deque is a list\<close>

definition rep :: "string list \<Rightarrow> DequeBasic \<Rightarrow> bool" where
  "rep xs q \<longleftrightarrow> (\<exists>es. list_all2 frames xs es \<and> db_buf q = concat es \<and> db_Length q = int (length xs))"

lemma rep_empty: "rep [] NewBasicDeque"
  by (simp add: rep_def NewBasicDeque_def)

lemma LPush_rep:
  assumes "rep xs q" and "length x < 2 ^ 32"
  shows "\<exists>q'. basic_LPush x q = Ret q' \<and> rep (canon x # xs) q'"
proof -
  obtain e es where "EncodeDeqEntry x = Ret e" "frames (canon x) e" "list_all2 frames xs es" "db_buf q = concat es"
    "db_Length q = int (length xs)" using assms entry_frames by (fastforce simp: rep_def)
  then show ?thesis by (auto simp: basic_LPush_def rep_def intro!: exI [of _ "e # es"])
qed

lemma RPush_rep:
  assumes "rep xs q" and "length x < 2 ^ 32"
  shows "\<exists>q'. basic_RPush x q = Ret q' \<and> rep (xs @ [canon x]) q'"
proof -
  obtain e es where "EncodeDeqEntry x = Ret e" "frames (canon x) e" "list_all2 frames xs es" "db_buf q = concat es"
    "db_Length q = int (length xs)" using assms entry_frames by (fastforce simp: rep_def)
  then show ?thesis by (auto simp: basic_RPush_def rep_def intro!: exI [of _ "es @ [e]"] list_all2_appendI)
qed

lemma LPop_rep: "rep (x # xs) q \<Longrightarrow> \<exists>q'. basic_LPop q = Ret (Some x, q') \<and> rep xs q'"
  by (fastforce simp: rep_def basic_LPop_def frames_decode list_all2_Cons1)

lemma RPop_rep:
  assumes "rep (xs @ [x]) q"
  shows "\<exists>q'. basic_RPop q = Ret (Some x, q') \<and> rep xs q'"
proof -
  obtain es' where es': "list_all2 frames (xs @ [x]) es'" "db_buf q = concat es'" "db_Length q = int (Suc (length xs))"
    using assms by (auto simp: rep_def)
  then obtain es e where e: "es' = es @ [e]" "list_all2 frames xs es" "frames x e"
    by (auto simp: list_all2_append1 list_all2_Cons1)
  obtain body b bs where f: "e = body @ b # bs" "\<not> bit b 7" "list_all (\<lambda>c. bit c 7) bs" "length body < 2 ^ 33"
    "DecodeUIntRev (b # bs) = Ret (of_nat (length body))" "\<forall>r. DecodeDeqEntry (body @ r) = Ret (x, int (length e))"
    using e(3) by (auto simp: frames_def)
  let ?pre = "concat es @ body"
  have buf: "db_buf q = ?pre @ b # bs" using es'(2) e(1) f(1) by simp
  have start: "back_start (db_buf q) (length (db_buf q) - 1) = Ret (length ?pre)"
    unfolding buf using back_start_eq [OF f(2,3), of ?pre] by (simp add: add.assoc)
  have bk: "sint (of_nat (length body) :: u64) = int (length body)"
    using f(4) by (simp add: signed_of_nat signed_take_bit_int_eq_self)
  have "slice (db_buf q) (length (concat es)) (length ?pre) = Ret body" by (simp add: slice_def buf)
  moreover have "DecodeDeqEntry body = Ret (x, int (length e))" using f(6) spec [of _ "[]"] by (metis append_Nil2)
  moreover have "drop (length ?pre) (db_buf q) = b # bs" "take (length (concat es)) (db_buf q) = concat es" by (simp_all add: buf)
  ultimately show ?thesis using es'(3) start bk e(2) f(5)
    by (auto simp: basic_RPop_def Let_def rep_def buf)
qed

text \<open>The iterator after the elements \<open>xs\<close>.\<close>

lemma Next_rep:
  assumes "list_all2 frames xs es" and "frames x e" and "db_buf q = concat es @ e @ r"
  shows "basic_Next q (int (length xs), length (concat es)) = Ret (x, (int (length (xs @ [x])), length (concat (es @ [e]))))"
  using assms frames_decode [OF assms(2), of r] by (simp add: basic_Next_def)

lemma range_rep:
  assumes "list_all2 frames (xs @ ys) es" and "db_buf q = concat es"
  shows "range_loop (length ys) (int (length xs)) start stop (int (length xs), length (concat (take (length xs) es))) q =
    Ret (map fst (filter (\<lambda>(y, i). start \<le> i \<and> i \<le> stop) (zip ys (map (\<lambda>j. int (length xs) + int j) [0..<length ys]))))"
  using assms
proof (induction ys arbitrary: xs)
  case (Cons y ys)
  obtain es1 e es2 where es: "es = es1 @ e # es2" "list_all2 frames xs es1" "frames y e"
    using Cons.prems(1) by (auto simp: list_all2_append1 list_all2_Cons1)
  then have len: "length es1 = length xs" by (simp add: list_all2_lengthD)
  have nxt: "basic_Next q (int (length xs), length (concat es1)) = Ret (y, (int (length (xs @ [y])), length (concat (es1 @ [e]))))"
    by (rule Next_rep [OF es(2,3), where r = "concat es2"]) (use es Cons.prems in simp)
  have idx: "map (\<lambda>j. int (length xs) + int j) [0..<length (y # ys)] =
      int (length xs) # map (\<lambda>j. int (length (xs @ [y])) + int j) [0..<length ys]"
    by (simp add: upt_conv_Cons map_Suc_upt [symmetric] del: upt_Suc)
  note IH = Cons.IH [of "xs @ [y]"]
  show ?case
  proof (cases "int (length xs) > stop")
    case True
    then have "filter (\<lambda>(y, i). start \<le> i \<and> i \<le> stop) (zip (y # ys) (map (\<lambda>j. int (length xs) + int j) [0..<length (y # ys)])) = []"
      by (force simp: filter_empty_conv dest!: set_zip_rightD simp del: upt_Suc)
    then show ?thesis using True by simp
  next
    case False
    then show ?thesis using IH Cons.prems nxt es(1) len unfolding idx
      by (simp add: add.commute)
  qed
qed simp

lemma filter_index:
  assumes "0 \<le> start"
  shows "map fst (filter (\<lambda>(y, i). start \<le> i \<and> i \<le> stop) (zip xs (map int [0..<length xs]))) =
    take (nat (stop - start + 1)) (drop (nat start) xs)"
proof (induction xs rule: rev_induct)
  case (snoc x xs)
  have "take (nat (stop - start + 1)) (drop (nat start) (xs @ [x])) =
      take (nat (stop - start + 1)) (drop (nat start) xs) @ (if start \<le> int (length xs) \<and> int (length xs) \<le> stop then [x] else [])"
    using assms by (auto simp: not_le)
  then show ?case by (simp add: snoc)
qed simp

lemma LRange_rep:
  assumes "rep xs q"
  defines "start' \<equiv> \<lambda>start. sanitizeStartIndex (int (length xs)) start" and "stop' \<equiv> \<lambda>stop. sanitizeStopIndex (int (length xs)) stop"
  shows "basic_LRange start stop q = Ret (take (nat (stop' stop - start' start + 1)) (drop (nat (start' start)) xs))"
proof -
  obtain es where es: "list_all2 frames xs es" "db_buf q = concat es" "db_Length q = int (length xs)"
    using assms(1) by (auto simp: rep_def)
  have "0 \<le> start' start" by (simp add: start'_def sanitizeStartIndex_def Let_def)
  then show ?thesis
    using range_rep [of "[]" xs es q "start' start" "stop' stop"] filter_index [of "start' start" "stop' stop" xs] es
    by (simp add: basic_LRange_def Let_def start'_def stop'_def)
qed

text \<open>The list with \<open>element\<close> next to the first occurrence of \<open>pivot\<close>.\<close>

fun insert_at :: "string \<Rightarrow> string \<Rightarrow> bool \<Rightarrow> string list \<Rightarrow> string list option" where
  "insert_at pivot element before [] = None"
| "insert_at pivot element before (x # xs) =
     (if x = pivot then Some (if before then element # x # xs else x # element # xs)
      else map_option ((#) x) (insert_at pivot element before xs))"

lemma insert_rep:
  assumes "list_all2 frames (xs @ ys) es" and "db_buf q = concat es" and "db_Length q = int (length (xs @ ys))"
    and "pivot \<notin> set xs" and "length element < 2 ^ 32" and "ba = (if before then ''before'' else ''after'')"
  shows "case insert_at pivot (canon element) before ys of
      None \<Rightarrow> insert_loop (length ys) pivot element ba (int (length xs), length (concat (take (length xs) es))) q = Ret (-1, q)
    | Some zs \<Rightarrow> \<exists>q'. insert_loop (length ys) pivot element ba (int (length xs), length (concat (take (length xs) es))) q =
        Ret (int (length (xs @ ys)) + 1, q') \<and> rep (xs @ zs) q'"
  using assms
proof (induction ys arbitrary: xs)
  case (Cons y ys)
  obtain es1 e es2 where es: "es = es1 @ e # es2" "list_all2 frames xs es1" "frames y e" "list_all2 frames ys es2"
    using Cons.prems(1) by (auto simp: list_all2_append1 list_all2_Cons1)
  then have len: "length es1 = length xs" by (simp add: list_all2_lengthD)
  have nxt: "basic_Next q (int (length xs), length (concat es1)) = Ret (y, (int (length (xs @ [y])), length (concat (es1 @ [e]))))"
    by (rule Next_rep [OF es(2,3), where r = "concat es2"]) (use es Cons.prems in simp)
  obtain en where en: "EncodeDeqEntry element = Ret en" "frames (canon element) en" using entry_frames [OF Cons.prems(5)] by auto
  have buf: "db_buf q = concat es1 @ e @ concat es2" using Cons.prems(2) es(1) by simp
  show ?case
  proof (cases "y = pivot")
    case False
    then show ?thesis using Cons.IH [of "xs @ [y]"] Cons.prems nxt es(1) len
      by (auto simp: add.commute split: option.splits)
  next
    case True
    show ?thesis
    proof (cases before)
      case b: True
      have "\<exists>q'. insertBeforeAfterPivot element ba (length (concat es1)) (int (length (xs @ [y])), length (concat (es1 @ [e]))) q = Ret q' \<and>
          rep (xs @ canon element # y # ys) q' \<and> db_Length q' = int (length (xs @ y # ys)) + 1"
      proof (cases "length (concat es1) = 0")
        case e: True
        have "e' \<noteq> []" if "frames x e'" for x e' using that by (auto simp: frames_def)
        then have "xs = []" using es(2) e by (cases es1) (auto simp: list_all2_Cons2)
        then show ?thesis using LPush_rep [of "y # ys" q element] Cons.prems b e
          by (auto simp: insertBeforeAfterPivot_def rep_def basic_LPush_def en)
      next
        case False
        then show ?thesis using b en es buf Cons.prems
          by (auto simp: insertBeforeAfterPivot_def insertElementAfterIndex_def rep_def list_all2_appendI
              intro!: exI [of _ "es1 @ en # e # es2"])
      qed
      then show ?thesis using True b nxt es(1) len by (auto simp: add.commute)
    next
      case a: False
      have "\<exists>q'. insertBeforeAfterPivot element ba (length (concat es1)) (int (length (xs @ [y])), length (concat (es1 @ [e]))) q = Ret q' \<and>
          rep (xs @ y # canon element # ys) q' \<and> db_Length q' = int (length (xs @ y # ys)) + 1"
      proof (cases "ys = []")
        case True
        then show ?thesis using RPush_rep [of "xs @ [y]" q element] Cons.prems a
          by (auto simp: insertBeforeAfterPivot_def basic_HasNext_def rep_def basic_RPush_def en)
      next
        case False
        then show ?thesis using a en es buf Cons.prems
          by (auto simp: insertBeforeAfterPivot_def basic_HasNext_def insertElementAfterIndex_def rep_def list_all2_appendI
              intro!: exI [of _ "es1 @ e # en # es2"])
      qed
      then show ?thesis using True a nxt es(1) len by (auto simp: add.commute)
    qed
  qed
qed simp

section \<open>Every sequence of operations\<close>

datatype deque_op = DLPush string | DRPush string | DLPop | DRPop | DLInsert string string string | DLRange int int

datatype deque_reply = DDone | DElem "string option" | DPlace "string + int" | DList "string list"

fun basic_step :: "deque_op \<Rightarrow> DequeBasic \<Rightarrow> (deque_reply \<times> DequeBasic) outcome" where
  "basic_step (DLPush x) q = bind_outcome (basic_LPush x q) (\<lambda>q'. Ret (DDone, q'))"
| "basic_step (DRPush x) q = bind_outcome (basic_RPush x q) (\<lambda>q'. Ret (DDone, q'))"
| "basic_step DLPop q = bind_outcome (basic_LPop q) (\<lambda>(r, q'). Ret (DElem r, q'))"
| "basic_step DRPop q = bind_outcome (basic_RPop q) (\<lambda>(r, q'). Ret (DElem r, q'))"
| "basic_step (DLInsert pivot x ba) q = bind_outcome (basic_LInsert pivot x ba q) (\<lambda>(r, q'). Ret (DPlace r, q'))"
| "basic_step (DLRange i j) q = bind_outcome (basic_LRange i j q) (\<lambda>xs. Ret (DList xs, q))"

fun basic_run :: "deque_op list \<Rightarrow> DequeBasic \<Rightarrow> deque_reply list outcome" where
  "basic_run [] q = Ret []"
| "basic_run (op # ops) q = bind_outcome (basic_step op q) (\<lambda>(r, q'). bind_outcome (basic_run ops q') (\<lambda>rs. Ret (r # rs)))"

text \<open>The same on a list of canonical elements.\<close>

fun list_step :: "deque_op \<Rightarrow> string list \<Rightarrow> deque_reply \<times> string list" where
  "list_step (DLPush x) xs = (DDone, canon x # xs)"
| "list_step (DRPush x) xs = (DDone, xs @ [canon x])"
| "list_step DLPop xs = (case xs of [] \<Rightarrow> (DElem None, []) | x # xs' \<Rightarrow> (DElem (Some x), xs'))"
| "list_step DRPop xs = (if xs = [] then (DElem None, []) else (DElem (Some (last xs)), butlast xs))"
| "list_step (DLInsert pivot x ba) xs =
     (if xs = [] then (DPlace (Inr (-1)), [])
      else if ba \<noteq> ''before'' \<and> ba \<noteq> ''after'' then (DPlace (Inl ''syntax error''), xs)
      else case insert_at pivot (canon x) (ba = ''before'') xs of
          None \<Rightarrow> (DPlace (Inr (-1)), xs)
        | Some ys \<Rightarrow> (DPlace (Inr (int (length ys))), ys))"
| "list_step (DLRange i j) xs =
     (let start = sanitizeStartIndex (int (length xs)) i; stop = sanitizeStopIndex (int (length xs)) j
      in (DList (take (nat (stop - start + 1)) (drop (nat start) xs)), xs))"

fun list_run :: "deque_op list \<Rightarrow> string list \<Rightarrow> deque_reply list" where
  "list_run [] xs = []"
| "list_run (op # ops) xs = (case list_step op xs of (r, xs') \<Rightarrow> r # list_run ops xs')"

fun op_ok :: "deque_op \<Rightarrow> bool" where
  "op_ok (DLPush x) \<longleftrightarrow> length x < 2 ^ 32"
| "op_ok (DRPush x) \<longleftrightarrow> length x < 2 ^ 32"
| "op_ok (DLInsert pivot x ba) \<longleftrightarrow> length x < 2 ^ 32"
| "op_ok op \<longleftrightarrow> True"

lemma length_insert_at: "insert_at p e b xs = Some ys \<Longrightarrow> length ys = length xs + 1"
  by (induction xs arbitrary: ys) (auto split: if_splits)

lemma LInsert_rep:
  assumes "rep xs q" and "length x < 2 ^ 32"
  shows "\<exists>q'. basic_step (DLInsert pivot x ba) q = Ret (fst (list_step (DLInsert pivot x ba) xs), q') \<and>
    rep (snd (list_step (DLInsert pivot x ba) xs)) q'"
proof -
  obtain es where es: "list_all2 frames ([] @ xs) es" "db_buf q = concat es" "db_Length q = int (length ([] @ xs))"
    using assms(1) by (auto simp: rep_def)
  have len: "nat (db_Length q) = length xs" "db_Length q = 0 \<longleftrightarrow> xs = []" using es(3) by auto
  show ?thesis
  proof (cases "xs = [] \<or> (ba \<noteq> ''before'' \<and> ba \<noteq> ''after'')")
    case True
    then show ?thesis using assms(1) len(2) by (auto simp: basic_LInsert_def)
  next
    case False
    then have ba: "ba = (if ba = ''before'' then ''before'' else ''after'')" by auto
    have loop: "case insert_at pivot (canon x) (ba = ''before'') xs of
        None \<Rightarrow> insert_loop (length xs) pivot x ba (0, 0) q = Ret (-1, q)
      | Some zs \<Rightarrow> \<exists>q'. insert_loop (length xs) pivot x ba (0, 0) q = Ret (int (length xs) + 1, q') \<and> rep zs q'"
      using insert_rep [OF es _ assms(2) ba, of pivot]
      by (simp split: option.splits)
    show ?thesis
    proof (cases "insert_at pivot (canon x) (ba = ''before'') xs")
      case None
      then show ?thesis using False loop assms(1) len by (simp add: basic_LInsert_def)
    next
      case (Some ys)
      then obtain q' where "insert_loop (length xs) pivot x ba (0, 0) q = Ret (int (length xs) + 1, q')" "rep ys q'" using loop by auto
      then show ?thesis using False Some len length_insert_at [OF Some] by (auto simp: basic_LInsert_def)
    qed
  qed
qed

lemma step_rep:
  assumes "rep xs q" and "op_ok op"
  shows "\<exists>q'. basic_step op q = Ret (fst (list_step op xs), q') \<and> rep (snd (list_step op xs)) q'"
proof (cases op)
  case (DLPush x)
  then show ?thesis using LPush_rep [OF assms(1), of x] assms(2) by auto
next
  case (DRPush x)
  then show ?thesis using RPush_rep [OF assms(1), of x] assms(2) by auto
next
  case DLPop
  then show ?thesis using assms(1) LPop_rep by (cases xs) (fastforce simp: basic_LPop_def rep_def)+
next
  case DRPop
  show ?thesis
  proof (cases "xs = []")
    case True
    then show ?thesis using assms(1) DRPop by (simp add: basic_RPop_def rep_def)
  next
    case False
    then obtain q' where "basic_RPop q = Ret (Some (last xs), q')" "rep (butlast xs) q'"
      using RPop_rep [of "butlast xs" "last xs" q] assms(1) by auto
    then show ?thesis using False DRPop by simp
  qed
next
  case (DLInsert pivot x ba)
  then show ?thesis using LInsert_rep [OF assms(1), of x pivot ba] assms(2) by simp
next
  case (DLRange i j)
  then show ?thesis using LRange_rep [OF assms(1), of i j] assms(1) by (simp add: Let_def)
qed

text \<open>C38. Any sequence of pushes, pops, inserts and range queries on a new deque, with elements shorter than
  \<open>2 ^ 32\<close> bytes, never panics and answers what the same sequence answers on a list in which every pushed element
  is in its canonical form: an element of fewer than 21 bytes that parses as a 64-bit integer comes back as that
  integer's digits, every other element as it was.\<close>

theorem deque_refines_list:
  assumes "\<forall>op\<in>set ops. op_ok op"
  shows "basic_run ops NewBasicDeque = Ret (list_run ops [])"
proof -
  have "rep xs q \<Longrightarrow> \<forall>op\<in>set ops. op_ok op \<Longrightarrow> basic_run ops q = Ret (list_run ops xs)" for xs q
  proof (induction ops arbitrary: xs q)
    case (Cons op ops)
    then obtain q' where "basic_step op q = Ret (fst (list_step op xs), q')" "rep (snd (list_step op xs)) q'"
      using step_rep [of xs q op] by auto
    then show ?case using Cons by (simp split: prod.split)
  qed simp
  then show ?thesis using rep_empty assms by blast
qed

theorem deque_refines_list_witness:
  "basic_run [DRPush ''a'', DRPush ''007'', DRPop] NewBasicDeque = Ret [DDone, DDone, DElem (Some ''7'')]"
proof -
  have "canon ''007'' = ''7''"
    by (simp add: canon_def ParseInt_def parse_nat_def FormatInt_def is_digit_def digit_val_def nat_digits.simps digit_char_def
      char_of_def bit_0)
  then show ?thesis using deque_refines_list [of "[DRPush ''a'', DRPush ''007'', DRPop]"] by simp
qed

section \<open>Encoding in place\<close>

lemma int_size: "unat (GetEncodeDeqIntSize v) = Suc (length (int_data v))"
  by (simp add: GetEncodeDeqIntSize_def int_data_def)

lemma str_size:
  assumes "length x < 2 ^ 32"
  defines "h \<equiv> length (str_header (of_nat (length x)))"
  shows "unat (GetEncodeDeqStrSize x) = h + length x + unat (GetEncodeUIntSize (of_nat h + of_nat (length x)))"
proof -
  have "GetEncodeDeqStrSize x = of_nat h + of_nat (length x) + GetEncodeUIntSize (of_nat h + of_nat (length x))"
    by (simp add: GetEncodeDeqStrSize_def str_header_def h_def Let_def)
  moreover have "h \<le> 5" by (simp add: h_def str_header_def)
  moreover have "unat (GetEncodeUIntSize y) \<le> 5" for y by (simp add: GetEncodeUIntSize_def)
  then have "unat (GetEncodeUIntSize (of_nat h + of_nat (length x))) \<le> 5" .
  ultimately show ?thesis using assms(1)
    by (simp add: unat_word_ariths unat_of_nat take_bit_eq_mod)
qed

text \<open>C39. Encoding an element shorter than \<open>2 ^ 32\<close> bytes in place, into a zeroed buffer of the size announced
  for it, writes the bytes of its entry - except that for an element of 21 bytes or more that parses as an integer
  (with leading zeros, say) the announced size is the one of the integer, and the encoder, which stores it as a
  string, runs out of the buffer and panics.\<close>

theorem in_place_size:
  assumes "length x < 2 ^ 32"
  shows "EncodeDeqEntryInPlace x (replicate (unat (GetEncodeDeqEntrySize x)) 0) =
    (if length x \<ge> 21 \<and> ParseInt x \<noteq> None then Panic else EncodeDeqEntry x)"
proof -
  have str: "EncodeDeqStrInPlace x (replicate (unat (GetEncodeDeqStrSize x)) 0) = EncodeDeqStr x"
    unfolding str_size [OF assms] EncodeDeqStrInPlace_def EncodeDeqStr_def Let_def by simp
  have int: "EncodeDeqIntInPlace v (replicate (unat (GetEncodeDeqIntSize v)) 0) = Ret (EncodeDeqInt v)" for v
  proof -
    have "drop n (replicate (Suc n) (0 :: byte)) = [0]" for n by (simp only: drop_replicate) simp
    then show ?thesis unfolding int_size EncodeDeqIntInPlace_def EncodeDeqInt_def by (simp del: replicate_Suc)
  qed
  have short: "EncodeDeqStrInPlace x (replicate (unat (GetEncodeDeqIntSize v)) 0) = Panic" if "length x \<ge> 21" for v
    using that length_int_data [of v] by (simp add: EncodeDeqStrInPlace_def int_size)
  show ?thesis using str int short
    by (auto simp: EncodeDeqEntryInPlace_def EncodeDeqEntry_def GetEncodeDeqEntrySize_def split: option.split)
qed

theorem in_place_size_witness:
  "EncodeDeqEntryInPlace ''000000000000000000001'' (replicate (unat (GetEncodeDeqEntrySize ''000000000000000000001'')) 0) = Panic"
proof -
  have "ParseInt ''000000000000000000001'' \<noteq> None"
    by (simp add: ParseInt_def parse_nat_def is_digit_def digit_val_def)
  then show ?thesis using in_place_size [of "''000000000000000000001''"] by simp
qed

end
