(* ===== verification/CountMin.thy ===== *)
theory CountMin
  imports Prelude GoStrings "HOL-Library.Word"
begin

text \<open>
  The count-min sketch (\<^verbatim>\<open>internal/eval/countminsketch.go\<close>): its options, the counter matrix with the positions
  of a key from one 64-bit FNV hash, updates, estimates, merging and the serialized form. Counters are 64-bit
  words that wrap around, and so do the sizes that are computed from the options.
\<close>

unbundle bit_operations_syntax

section \<open>Options and creation\<close>

record CountMinSketchOpts =
  cmo_depth :: "64 word"
  cmo_width :: "64 word"

record CountMinSketch =
  cms_opts :: CountMinSketchOpts
  cms_matrix :: "64 word list list"
  cms_count :: "64 word"

definition newCountMinSketchOpts :: "string list \<Rightarrow> string + CountMinSketchOpts" where
  "newCountMinSketchOpts args =
     (case ParseUint (args ! 0) of
        None \<Rightarrow> Inl ''invalid width''
      | Some width \<Rightarrow>
          if width \<le> 0 then Inl ''invalid width''
          else case ParseUint (args ! 1) of
            None \<Rightarrow> Inl ''invalid depth''
          | Some depth \<Rightarrow>
              if depth \<le> 0 then Inl ''invalid depth''
              else Inr \<lparr>cmo_depth = of_nat depth, cmo_width = of_nat width\<rparr>)"

text \<open>Floating-point numbers are their 64 bits; their parser, the comparisons \<open>x \<le> 0\<close> and \<open>x \<ge> 1\<close> and the two
  formulas of the paper are the environment's.\<close>

record float_env =
  fe_ParseFloat :: "string \<Rightarrow> 64 word option"
  fe_le_0 :: "64 word \<Rightarrow> bool"
  fe_ge_1 :: "64 word \<Rightarrow> bool"
  fe_ceil_e_div :: "64 word \<Rightarrow> 64 word"
  fe_ceil_log_inv :: "64 word \<Rightarrow> 64 word"

definition newCountMinSketchOptsWithErrorRate :: "float_env \<Rightarrow> string list \<Rightarrow> string + CountMinSketchOpts" where
  "newCountMinSketchOptsWithErrorRate fe args =
     (case fe_ParseFloat fe (args ! 0) of
        None \<Rightarrow> Inl ''invalid overestimation value''
      | Some errorRate \<Rightarrow>
          if fe_le_0 fe errorRate \<or> fe_ge_1 fe errorRate then Inl ''invalid overestimation value''
          else case fe_ParseFloat fe (args ! 1) of
            None \<Rightarrow> Inl ''invalid prob value''
          | Some probability \<Rightarrow>
              if fe_le_0 fe probability \<or> fe_ge_1 fe probability then Inl ''invalid prob value''
              else Inr \<lparr>cmo_depth = fe_ceil_log_inv fe probability, cmo_width = fe_ceil_e_div fe errorRate\<rparr>)"

text \<open>\<open>make\<close> panics when the elements need more than the \<open>2 ^ 48\<close> bytes of the address space.\<close>

definition alloc_ok :: "nat \<Rightarrow> 64 word \<Rightarrow> bool" where
  "alloc_ok elem n \<longleftrightarrow> elem * unat n \<le> 2 ^ 48"

text \<open>The bounds check of the slice expression for one row of the flat matrix.\<close>

definition row_fits :: "CountMinSketchOpts \<Rightarrow> nat \<Rightarrow> bool" where
  "row_fits opts row \<longleftrightarrow>
     of_nat row * cmo_width opts \<le> (of_nat row + 1) * cmo_width opts \<and>
     (of_nat row + 1) * cmo_width opts \<le> cmo_depth opts * cmo_width opts"

definition newCountMinSketch :: "CountMinSketchOpts \<Rightarrow> CountMinSketch outcome" where
  "newCountMinSketch opts =
     (if alloc_ok 24 (cmo_depth opts) \<and> alloc_ok 8 (cmo_depth opts * cmo_width opts) \<and>
         list_all (row_fits opts) [0..<unat (cmo_depth opts)]
      then Ret \<lparr>cms_opts = opts, cms_matrix = replicate (unat (cmo_depth opts)) (replicate (unat (cmo_width opts)) 0),
                cms_count = 0\<rparr>
      else Panic)"

section \<open>Hashing\<close>

text \<open>The 64-bit FNV-1 hash of the standard library.\<close>

definition fnv1_64 :: "string \<Rightarrow> 64 word" where
  "fnv1_64 key = foldl (\<lambda>h c. (h * 1099511628211) XOR of_nat (of_char c)) 14695981039346656037 key"

definition baseHashes :: "string \<Rightarrow> 32 word \<times> 32 word" where
  "baseHashes key = (let sum = fnv1_64 key in (ucast (drop_bit 32 sum), ucast sum))"

text \<open>The remainder by a width of zero panics.\<close>

definition matrixPositions :: "CountMinSketchOpts \<Rightarrow> string \<Rightarrow> 64 word list outcome" where
  "matrixPositions opts key =
     (let (hash1, hash2) = baseHashes key;
          uintHash1 = ucast hash1 :: 64 word;
          uintHash2 = ucast hash2 :: 64 word
      in if cmo_width opts = 0 \<and> cmo_depth opts \<noteq> 0 then Panic
         else Ret (map (\<lambda>row. (uintHash1 + uintHash2 * of_nat row) mod cmo_width opts) [0..<unat (cmo_depth opts)]))"

section \<open>Updates and estimates\<close>

fun update_rows :: "64 word list list \<Rightarrow> 64 word list \<Rightarrow> 64 word \<Rightarrow> 64 word list list outcome" where
  "update_rows rows [] cnt = Ret rows"
| "update_rows [] (col # cols) cnt = Panic"
| "update_rows (r # rows) (col # cols) cnt =
     (if unat col < length r
      then bind_outcome (update_rows rows cols cnt) (\<lambda>rows'. Ret (r[unat col := r ! unat col + cnt] # rows'))
      else Panic)"

definition updateMatrix :: "string \<Rightarrow> 64 word \<Rightarrow> CountMinSketch \<Rightarrow> CountMinSketch outcome" where
  "updateMatrix key cnt c =
     bind_outcome (matrixPositions (cms_opts c) key) (\<lambda>positions.
     bind_outcome (update_rows (cms_matrix c) positions cnt) (\<lambda>m.
     Ret (c\<lparr>cms_matrix := m, cms_count := cms_count c + cnt\<rparr>)))"

fun estimate_rows :: "64 word list list \<Rightarrow> 64 word list \<Rightarrow> 64 word \<Rightarrow> 64 word outcome" where
  "estimate_rows rows [] cnt = Ret cnt"
| "estimate_rows [] (col # cols) cnt = Panic"
| "estimate_rows (r # rows) (col # cols) cnt =
     (if unat col < length r
      then estimate_rows rows cols (if r ! unat col < cnt then r ! unat col else cnt)
      else Panic)"

definition estimateCount :: "string \<Rightarrow> CountMinSketch \<Rightarrow> 64 word outcome" where
  "estimateCount key c =
     bind_outcome (matrixPositions (cms_opts c) key) (\<lambda>positions.
     estimate_rows (cms_matrix c) positions (- 1))"

text \<open>What \<open>info\<close> lists: width, depth and count.\<close>

definition info :: "CountMinSketch \<Rightarrow> (string \<times> 64 word) list" where
  "info c = [(''width'', cmo_width (cms_opts c)), (''depth'', cmo_depth (cms_opts c)), (''count'', cms_count c)]"

section \<open>Merging\<close>

text \<open>A copy of a matrix has the size of the options.\<close>

definition cms_DeepCopy :: "CountMinSketch \<Rightarrow> CountMinSketch" where
  "cms_DeepCopy c =
     \<lparr>cms_opts = cms_opts c,
      cms_matrix = map (\<lambda>row. take (unat (cmo_width (cms_opts c))) (cms_matrix c ! row) @
          replicate (unat (cmo_width (cms_opts c)) - length (cms_matrix c ! row)) 0) [0..<unat (cmo_depth (cms_opts c))],
      cms_count = cms_count c\<rparr>"

text \<open>The sources come with their weights and keys; a source with the destination's key is read from the copy.\<close>

definition merge_source :: "CountMinSketch \<Rightarrow> string \<Rightarrow> CountMinSketch \<times> 64 word \<times> string \<Rightarrow> 64 word \<times> CountMinSketch" where
  "merge_source originalCopy originalKey src =
     (case src of (cms, weight, key) \<Rightarrow> (weight, if key = originalKey then originalCopy else cms))"

definition merge_cell :: "(64 word \<times> CountMinSketch) list \<Rightarrow> nat \<Rightarrow> nat \<Rightarrow> 64 word" where
  "merge_cell srcs row col = foldl (\<lambda>acc (weight, cms). acc + weight * cms_matrix cms ! row ! col) 0 srcs"

definition mergeMatrices :: "CountMinSketch list \<Rightarrow> 64 word list \<Rightarrow> string \<Rightarrow> string list \<Rightarrow> CountMinSketch \<Rightarrow> CountMinSketch" where
  "mergeMatrices sources weights originalKey keys c =
     (let originalCopy = cms_DeepCopy c;
          srcs = map (merge_source originalCopy originalKey) (zip sources (zip weights keys))
      in c\<lparr>cms_matrix := map (\<lambda>row. map (merge_cell srcs row) [0..<unat (cmo_width (cms_opts c))])
                           [0..<unat (cmo_depth (cms_opts c))],
           cms_count := foldl (\<lambda>acc (weight, cms). acc + weight * cms_count cms) 0 srcs\<rparr>)"

section \<open>The serialized form\<close>

definition be64 :: "64 word \<Rightarrow> 8 word list" where
  "be64 w = map (\<lambda>i. ucast (drop_bit (8 * i) w)) [7, 6, 5, 4, 3, 2, 1, 0]"

definition of_be64 :: "8 word list \<Rightarrow> 64 word" where
  "of_be64 bs = foldl (\<lambda>acc b. push_bit 8 acc OR ucast b) 0 bs"

text \<open>Reading eight bytes, if they are there.\<close>

definition read64 :: "8 word list \<Rightarrow> (64 word \<times> 8 word list) option" where
  "read64 buf = (if length buf < 8 then None else Some (of_be64 (take 8 buf), drop 8 buf))"

definition cms_serialize :: "CountMinSketch option \<Rightarrow> 8 word list \<Rightarrow> string + 8 word list" where
  "cms_serialize co buffer =
     (case co of
        None \<Rightarrow> Inl ''cannot serialize a nil CountMinSketch''
      | Some c \<Rightarrow> Inr (buffer @ be64 (cmo_depth (cms_opts c)) @ be64 (cmo_width (cms_opts c)) @ be64 (cms_count c) @
          concat (map (\<lambda>row. concat (map be64 row)) (cms_matrix c))))"

fun read_row :: "nat \<Rightarrow> 8 word list \<Rightarrow> (64 word list \<times> 8 word list) option" where
  "read_row 0 buf = Some ([], buf)"
| "read_row (Suc n) buf =
     (case read64 buf of None \<Rightarrow> None
      | Some (w, buf1) \<Rightarrow> map_option (\<lambda>(ws, buf2). (w # ws, buf2)) (read_row n buf1))"

fun read_rows :: "nat \<Rightarrow> nat \<Rightarrow> 8 word list \<Rightarrow> (64 word list list \<times> 8 word list) option" where
  "read_rows 0 width buf = Some ([], buf)"
| "read_rows (Suc n) width buf =
     (case read_row width buf of None \<Rightarrow> None
      | Some (r, buf1) \<Rightarrow> map_option (\<lambda>(rs, buf2). (r # rs, buf2)) (read_rows n width buf1))"

text \<open>The error of a short read is \<^verbatim>\<open>EOF\<close>; the size check is of the signed size.\<close>

definition DeserializeCMS :: "8 word list \<Rightarrow> (string + CountMinSketch) outcome" where
  "DeserializeCMS buffer =
     (if length buffer < 24 then Ret (Inl ''insufficient data for deserialization'')
      else
        let depth = of_be64 (take 8 buffer);
            width = of_be64 (take 8 (drop 8 buffer));
            cnt = of_be64 (take 8 (drop 16 buffer));
            buf = drop 24 buffer;
            opts = \<lparr>cmo_depth = depth, cmo_width = width\<rparr>
        in if int (length buf) \<le> sint (depth * width * 8)
           then Ret (Inl ''data size mismatch with expected matrix size'')
           else if \<not> (alloc_ok 24 depth \<and> alloc_ok 8 (depth * width) \<and> list_all (row_fits opts) [0..<unat depth]) then Panic
           else case read_rows (unat depth) (unat width) buf of
               None \<Rightarrow> Ret (Inl ''EOF'')
             | Some (matrix, rest) \<Rightarrow> Ret (Inr \<lparr>cms_opts = opts, cms_matrix = matrix, cms_count = cnt\<rparr>))"

end
