(* ===== verification/BloomFilter.thy ===== *)
theory BloomFilter
  imports CountMin
begin

text \<open>
  The bloom filter (\<^verbatim>\<open>internal/eval/type_bloomfilter.go\<close>, \<^verbatim>\<open>internal/eval/bloom_utils.go\<close>): its options, the
  bit array, adding and testing, the deep copy and the serialized form. The seeded hash function, the random
  seeds and the floating-point formulas are the environment's.
\<close>

unbundle bit_operations_syntax

section \<open>Bits\<close>

definition setBit :: "8 word list \<Rightarrow> 64 word \<Rightarrow> 8 word list" where
  "setBit buf b =
     (let idx = unat (b div 8); offset = 7 - unat (b mod 8)
      in if idx \<ge> length buf then buf else buf[idx := buf ! idx OR push_bit offset 1])"

definition isBitSet :: "8 word list \<Rightarrow> 64 word \<Rightarrow> bool" where
  "isBitSet buf b =
     (let idx = unat (b div 8); offset = 7 - unat (b mod 8)
      in if idx \<ge> length buf then False else buf ! idx AND push_bit offset 1 = push_bit offset 1)"

section \<open>Options and creation\<close>

record BloomOpts =
  bo_errorRate :: "64 word"
  bo_capacity :: "64 word"
  bo_bits :: "64 word"
  bo_hashFns :: "(string \<Rightarrow> 64 word) list"
  bo_bpe :: "64 word"
  bo_indexes :: "64 word list"
  bo_hashFnsSeeds :: "64 word list"

record Bloom =
  bf_opts :: BloomOpts
  bf_bitset :: "8 word list"
  bf_cnt :: "64 word"

text \<open>Besides the float parser and comparisons: the number of bits per element, the number of hash functions,
  the number of bits, the recalculation after reading back, the default error rate, the seeded hash function.\<close>

record bloom_env = float_env +
  be_bpe :: "64 word \<Rightarrow> 64 word"
  be_k :: "64 word \<Rightarrow> int"
  be_bits :: "nat \<Rightarrow> 64 word \<Rightarrow> 64 word"
  be_bpe_read :: "64 word \<Rightarrow> 64 word"
  be_defaultErrorRate :: "64 word"
  be_murmur3 :: "64 word \<Rightarrow> string \<Rightarrow> 64 word"
  be_rand :: "nat \<Rightarrow> 64 word"

definition raw_opts :: "64 word \<Rightarrow> 64 word \<Rightarrow> BloomOpts" where
  "raw_opts errorRate capacity = \<lparr>bo_errorRate = errorRate, bo_capacity = capacity, bo_bits = 0, bo_hashFns = [], bo_bpe = 0,
     bo_indexes = [], bo_hashFnsSeeds = []\<rparr>"

definition defaultBloomOpts :: "bloom_env \<Rightarrow> BloomOpts" where
  "defaultBloomOpts be = raw_opts (be_defaultErrorRate be) 1024"

definition newBloomOpts :: "bloom_env \<Rightarrow> string list \<Rightarrow> string + BloomOpts" where
  "newBloomOpts be args =
     (case fe_ParseFloat be (args ! 0) of
        None \<Rightarrow> Inl ''bad error rate''
      | Some errorRate \<Rightarrow>
          if fe_le_0 be errorRate \<or> fe_ge_1 be errorRate then Inl ''(0 < error rate range < 1) ''
          else case ParseInt (args ! 1) of
            None \<Rightarrow> Inl ''bad capacity''
          | Some capacity \<Rightarrow>
              if capacity \<le> 0 then Inl ''(capacity should be larger than 0)''
              else Inr (raw_opts errorRate (case ParseUint (args ! 1) of None \<Rightarrow> 0 | Some n \<Rightarrow> of_nat n)))"

definition NewBloomFilter :: "bloom_env \<Rightarrow> BloomOpts \<Rightarrow> Bloom outcome" where
  "NewBloomFilter be opts =
     (let bpe = be_bpe be (bo_errorRate opts);
          k = nat (be_k be bpe);
          seeds = map (be_rand be) [0..<k];
          bits = be_bits be k (bo_capacity opts);
          bytesNeeded = (if bits mod 8 = 0 then bits div 8 else bits div 8 + 1)
      in if be_k be bpe < 0 \<or> be_k be bpe > 2 ^ 44 \<or> \<not> alloc_ok 1 bytesNeeded then Panic
         else Ret \<lparr>bf_opts = opts\<lparr>bo_bpe := bpe, bo_hashFns := map (be_murmur3 be) seeds, bo_hashFnsSeeds := seeds,
                       bo_indexes := replicate k 0, bo_bits := bytesNeeded * 8\<rparr>,
                   bf_bitset = replicate (unat bytesNeeded) 0, bf_cnt = 0\<rparr>)"

section \<open>Operations\<close>

text \<open>The remainder by a size of zero panics when there is a hash function, and so does an index out of the slice.\<close>

definition updateIndexes :: "string \<Rightarrow> BloomOpts \<Rightarrow> BloomOpts outcome" where
  "updateIndexes val opts =
     (if bo_hashFns opts \<noteq> [] \<and> bo_bits opts = 0 \<or> length (bo_indexes opts) < length (bo_hashFns opts) then Panic
      else Ret (opts\<lparr>bo_indexes := map (\<lambda>fn. fn val mod bo_bits opts) (bo_hashFns opts) @
             drop (length (bo_hashFns opts)) (bo_indexes opts)\<rparr>))"

text \<open>The bits that were set before are counted.\<close>

fun add_loop :: "64 word list \<Rightarrow> nat \<Rightarrow> 8 word list \<Rightarrow> nat \<times> 8 word list" where
  "add_loop [] count buf = (count, buf)"
| "add_loop (v # vs) count buf = (if isBitSet buf v then add_loop vs (Suc count) buf else add_loop vs count (setBit buf v))"

definition bloom_add :: "string \<Rightarrow> Bloom \<Rightarrow> ((string + int) \<times> Bloom) outcome" where
  "bloom_add val b =
     (if val = [] then Ret (Inl ''empty value provided'', b)
      else bind_outcome (updateIndexes val (bf_opts b)) (\<lambda>opts.
        let (count, buf) = add_loop (bo_indexes opts) 0 (bf_bitset b);
            b' = b\<lparr>bf_opts := opts, bf_bitset := buf\<rparr>
        in if count = length (bo_indexes opts) then Ret (Inr 0, b')
           else Ret (Inr 1, b'\<lparr>bf_cnt := bf_cnt b' + 1\<rparr>)))"

definition bloom_exists :: "string \<Rightarrow> Bloom \<Rightarrow> ((string + int) \<times> Bloom) outcome" where
  "bloom_exists val b =
     (if val = [] then Ret (Inl ''empty value provided'', b)
      else bind_outcome (updateIndexes val (bf_opts b)) (\<lambda>opts.
        Ret (Inr (if list_all (isBitSet (bf_bitset b)) (bo_indexes opts) then 1 else 0), b\<lparr>bf_opts := opts\<rparr>)))"

definition bloom_DeepCopy :: "Bloom \<Rightarrow> Bloom" where
  "bloom_DeepCopy b =
     \<lparr>bf_opts = \<lparr>bo_errorRate = bo_errorRate (bf_opts b), bo_capacity = bo_capacity (bf_opts b), bo_bits = bo_bits (bf_opts b),
        bo_hashFns = bo_hashFns (bf_opts b), bo_bpe = bo_bpe (bf_opts b), bo_indexes = bo_indexes (bf_opts b), bo_hashFnsSeeds = []\<rparr>,
      bf_bitset = bf_bitset b, bf_cnt = bf_cnt b\<rparr>"

text \<open>What \<open>info\<close> lists, all of it or the one entry asked for.\<close>

definition bloom_info :: "string \<Rightarrow> Bloom \<Rightarrow> string + (string \<times> 64 word) list" where
  "bloom_info opt b =
     (let cap = (''Capacity'', bo_capacity (bf_opts b)); size' = (''Size'', bo_bits (bf_opts b));
          filters = (''Number of filters'', of_nat (length (bo_hashFns (bf_opts b))));
          items = (''Number of items inserted'', bf_cnt b); expansion = (''Expansion rate'', 2)
      in if opt = [] then Inr [cap, size', filters, items, expansion]
         else if ToUpper opt = ''CAPACITY'' then Inr [cap]
         else if ToUpper opt = ''SIZE'' then Inr [size']
         else if ToUpper opt = ''FILTER'' then Inr [filters]
         else if ToUpper opt = ''ITEMS'' then Inr [items]
         else if ToUpper opt = ''EXPANSION'' then Inr [expansion]
         else Inl ''Invalid information value'')"

section \<open>The serialized form\<close>

definition bloom_Serialize :: "Bloom \<Rightarrow> 8 word list \<Rightarrow> 8 word list" where
  "bloom_Serialize b buf =
     buf @ be64 (bf_cnt b) @ be64 (bo_errorRate (bf_opts b)) @ be64 (bo_capacity (bf_opts b)) @ be64 (bo_bits (bf_opts b)) @
     be64 (of_nat (length (bo_hashFnsSeeds (bf_opts b)))) @ concat (map be64 (bo_hashFnsSeeds (bf_opts b))) @
     be64 (of_nat (length (bo_indexes (bf_opts b)))) @ concat (map be64 (bo_indexes (bf_opts b))) @ bf_bitset b"

text \<open>A list of words with its length before it; too long a list panics in \<open>make\<close>, a short read is an error.\<close>

definition read_list :: "8 word list \<Rightarrow> (64 word list \<times> 8 word list) option outcome" where
  "read_list buf =
     (case read64 buf of
        None \<Rightarrow> Ret None
      | Some (n, buf1) \<Rightarrow> if alloc_ok 8 n then Ret (read_row (unat n) buf1) else Panic)"

definition DeserializeBloom :: "bloom_env \<Rightarrow> 8 word list \<Rightarrow> (string + Bloom) outcome" where
  "DeserializeBloom be buf =
     (case read_row 4 buf of
        None \<Rightarrow> Ret (Inl ''EOF'')
      | Some (hdr, buf1) \<Rightarrow>
          bind_outcome (read_list buf1) (\<lambda>seeds. case seeds of None \<Rightarrow> Ret (Inl ''EOF'')
          | Some (seeds, buf2) \<Rightarrow>
            bind_outcome (read_list buf2) (\<lambda>indexes. case indexes of None \<Rightarrow> Ret (Inl ''EOF'')
            | Some (indexes, buf3) \<Rightarrow>
                if \<not> alloc_ok 1 (hdr ! 3) then Panic
                else if buf3 = [] then Ret (Inl ''EOF'')
                else let n = unat (hdr ! 3) in
                  Ret (Inr \<lparr>bf_opts = \<lparr>bo_errorRate = hdr ! 1, bo_capacity = hdr ! 2, bo_bits = hdr ! 3,
                              bo_hashFns = map (be_murmur3 be) seeds, bo_bpe = be_bpe_read be (hdr ! 1),
                              bo_indexes = indexes, bo_hashFnsSeeds = seeds\<rparr>,
                            bf_bitset = take n buf3 @ replicate (n - length buf3) 0, bf_cnt = hdr ! 0\<rparr>))))"

end
