(* ===== verification/CountMinProps.thy ===== *)
theory CountMinProps
  imports CountMin
begin

text \<open>
  What a count-min sketch promises: every counter is the sum of the updates whose key falls on it, an estimate is
  the smallest such sum of the key's counters, merging is the weighted union of the streams, and the serialized
  form reads back when something follows it.
\<close>

unbundle bit_operations_syntax

section \<open>Positions, shapes and counters\<close>

definition pos :: "CountMinSketchOpts \<Rightarrow> string \<Rightarrow> nat \<Rightarrow> nat" where
  "pos opts key row = (case baseHashes key of (h1, h2) \<Rightarrow>
     unat ((ucast h1 + ucast h2 * of_nat row :: 64 word) mod cmo_width opts))"

definition cms_ok :: "CountMinSketch \<Rightarrow> bool" where
  "cms_ok c \<longleftrightarrow> cmo_width (cms_opts c) \<noteq> 0 \<and> length (cms_matrix c) = unat (cmo_depth (cms_opts c)) \<and>
     (\<forall>r\<in>set (cms_matrix c). length r = unat (cmo_width (cms_opts c)))"

abbreviation cell :: "CountMinSketch \<Rightarrow> nat \<Rightarrow> nat \<Rightarrow> 64 word" where
  "cell c row col \<equiv> cms_matrix c ! row ! col"

text \<open>The total that a stream of updates adds to a counter.\<close>

definition hits :: "CountMinSketchOpts \<Rightarrow> (string \<times> 64 word) list \<Rightarrow> nat \<Rightarrow> nat \<Rightarrow> 64 word" where
  "hits opts stream row col = sum_list (map (\<lambda>(k, n). if pos opts k row = col then n else 0) stream)"

text \<open>A sketch stands for a stream of updates.\<close>

definition sketches :: "(string \<times> 64 word) list \<Rightarrow> CountMinSketch \<Rightarrow> bool" where
  "sketches stream c \<longleftrightarrow> cms_ok c \<and> cms_count c = sum_list (map snd stream) \<and>
     (\<forall>row<unat (cmo_depth (cms_opts c)). \<forall>col<unat (cmo_width (cms_opts c)). cell c row col = hits (cms_opts c) stream row col)"

fun run_updates :: "(string \<times> 64 word) list \<Rightarrow> CountMinSketch \<Rightarrow> CountMinSketch outcome" where
  "run_updates [] c = Ret c"
| "run_updates ((k, n) # us) c = bind_outcome (updateMatrix k n c) (run_updates us)"

lemma pos_less: "cmo_width opts \<noteq> 0 \<Longrightarrow> pos opts k row < unat (cmo_width opts)"
  by (simp add: pos_def unat_mod unat_gt_0 split: prod.split)

lemma matrixPositions_eq:
  assumes "cmo_width opts \<noteq> 0"
  shows "\<exists>cols. matrixPositions opts k = Ret cols \<and> map unat cols = map (pos opts k) [0..<unat (cmo_depth opts)]"
  using assms by (auto simp: matrixPositions_def pos_def split: prod.split)

lemma update_rows_eq:
  assumes "length rows = length cols" and "\<And>i. i < length rows \<Longrightarrow> unat (cols ! i) < length (rows ! i)"
  shows "\<exists>rows'. update_rows rows cols n = Ret rows' \<and> length rows' = length rows \<and>
    (\<forall>i<length rows. rows' ! i = (rows ! i)[unat (cols ! i) := rows ! i ! unat (cols ! i) + n])"
  using assms
proof (induction rows cols n rule: update_rows.induct)
  case (3 r rows col cols n)
  from 3(3) [of 0] have r: "unat col < length r" by simp
  have "unat (cols ! i) < length (rows ! i)" if "i < length rows" for i using 3(3) [of "Suc i"] that by simp
  then obtain rows' where "update_rows rows cols n = Ret rows'" "length rows' = length rows"
    "\<forall>i<length rows. rows' ! i = (rows ! i)[unat (cols ! i) := rows ! i ! unat (cols ! i) + n]"
    using 3(1) [OF r] 3(2) by auto
  then show ?case using r by (auto simp: nth_Cons split: nat.split)
qed auto

lemma estimate_rows_eq:
  assumes "length rows = length cols" and "\<And>i. i < length rows \<Longrightarrow> unat (cols ! i) < length (rows ! i)"
  shows "estimate_rows rows cols n = Ret (Min (insert n ((\<lambda>i. rows ! i ! unat (cols ! i)) ` {..<length rows})))"
  using assms
proof (induction rows cols n rule: estimate_rows.induct)
  case (3 r rows col cols n)
  from 3(3) [of 0] have r: "unat col < length r" by simp
  have "unat (cols ! i) < length (rows ! i)" if "i < length rows" for i using 3(3) [of "Suc i"] that by simp
  note IH = 3(1) [OF r _ this]
  let ?S = "(\<lambda>i. rows ! i ! unat (cols ! i)) ` {..<length rows}"
  have S: "(\<lambda>i. (r # rows) ! i ! unat ((col # cols) ! i)) ` {..<length (r # rows)} = insert (r ! unat col) ?S"
    by (simp add: lessThan_Suc_eq_insert_0 image_image)
  have m: "(if r ! unat col < n then r ! unat col else n) = min n (r ! unat col)" by (auto simp: min_def not_less)
  have "Min (insert n (insert (r ! unat col) ?S)) = Min (insert (if r ! unat col < n then r ! unat col else n) ?S)"
    unfolding m by (cases "?S = {}") (simp_all add: min.assoc)
  then show ?case unfolding S using IH 3(2) r by simp
qed simp_all

lemma cms_ok_positions:
  assumes "cms_ok c"
  obtains cols where "matrixPositions (cms_opts c) k = Ret cols" "length cols = length (cms_matrix c)"
    "\<And>i. i < length (cms_matrix c) \<Longrightarrow> unat (cols ! i) = pos (cms_opts c) k i"
    "\<And>i. i < length (cms_matrix c) \<Longrightarrow> pos (cms_opts c) k i < length (cms_matrix c ! i)"
proof -
  have w: "cmo_width (cms_opts c) \<noteq> 0" and l: "length (cms_matrix c) = unat (cmo_depth (cms_opts c))"
    and r: "\<And>i. i < length (cms_matrix c) \<Longrightarrow> length (cms_matrix c ! i) = unat (cmo_width (cms_opts c))"
    using assms by (auto simp: cms_ok_def)
  obtain cols where c: "matrixPositions (cms_opts c) k = Ret cols"
    "map unat cols = map (pos (cms_opts c) k) [0..<unat (cmo_depth (cms_opts c))]"
    using matrixPositions_eq [OF w] by blast
  then have len: "length cols = unat (cmo_depth (cms_opts c))" by (metis length_map length_upt minus_nat.diff_0)
  have "unat (cols ! i) = pos (cms_opts c) k i" if "i < length cols" for i
    using arg_cong [OF c(2), of "\<lambda>xs. xs ! i"] that len by simp
  then show thesis using that [of cols] c(1) len l r pos_less [OF w] by simp
qed

section \<open>Operations on the stream\<close>

lemma update_sketches:
  assumes "sketches stream c"
  shows "\<exists>c'. updateMatrix k n c = Ret c' \<and> sketches (stream @ [(k, n)]) c' \<and> cms_opts c' = cms_opts c"
proof -
  have ok: "cms_ok c" using assms by (simp add: sketches_def)
  obtain cols where cols: "matrixPositions (cms_opts c) k = Ret cols" "length cols = length (cms_matrix c)"
    "\<And>i. i < length (cms_matrix c) \<Longrightarrow> unat (cols ! i) = pos (cms_opts c) k i"
    "\<And>i. i < length (cms_matrix c) \<Longrightarrow> pos (cms_opts c) k i < length (cms_matrix c ! i)"
    using cms_ok_positions [OF ok] by blast
  obtain m where m: "update_rows (cms_matrix c) cols n = Ret m" "length m = length (cms_matrix c)"
    "\<And>i. i < length (cms_matrix c) \<Longrightarrow>
      m ! i = (cms_matrix c ! i)[pos (cms_opts c) k i := cms_matrix c ! i ! pos (cms_opts c) k i + n]"
    using update_rows_eq [of "cms_matrix c" cols n] cols by auto
  have "length (cms_matrix c ! i) = unat (cmo_width (cms_opts c))" if "i < length (cms_matrix c)" for i
    using ok that by (auto simp: cms_ok_def)
  then have "cms_ok (c\<lparr>cms_matrix := m, cms_count := cms_count c + n\<rparr>)"
    using ok m by (auto simp: cms_ok_def in_set_conv_nth)
  then show ?thesis using assms m cols(1)
    by (auto simp: sketches_def updateMatrix_def hits_def nth_list_update cms_ok_def)
qed

lemma run_sketches:
  "sketches stream c \<Longrightarrow> \<exists>c'. run_updates us c = Ret c' \<and> sketches (stream @ us) c' \<and> cms_opts c' = cms_opts c"
proof (induction us arbitrary: stream c)
  case (Cons u us)
  obtain k n where u: "u = (k, n)" by fastforce
  obtain c1 where "updateMatrix k n c = Ret c1" "sketches (stream @ [(k, n)]) c1" "cms_opts c1 = cms_opts c"
    using update_sketches [OF Cons.prems] by blast
  with Cons.IH [of "stream @ [(k, n)]" c1] show ?case by (auto simp: u)
qed simp

lemma new_sketches:
  assumes "newCountMinSketch opts = Ret c" and "cmo_width opts \<noteq> 0"
  shows "sketches [] c \<and> cms_opts c = opts"
  using assms by (auto simp: newCountMinSketch_def sketches_def cms_ok_def hits_def split: if_splits)

lemma estimate_eq:
  assumes "sketches stream c" and "cmo_depth (cms_opts c) \<noteq> 0"
  shows "estimateCount k c = Ret (Min ((\<lambda>row. hits (cms_opts c) stream row (pos (cms_opts c) k row)) ` {..<unat (cmo_depth (cms_opts c))}))"
proof -
  have ok: "cms_ok c" using assms by (simp add: sketches_def)
  let ?S = "(\<lambda>row. hits (cms_opts c) stream row (pos (cms_opts c) k row)) ` {..<unat (cmo_depth (cms_opts c))}"
  obtain cols where cols: "matrixPositions (cms_opts c) k = Ret cols" "length cols = length (cms_matrix c)"
    "\<And>i. i < length (cms_matrix c) \<Longrightarrow> unat (cols ! i) = pos (cms_opts c) k i"
    "\<And>i. i < length (cms_matrix c) \<Longrightarrow> pos (cms_opts c) k i < length (cms_matrix c ! i)"
    using cms_ok_positions [OF ok] by blast
  have S: "(\<lambda>i. cms_matrix c ! i ! unat (cols ! i)) ` {..<length (cms_matrix c)} = ?S"
    using assms(1) cols(3) ok pos_less by (intro image_cong) (auto simp: sketches_def cms_ok_def)
  have "0 < unat (cmo_depth (cms_opts c))" using assms(2) by (simp add: unat_gt_0)
  then have "?S \<noteq> {}" "finite ?S" by auto
  moreover have "Min ?S \<le> - 1" by simp
  ultimately have "Min (insert (- 1) ?S) = Min ?S" by (simp add: Min_insert min_absorb2)
  moreover have "estimate_rows (cms_matrix c) cols (- 1) = Ret (Min (insert (- 1) ?S))"
    using estimate_rows_eq [of "cms_matrix c" cols "- 1"] cols(2-4) unfolding S by simp
  ultimately show ?thesis using cols(1) by (simp add: estimateCount_def)
qed

section \<open>Estimates\<close>

lemma unat_sum:
  "sum_list (map (\<lambda>x. unat (f x :: 64 word)) xs) < 2 ^ 64 \<Longrightarrow> unat (sum_list (map f xs)) = sum_list (map (\<lambda>x. unat (f x)) xs)"
proof (induction xs)
  case (Cons x xs)
  then show ?case by (simp add: unat_word_ariths)
qed simp

lemma hits_bounds:
  assumes "sum_list (map (\<lambda>u. unat (snd u)) us) < 2 ^ 64"
  shows "sum_list (map (\<lambda>u. unat (snd u)) (filter (\<lambda>u. fst u = k) us)) \<le> unat (hits opts us row (pos opts k row))"
    and "unat (hits opts us row col) \<le> sum_list (map (\<lambda>u. unat (snd u)) us)"
proof -
  have le: "sum_list (map (\<lambda>u. unat (case u of (k', n) \<Rightarrow> if pos opts k' row = col then n else 0)) us) \<le>
      sum_list (map (\<lambda>u. unat (snd u)) us)" for col
    by (rule sum_list_mono) (auto split: prod.split)
  have eq: "unat (hits opts us row col) = sum_list (map (\<lambda>u. unat (case u of (k', n) \<Rightarrow> if pos opts k' row = col then n else 0)) us)" for col
    unfolding hits_def by (rule unat_sum) (use le [of col] assms in linarith)
  show "unat (hits opts us row col) \<le> sum_list (map (\<lambda>u. unat (snd u)) us)" using le by (simp add: eq)
  show "sum_list (map (\<lambda>u. unat (snd u)) (filter (\<lambda>u. fst u = k) us)) \<le> unat (hits opts us row (pos opts k row))"
    unfolding eq by (induction us) (auto split: prod.split)
qed

text \<open>C33. After any updates of a new sketch whose increments sum to less than \<open>2 ^ 64\<close>, the estimate of a key is
  never below the total of its own increments and never above the total of all; it is the smallest, over the rows,
  of the totals of the updates whose keys fall on the key's counter of that row; and the sketch's count is the
  total of all increments.\<close>

theorem estimate_never_under:
  assumes "newCountMinSketch opts = Ret c0" and "cmo_width opts \<noteq> 0" and "cmo_depth opts \<noteq> 0"
    and "sum_list (map (\<lambda>u. unat (snd u)) us) < 2 ^ 64"
  shows "\<exists>c e. run_updates us c0 = Ret c \<and> estimateCount k c = Ret e \<and>
    sum_list (map (\<lambda>u. unat (snd u)) (filter (\<lambda>u. fst u = k) us)) \<le> unat e \<and>
    unat e \<le> sum_list (map (\<lambda>u. unat (snd u)) us) \<and>
    e = Min ((\<lambda>row. hits opts us row (pos opts k row)) ` {..<unat (cmo_depth opts)}) \<and>
    unat (cms_count c) = sum_list (map (\<lambda>u. unat (snd u)) us)"
proof -
  have new: "sketches [] c0" "cms_opts c0 = opts" using new_sketches assms(1,2) by auto
  obtain c where c: "run_updates us c0 = Ret c" "sketches us c" "cms_opts c = opts"
    using run_sketches [OF new(1), of us] new(2) by auto
  let ?S = "(\<lambda>row. hits opts us row (pos opts k row)) ` {..<unat (cmo_depth opts)}"
  have e: "estimateCount k c = Ret (Min ?S)" using estimate_eq [OF c(2)] assms(3) c(3) by simp
  have "0 < unat (cmo_depth opts)" using assms(3) by (simp add: unat_gt_0)
  then have "Min ?S \<in> ?S" by (intro Min_in) auto
  then obtain row where "Min ?S = hits opts us row (pos opts k row)" by blast
  moreover have "unat (cms_count c) = sum_list (map (\<lambda>u. unat (snd u)) us)"
    using c(2) unat_sum [of snd us] assms(4) by (simp add: sketches_def)
  ultimately show ?thesis using c(1) e hits_bounds [OF assms(4)] by metis
qed

section \<open>Merging\<close>

definition weigh :: "64 word \<Rightarrow> (string \<times> 64 word) list \<Rightarrow> (string \<times> 64 word) list" where
  "weigh w stream = map (\<lambda>(k, n). (k, w * n)) stream"

lemma hits_append: "hits opts (s @ t) row col = hits opts s row col + hits opts t row col"
  by (simp add: hits_def)

lemma hits_weigh: "hits opts (weigh w s) row col = w * hits opts s row col"
  by (induction s) (auto simp: hits_def weigh_def distrib_left)

lemma count_weigh: "sum_list (map snd (weigh w s)) = w * sum_list (map snd s)"
  by (induction s) (auto simp: weigh_def distrib_left)

lemma foldl_sum: "foldl (\<lambda>acc (w, c). acc + w * f c) a xs = a + sum_list (map (\<lambda>(w, c). w * f c) xs)"
  by (induction xs arbitrary: a) (auto simp: add.assoc)

lemma cms_DeepCopy_id:
  assumes "cms_ok c"
  shows "cms_DeepCopy c = c"
proof -
  have r: "length (cms_matrix c ! i) = unat (cmo_width (cms_opts c))" if "i < length (cms_matrix c)" for i
    using assms that by (auto simp: cms_ok_def)
  have "map (\<lambda>row. take (unat (cmo_width (cms_opts c))) (cms_matrix c ! row) @
      replicate (unat (cmo_width (cms_opts c)) - length (cms_matrix c ! row)) 0) [0..<length (cms_matrix c)] = cms_matrix c"
    by (rule nth_equalityI) (use r in auto)
  then show ?thesis using assms by (simp add: cms_DeepCopy_def cms_ok_def)
qed

text \<open>C34. Merging sketches of the same dimensions, each standing for a stream of updates, with a weight for each,
  gives a sketch that stands for the streams one after the other with their increments multiplied by the weights
  (modulo \<open>2 ^ 64\<close>), its count included; the destination may be among the sources, any number of times, and what
  it held before does not matter otherwise.\<close>

theorem merge_weighted_union:
  assumes "cms_ok c" and
    "\<forall>(src, w, key, stream)\<in>set xs. sketches stream src \<and> cms_opts src = cms_opts c \<and> (key = orig \<longrightarrow> src = c)"
  shows "sketches (concat (map (\<lambda>(src, w, key, stream). weigh w stream) xs))
    (mergeMatrices (map fst xs) (map (fst \<circ> snd) xs) orig (map (fst \<circ> snd \<circ> snd) xs) c)"
proof -
  have zip: "zip (map fst xs) (zip (map (fst \<circ> snd) xs) (map (fst \<circ> snd \<circ> snd) xs)) = map (\<lambda>(src, w, key, stream). (src, w, key)) xs"
    by (induction xs) auto
  have srcs: "map (merge_source c orig) (map (\<lambda>(src, w, key, stream). (src, w, key)) xs) = map (\<lambda>(src, w, key, stream). (w, src)) xs"
    using assms(2) by (auto simp: merge_source_def)
  have cell: "merge_cell (map (\<lambda>(src, w, key, stream). (w, src)) xs) row col =
      hits (cms_opts c) (concat (map (\<lambda>(src, w, key, stream). weigh w stream) xs)) row col"
    if "row < unat (cmo_depth (cms_opts c))" "col < unat (cmo_width (cms_opts c))" for row col
    unfolding merge_cell_def foldl_sum using assms(2) that
    by (induction xs) (auto simp: hits_append hits_weigh sketches_def, simp add: hits_def)
  have "sum_list (map (\<lambda>(w, c). w * cms_count c) (map (\<lambda>(src, w, key, stream). (w, src)) xs)) =
      sum_list (map snd (concat (map (\<lambda>(src, w, key, stream). weigh w stream) xs)))"
    using assms(2) by (induction xs) (auto simp: count_weigh sketches_def)
  then show ?thesis using assms(1) cell
    by (simp add: sketches_def mergeMatrices_def Let_def cms_DeepCopy_id zip srcs foldl_sum cms_ok_def del: map_map)
qed

section \<open>Creation\<close>

lemma row_fits_exact:
  assumes "\<And>r. r \<le> row \<Longrightarrow> row_fits opts r" and "row < 2 ^ 63"
  shows "unat ((of_nat row + 1) * cmo_width opts) = Suc row * unat (cmo_width opts)"
  using assms
proof (induction row)
  case (Suc row)
  let ?w = "cmo_width opts"
  have IH: "unat ((of_nat row + 1) * ?w) = Suc row * unat ?w" using Suc by simp
  have "row_fits opts (Suc row)" using Suc.prems by simp
  then have le: "(of_nat row + 1) * ?w \<le> (of_nat row + 1) * ?w + ?w" by (simp add: row_fits_def algebra_simps)
  then have "unat ((of_nat row + 1) * ?w + ?w) = unat ((of_nat row + 1) * ?w) + unat ?w"
    by (simp only: unat_plus_simple)
  moreover have "(of_nat (Suc row) + 1) * ?w = (of_nat row + 1) * ?w + ?w" by (simp add: algebra_simps)
  ultimately show ?case using IH by (metis add.commute mult_Suc)
qed simp

lemma small_arith: "8 * n \<le> 2 ^ 48 \<Longrightarrow> m \<le> n \<Longrightarrow> m < (2 ^ 64 :: nat) \<and> m * 8 < (2 ^ 63 :: nat)"
  by simp

lemma signed_small: "n < 2 ^ 63 \<Longrightarrow> signed_take_bit 63 (int n) = int n"
  by (rule signed_take_bit_int_eq_self) simp_all

text \<open>Creating a sketch with at least one row and one column returns exactly when its rows and its counters
  fit in the address space of \<open>2 ^ 48\<close> bytes, 24 bytes per row and 8 per counter; otherwise it panics, also when
  the product of the dimensions wraps around to a small number.\<close>

lemma creation_bounds:
  assumes "cmo_width opts \<noteq> 0" and "cmo_depth opts \<noteq> 0"
  shows "newCountMinSketch opts \<noteq> Panic \<longleftrightarrow>
    24 * unat (cmo_depth opts) \<le> 2 ^ 48 \<and> 8 * (unat (cmo_depth opts) * unat (cmo_width opts)) \<le> 2 ^ 48"
proof
  let ?d = "cmo_depth opts" and ?w = "cmo_width opts"
  assume "newCountMinSketch opts \<noteq> Panic"
  then have h: "24 * unat ?d \<le> 2 ^ 48" "8 * unat (?d * ?w) \<le> 2 ^ 48" "\<forall>row<unat ?d. row_fits opts row"
    by (auto simp: newCountMinSketch_def alloc_ok_def list_all_iff split: if_splits)
  have d: "0 < unat ?d" using assms(2) by (simp add: unat_gt_0)
  have "unat ((of_nat (unat ?d - 1) + 1) * ?w) = Suc (unat ?d - 1) * unat ?w"
    by (rule row_fits_exact) (use h d in auto)
  moreover have "(of_nat (unat ?d - 1) + 1 :: 64 word) = ?d" using d by (simp add: of_nat_diff)
  ultimately have "unat (?d * ?w) = unat ?d * unat ?w" using d by simp
  then show "24 * unat ?d \<le> 2 ^ 48 \<and> 8 * (unat ?d * unat ?w) \<le> 2 ^ 48" using h by simp
next
  let ?d = "cmo_depth opts" and ?w = "cmo_width opts"
  assume h: "24 * unat ?d \<le> 2 ^ 48 \<and> 8 * (unat ?d * unat ?w) \<le> 2 ^ 48"
  have small: "unat (of_nat r * ?w) = r * unat ?w" if "r \<le> unat ?d" for r
  proof -
    have "r * unat ?w \<le> unat ?d * unat ?w" using that by simp
    from small_arith [OF conjunct2 [OF h] this] have "r * unat ?w < 2 ^ 64" ..
    moreover have "r < 2 ^ 64" using that by (rule le_less_trans) (use unsigned_less [of ?d] in simp)
    ultimately show ?thesis by (simp add: unat_word_ariths unat_of_nat take_bit_eq_mod)
  qed
  have "row_fits opts r" if "r < unat ?d" for r
  proof -
    have "unat (of_nat (Suc r) * ?w) = Suc r * unat ?w" by (rule small) (use that in simp)
    moreover have "unat (of_nat r * ?w) = r * unat ?w" by (rule small) (use that in simp)
    moreover have "unat (?d * ?w) = unat ?d * unat ?w" using small [of "unat ?d"] by simp
    moreover have "Suc r * unat ?w \<le> unat ?d * unat ?w" using that by (intro mult_le_mono1) simp
    ultimately show ?thesis by (simp add: row_fits_def word_le_nat_alt add.commute)
  qed
  then show "newCountMinSketch opts \<noteq> Panic"
    using h small [of "unat ?d"] by (simp add: newCountMinSketch_def alloc_ok_def list_all_iff)
qed

section \<open>The serialized form\<close>

lemma length_be64 [simp]: "length (be64 w) = 8"
  by (simp add: be64_def)

lemma be64_roundtrip [simp]: "of_be64 (be64 w) = w"
proof (rule bit_word_eqI)
  fix n assume "n < LENGTH(64)"
  then consider "n < 8" | "8 \<le> n" "n < 16" | "16 \<le> n" "n < 24" | "24 \<le> n" "n < 32" | "32 \<le> n" "n < 40"
    | "40 \<le> n" "n < 48" | "48 \<le> n" "n < 56" | "56 \<le> n" "n < 64" by force
  then show "bit (of_be64 (be64 w)) n = bit w n"
    by cases (auto simp: be64_def of_be64_def bit_simps)
qed


lemma read_row_be64: "read_row (length ws) (concat (map be64 ws) @ rest) = Some (ws, rest)"
  by (induction ws) (simp_all add: read64_def)

lemma read_rows_be64:
  "\<forall>r\<in>set m. length r = w \<Longrightarrow> read_rows (length m) w (concat (map (\<lambda>r. concat (map be64 r)) m) @ rest) = Some (m, rest)"
proof (induction m)
  case (Cons r m)
  then show ?case using read_row_be64 [of r "concat (map (\<lambda>r. concat (map be64 r)) m) @ rest"] by simp
qed simp

lemma length_rows: "\<forall>r\<in>set m. length r = w \<Longrightarrow> length (concat (map (\<lambda>r. concat (map be64 r)) m)) = length m * (8 * w)"
  by (induction m) (auto simp: length_concat comp_def sum_list_triv)

text \<open>C35. Reading back the serialized form of a sketch that fits in the address space gives the sketch when at
  least one byte follows it, and the error of a size mismatch when nothing follows it.\<close>

theorem cms_roundtrip:
  assumes "cms_ok c" and "24 * unat (cmo_depth (cms_opts c)) \<le> 2 ^ 48" and "cmo_depth (cms_opts c) \<noteq> 0"
    and "8 * (unat (cmo_depth (cms_opts c)) * unat (cmo_width (cms_opts c))) \<le> 2 ^ 48"
  shows "\<exists>bytes. cms_serialize (Some c) [] = Inr bytes \<and>
    DeserializeCMS bytes = Ret (Inl ''data size mismatch with expected matrix size'') \<and>
    (\<forall>x rest. DeserializeCMS (bytes @ x # rest) = Ret (Inr c))"
proof -
  let ?o = "cms_opts c"
  let ?d = "cmo_depth ?o" and ?w = "cmo_width ?o"
  let ?rows = "concat (map (\<lambda>r. concat (map be64 r)) (cms_matrix c))"
  have m: "length (cms_matrix c) = unat ?d" "\<forall>r\<in>set (cms_matrix c). length r = unat ?w" "?w \<noteq> 0"
    using assms(1) by (auto simp: cms_ok_def)
  have "newCountMinSketch ?o \<noteq> Panic" using creation_bounds [OF m(3) assms(3)] assms(2,4) by simp
  then have fits: "alloc_ok 24 ?d \<and> alloc_ok 8 (?d * ?w) \<and> list_all (row_fits ?o) [0..<unat ?d]"
    by (simp add: newCountMinSketch_def split: if_splits)
  have u: "unat ?d * unat ?w * 8 < 2 ^ 63" using small_arith [OF assms(4) order_refl] ..
  have "unat (?d * ?w * 8) = unat ?d * unat ?w * 8"
    using u by (simp add: unat_word_ariths mod_mult_left_eq)
  then have "uint (?d * ?w * 8) = int (unat ?d * unat ?w * 8)" by (metis uint_nat)
  then have size: "sint (?d * ?w * 8) = int (unat ?d * unat ?w * 8)"
    using signed_small [OF u] by (simp only: sint_uint) simp
  have len: "length ?rows = unat ?d * unat ?w * 8" using length_rows [OF m(2)] m(1) by simp
  have o: "\<lparr>cmo_depth = ?d, cmo_width = ?w\<rparr> = ?o" by simp
  have ser: "cms_serialize (Some c) [] = Inr (be64 ?d @ be64 ?w @ be64 (cms_count c) @ ?rows)" by (simp add: cms_serialize_def)
  have read: "DeserializeCMS (be64 ?d @ be64 ?w @ be64 (cms_count c) @ ?rows @ rest) =
      (if rest = [] then Ret (Inl ''data size mismatch with expected matrix size'') else Ret (Inr c))" for rest
    using fits read_rows_be64 [OF m(2), of rest] len size m(1) by (simp add: DeserializeCMS_def Let_def o)
  show ?thesis unfolding ser using read [of "[]"] read [of "x # rest" for x rest] by simp
qed

section \<open>Instances\<close>

definition tiny :: CountMinSketchOpts where
  "tiny = \<lparr>cmo_depth = 2, cmo_width = 3\<rparr>"

definition tiny_sketch :: CountMinSketch where
  "tiny_sketch = \<lparr>cms_opts = tiny, cms_matrix = [[0, 0, 0], [0, 0, 0]], cms_count = 0\<rparr>"

lemma tiny_new: "newCountMinSketch tiny = Ret tiny_sketch"
proof -
  have "replicate 2 x = [x, x]" "replicate 3 y = [y, y, y]" for x :: "64 word list" and y :: "64 word"
    by (simp_all add: numeral_eq_Suc)
  moreover have "[0..<2] = [0, 1]" by (simp add: upt_rec)
  ultimately show ?thesis by (simp add: newCountMinSketch_def tiny_def tiny_sketch_def alloc_ok_def row_fits_def)
qed

theorem estimate_never_under_witness:
  "\<exists>c e. run_updates [(''a'', 5), (''b'', 7)] tiny_sketch = Ret c \<and> estimateCount ''a'' c = Ret e \<and> 5 \<le> unat e \<and> unat e \<le> 12"
proof -
  have "cmo_width tiny \<noteq> 0" "cmo_depth tiny \<noteq> 0" by (simp_all add: tiny_def)
  from estimate_never_under [OF tiny_new this, of "[(''a'', 5), (''b'', 7)]" "''a''"] show ?thesis by auto
qed

theorem merge_weighted_union_witness:
  "\<exists>c1. run_updates [(''a'', 3)] tiny_sketch = Ret c1 \<and>
    sketches [(''a'', 6), (''a'', 15)] (mergeMatrices [c1, tiny_sketch, c1] [2, 9, 5] ''d'' [''s'', ''d'', ''s''] tiny_sketch)"
proof -
  have new: "sketches [] tiny_sketch \<and> cms_opts tiny_sketch = tiny" by (rule new_sketches [OF tiny_new]) (simp add: tiny_def)
  then obtain c1 where c1: "run_updates [(''a'', 3)] tiny_sketch = Ret c1" "sketches [(''a'', 3)] c1" "cms_opts c1 = tiny"
    using run_sketches [of "[]" tiny_sketch "[(''a'', 3)]"] by auto
  define xs :: "(CountMinSketch \<times> 64 word \<times> string \<times> (string \<times> 64 word) list) list"
    where "xs = [(c1, 2, ''s'', [(''a'', 3)]), (tiny_sketch, 9, ''d'', []), (c1, 5, ''s'', [(''a'', 3)])]"
  have "cms_ok tiny_sketch" using new by (simp add: sketches_def)
  moreover have "\<forall>(src, w, key, stream)\<in>set xs. sketches stream src \<and> cms_opts src = cms_opts tiny_sketch \<and> (key = ''d'' \<longrightarrow> src = tiny_sketch)"
    using new c1 by (simp add: xs_def)
  ultimately have "sketches (concat (map (\<lambda>(src, w, key, stream). weigh w stream) xs))
      (mergeMatrices (map fst xs) (map (fst \<circ> snd) xs) ''d'' (map (fst \<circ> snd \<circ> snd) xs) tiny_sketch)"
    by (rule merge_weighted_union)
  then show ?thesis using c1(1) by (simp add: weigh_def xs_def)
qed

theorem creation_bounds_witness: "newCountMinSketch \<lparr>cmo_depth = 2 ^ 32, cmo_width = 2 ^ 32\<rparr> = Panic"
  using creation_bounds [of "\<lparr>cmo_depth = 2 ^ 32, cmo_width = 2 ^ 32\<rparr>"] by auto

theorem cms_roundtrip_witness:
  "\<exists>bytes. cms_serialize (Some tiny_sketch) [] = Inr bytes \<and> DeserializeCMS (bytes @ [0]) = Ret (Inr tiny_sketch)"
proof -
  have "cms_ok tiny_sketch" by (simp add: cms_ok_def tiny_sketch_def tiny_def)
  moreover have "24 * unat (cmo_depth (cms_opts tiny_sketch)) \<le> 2 ^ 48" "cmo_depth (cms_opts tiny_sketch) \<noteq> 0"
    "8 * (unat (cmo_depth (cms_opts tiny_sketch)) * unat (cmo_width (cms_opts tiny_sketch))) \<le> 2 ^ 48"
    by (simp_all add: tiny_sketch_def tiny_def)
  ultimately show ?thesis using cms_roundtrip [of tiny_sketch] by blast
qed

end
