(* ===== verification/BloomProps.thy ===== *)
theory BloomProps
  imports BloomFilter CountMinProps
begin

text \<open>
  A bloom filter never denies a value that was added to it, also after it was written out and read back; a copy
  that is written out and read back has lost its hash functions.
\<close>

unbundle bit_operations_syntax

section \<open>Bits\<close>

text \<open>The bit at a place.\<close>

definition place :: "64 word \<Rightarrow> nat \<times> nat" where
  "place b = (unat (b div 8), 7 - unat (b mod 8))"

lemma isBitSet_iff: "isBitSet buf b \<longleftrightarrow> fst (place b) < length buf \<and> bit (buf ! fst (place b)) (snd (place b))"
proof -
  have "unat (b mod 8) < 8" using word_mod_less_divisor [of 8 b] by (simp add: word_less_nat_alt)
  then have o: "7 - unat (b mod 8) < 8" by simp
  have "x AND push_bit n 1 = push_bit n 1 \<longleftrightarrow> bit x n" if "n < 8" for x :: "8 word" and n
  proof
    assume "x AND push_bit n 1 = push_bit n 1"
    then have "bit (x AND push_bit n 1) n = bit (push_bit n (1 :: 8 word)) n" by simp
    then show "bit x n" using that by (simp add: bit_simps)
  qed (rule bit_word_eqI, auto simp: bit_simps)
  with o show ?thesis by (auto simp: isBitSet_def place_def Let_def)
qed

lemma setBit_sets:
  assumes "unat b < 8 * length buf"
  shows "isBitSet (setBit buf b) b"
proof -
  have "unat (b mod 8) < 8" using word_mod_less_divisor [of 8 b] by (simp add: word_less_nat_alt)
  moreover have "unat (b div 8) < length buf" using assms by (simp add: unat_div less_mult_imp_div_less mult.commute)
  moreover have "7 - unat (b mod 8) < 8" by simp
  ultimately show ?thesis by (simp add: isBitSet_iff setBit_def place_def Let_def bit_simps)
qed

lemma setBit_keeps: "isBitSet buf c \<Longrightarrow> isBitSet (setBit buf b) c"
  by (auto simp: isBitSet_iff setBit_def place_def Let_def bit_simps nth_list_update)

lemma length_setBit [simp]: "length (setBit buf b) = length buf"
  by (simp add: setBit_def Let_def)

lemma add_loop_spec:
  assumes "\<forall>v\<in>set vs. unat v < 8 * length buf" and "add_loop vs n buf = (m, buf')"
  shows "length buf' = length buf \<and> (\<forall>v\<in>set vs. isBitSet buf' v) \<and> (\<forall>c. isBitSet buf c \<longrightarrow> isBitSet buf' c) \<and>
    m \<le> n + length vs \<and> (m = n + length vs \<longleftrightarrow> buf' = buf)"
  using assms
proof (induction vs n buf rule: add_loop.induct)
  case (2 v vs n buf)
  show ?case
  proof (cases "isBitSet buf v")
    case True
    with 2(1) [OF True] 2(3,4) show ?thesis by auto
  next
    case False
    have set: "isBitSet (setBit buf v) v" using 2(3) by (simp add: setBit_sets)
    have IH: "length buf' = length buf" "\<forall>v\<in>set vs. isBitSet buf' v" "\<forall>c. isBitSet (setBit buf v) c \<longrightarrow> isBitSet buf' c"
      "m \<le> n + length vs"
      using 2(2) [OF False] 2(3,4) False by auto
    then have "isBitSet buf' v" using set by simp
    then have "buf' \<noteq> buf" using False by auto
    then show ?thesis using IH \<open>isBitSet buf' v\<close> setBit_keeps by auto
  qed
qed simp

section \<open>No false negatives\<close>

definition bloom_ok :: "Bloom \<Rightarrow> bool" where
  "bloom_ok b \<longleftrightarrow> bo_bits (bf_opts b) \<noteq> 0 \<and> unat (bo_bits (bf_opts b)) \<le> 8 * length (bf_bitset b) \<and>
     length (bo_indexes (bf_opts b)) = length (bo_hashFns (bf_opts b))"

text \<open>The bits of a value are set.\<close>

definition holds_value :: "Bloom \<Rightarrow> string \<Rightarrow> bool" where
  "holds_value b v \<longleftrightarrow> (\<forall>fn\<in>set (bo_hashFns (bf_opts b)). isBitSet (bf_bitset b) (fn v mod bo_bits (bf_opts b)))"

lemma updateIndexes_ok:
  assumes "bloom_ok b"
  shows "updateIndexes v (bf_opts b) = Ret ((bf_opts b)\<lparr>bo_indexes := map (\<lambda>fn. fn v mod bo_bits (bf_opts b)) (bo_hashFns (bf_opts b))\<rparr>)"
  using assms by (simp add: updateIndexes_def bloom_ok_def)

lemma exists_eq:
  assumes "bloom_ok b" and "v \<noteq> []"
  shows "\<exists>b'. bloom_exists v b = Ret (Inr (if holds_value b v then 1 else 0), b')"
  using assms updateIndexes_ok [OF assms(1)] by (auto simp: bloom_exists_def holds_value_def list_all_iff)

lemma add_eq:
  assumes "bloom_ok b" and "v \<noteq> []"
  shows "\<exists>b'. bloom_add v b = Ret (Inr (if holds_value b v then 0 else 1), b') \<and> bloom_ok b' \<and> holds_value b' v \<and>
    (\<forall>w. holds_value b w \<longrightarrow> holds_value b' w) \<and> bo_hashFns (bf_opts b') = bo_hashFns (bf_opts b) \<and>
    bf_cnt b' = bf_cnt b + (if holds_value b v then 0 else 1)"
proof -
  let ?idx = "map (\<lambda>fn. fn v mod bo_bits (bf_opts b)) (bo_hashFns (bf_opts b))"
  obtain m buf where loop: "add_loop ?idx 0 (bf_bitset b) = (m, buf)" by fastforce
  have "unat (x mod bo_bits (bf_opts b)) < 8 * length (bf_bitset b)" for x
  proof -
    have "unat (x mod bo_bits (bf_opts b)) < unat (bo_bits (bf_opts b))"
      using assms(1) by (simp add: bloom_ok_def unat_mod unat_gt_0)
    then show ?thesis using assms(1) by (simp add: bloom_ok_def)
  qed
  then have range: "\<forall>i\<in>set ?idx. unat i < 8 * length (bf_bitset b)" by auto
  note spec = add_loop_spec [OF range loop]
  have "m = length ?idx \<longleftrightarrow> holds_value b v"
  proof
    assume "m = length ?idx"
    then have "buf = bf_bitset b" using spec by simp
    then show "holds_value b v" using spec by (auto simp: holds_value_def)
  next
    have all: "(\<forall>i\<in>set is. isBitSet (bf_bitset b) i) \<Longrightarrow> add_loop is n (bf_bitset b) = (n + length is, bf_bitset b)" for "is" n
      by (induction "is" arbitrary: n) auto
    assume "holds_value b v"
    then show "m = length ?idx" using all [of ?idx 0] loop by (auto simp: holds_value_def)
  qed
  then show ?thesis using assms updateIndexes_ok [OF assms(1), of v] loop spec
    by (auto simp: bloom_add_def Let_def bloom_ok_def holds_value_def)
qed

fun add_all :: "string list \<Rightarrow> Bloom \<Rightarrow> Bloom outcome" where
  "add_all [] b = Ret b"
| "add_all (v # vs) b = bind_outcome (bloom_add v b) (\<lambda>(r, b'). add_all vs b')"

lemma add_all_holds:
  "bloom_ok b \<Longrightarrow> [] \<notin> set vs \<Longrightarrow> \<exists>b'. add_all vs b = Ret b' \<and> bloom_ok b' \<and> (\<forall>w. w \<in> set vs \<or> holds_value b w \<longrightarrow> holds_value b' w)"
proof (induction vs arbitrary: b)
  case (Cons v vs)
  then obtain r b1 where b1: "bloom_add v b = Ret (r, b1)" "bloom_ok b1" "holds_value b1 v" "\<forall>w. holds_value b w \<longrightarrow> holds_value b1 w"
    using add_eq [of b v] by auto
  with Cons.IH [OF b1(2)] Cons.prems(2) show ?case by fastforce
qed simp

lemma new_ok:
  assumes "NewBloomFilter be opts = Ret b" and "be_bits be (nat (be_k be (be_bpe be (bo_errorRate opts)))) (bo_capacity opts) \<noteq> 0"
  shows "bloom_ok b"
proof -
  let ?bits = "be_bits be (nat (be_k be (be_bpe be (bo_errorRate opts)))) (bo_capacity opts)"
  define n where "n = (if ?bits mod 8 = 0 then ?bits div 8 else ?bits div 8 + 1)"
  have b: "alloc_ok 1 n" "bo_bits (bf_opts b) = n * 8" "length (bf_bitset b) = unat n"
    "length (bo_indexes (bf_opts b)) = length (bo_hashFns (bf_opts b))"
    using assms(1) by (auto simp: NewBloomFilter_def Let_def n_def split: if_splits)
  have u: "unat (n * 8) = unat n * 8" using b(1) by (simp add: alloc_ok_def unat_word_ariths)
  have small: "unat (?bits div 8) < 2 ^ 61" using unsigned_less [of ?bits, where 'a = nat] by (simp add: unat_div)
  have d: "unat (?bits div 8) = unat ?bits div 8" by (simp add: unat_div)
  have e: "unat (?bits div 8 + 1) = unat ?bits div 8 + 1" using small by (simp only: unat_word_ariths(1) d) simp
  have "0 < unat ?bits" using assms(2) by (simp add: unat_gt_0)
  have "unat n = (if unat ?bits mod 8 = 0 then unat ?bits div 8 else unat ?bits div 8 + 1)"
    unfolding n_def using e by (simp add: word_unat_eq_iff unat_mod unat_div)
  moreover have "unat ?bits mod 8 = 0 \<Longrightarrow> 0 < unat ?bits div 8" using \<open>0 < unat ?bits\<close> by (auto simp: div_greater_zero_iff dest: dvd_imp_le)
  ultimately have "0 < unat n" by auto
  then have "bo_bits (bf_opts b) \<noteq> 0" using u b(2) by (metis mult_is_0 nat_neq_iff unsigned_0 zero_neq_numeral)
  then show ?thesis using b u by (simp add: bloom_ok_def)
qed

text \<open>C36. A value that was added to a filter is never denied: after any additions of non-empty values to a new filter
  of at least one bit, testing each of them answers 1, and adding it once more answers 0 and changes neither the
  bits nor the count.\<close>

theorem bloom_no_false_negatives:
  assumes "NewBloomFilter be opts = Ret b0" and "be_bits be (nat (be_k be (be_bpe be (bo_errorRate opts)))) (bo_capacity opts) \<noteq> 0"
    and "[] \<notin> set vs"
  shows "\<exists>b. add_all vs b0 = Ret b \<and> (\<forall>v\<in>set vs. (\<exists>b'. bloom_exists v b = Ret (Inr 1, b')) \<and>
    (\<exists>b'. bloom_add v b = Ret (Inr 0, b') \<and> bf_cnt b' = bf_cnt b \<and> bf_bitset b' = bf_bitset b))"
proof -
  obtain b where b: "add_all vs b0 = Ret b" "bloom_ok b" "\<forall>v\<in>set vs. holds_value b v"
    using add_all_holds [OF new_ok [OF assms(1,2)] assms(3)] by blast
  have "(\<exists>b'. bloom_exists v b = Ret (Inr 1, b')) \<and>
      (\<exists>b'. bloom_add v b = Ret (Inr 0, b') \<and> bf_cnt b' = bf_cnt b \<and> bf_bitset b' = bf_bitset b)" if "v \<in> set vs" for v
  proof -
    have v: "v \<noteq> []" "holds_value b v" using that assms(3) b(3) by auto
    have "add_loop is n (bf_bitset b) = (n + length is, bf_bitset b)" if "\<forall>i\<in>set is. isBitSet (bf_bitset b) i" for "is" n
      using that by (induction "is" arbitrary: n) auto
    then show ?thesis using v exists_eq [OF b(2) v(1)] updateIndexes_ok [OF b(2), of v]
      by (simp add: bloom_add_def Let_def holds_value_def)
  qed
  then show ?thesis using b(1) by blast
qed

section \<open>Writing out and reading back\<close>

lemma read_list_be64:
  assumes "8 * length ws \<le> 2 ^ 48"
  shows "read_list (be64 (of_nat (length ws)) @ concat (map be64 ws) @ rest) = Ret (Some (ws, rest))"
proof -
  have "unat (of_nat (length ws) :: 64 word) = length ws" using assms by (simp add: unat_of_nat take_bit_eq_mod)
  then show ?thesis using assms read_row_be64 [of ws rest] by (simp add: read_list_def read64_def alloc_ok_def)
qed

lemma isBitSet_padded: "isBitSet (buf @ replicate n 0) = isBitSet buf"
  by (auto simp: isBitSet_iff nth_append fun_eq_iff)

lemma bloom_read:
  assumes "8 * length (bo_hashFnsSeeds (bf_opts b)) \<le> 2 ^ 48" and "8 * length (bo_indexes (bf_opts b)) \<le> 2 ^ 48"
    and "unat (bo_bits (bf_opts b)) \<le> 2 ^ 48" and "bf_bitset b \<noteq> []" and "length (bf_bitset b) \<le> unat (bo_bits (bf_opts b))"
  shows "\<exists>n. DeserializeBloom be (bloom_Serialize b []) = Ret (Inr \<lparr>bf_opts = (bf_opts b)\<lparr>
      bo_hashFns := map (be_murmur3 be) (bo_hashFnsSeeds (bf_opts b)), bo_bpe := be_bpe_read be (bo_errorRate (bf_opts b))\<rparr>,
      bf_bitset = bf_bitset b @ replicate n 0, bf_cnt = bf_cnt b\<rparr>)"
proof -
  let ?o = "bf_opts b"
  let ?rest = "be64 (of_nat (length (bo_hashFnsSeeds ?o))) @ concat (map be64 (bo_hashFnsSeeds ?o)) @
     be64 (of_nat (length (bo_indexes ?o))) @ concat (map be64 (bo_indexes ?o)) @ bf_bitset b"
  have "read_row 4 (bloom_Serialize b []) = Some ([bf_cnt b, bo_errorRate ?o, bo_capacity ?o, bo_bits ?o], ?rest)"
    using read_row_be64 [of "[bf_cnt b, bo_errorRate ?o, bo_capacity ?o, bo_bits ?o]" ?rest]
    by (simp add: bloom_Serialize_def numeral_eq_Suc del: read_row.simps)
  then show ?thesis using assms read_list_be64 [OF assms(1)] read_list_be64 [OF assms(2), of "bf_bitset b"]
    by (cases ?o) (auto simp: DeserializeBloom_def alloc_ok_def)
qed

text \<open>C37. A filter whose hash functions are the seeded ones, written out and read back, answers every test as before.
  A deep copy of it written out and read back has no hash functions any more: it answers every test with what the
  bits of the value used last before the copy say, whatever the value.\<close>

theorem bloom_dump_restore:
  assumes "bloom_ok b" and "bo_hashFns (bf_opts b) = map (be_murmur3 be) (bo_hashFnsSeeds (bf_opts b))"
    and "8 * length (bo_hashFnsSeeds (bf_opts b)) \<le> 2 ^ 48" and "unat (bo_bits (bf_opts b)) \<le> 2 ^ 48"
    and "unat (bo_bits (bf_opts b)) = 8 * length (bf_bitset b)"
  shows "\<exists>b1 b2. DeserializeBloom be (bloom_Serialize b []) = Ret (Inr b1) \<and>
    DeserializeBloom be (bloom_Serialize (bloom_DeepCopy b) []) = Ret (Inr b2) \<and>
    (\<forall>v. v = [] \<or> map_outcome fst (bloom_exists v b1) = map_outcome fst (bloom_exists v b)) \<and>
    (\<forall>v. v = [] \<or> map_outcome fst (bloom_exists v b2) =
       Ret (Inr (if list_all (isBitSet (bf_bitset b)) (bo_indexes (bf_opts b)) then 1 else 0)))"
proof -
  let ?o = "bf_opts b"
  have ne: "bf_bitset b \<noteq> []" "length (bf_bitset b) \<le> unat (bo_bits ?o)" using assms(1,5) by (auto simp: bloom_ok_def unat_eq_0)
  have idx: "8 * length (bo_indexes ?o) \<le> 2 ^ 48" using assms(1-3) by (simp add: bloom_ok_def)
  obtain n where 1: "DeserializeBloom be (bloom_Serialize b []) = Ret (Inr \<lparr>bf_opts = ?o\<lparr>
      bo_hashFns := map (be_murmur3 be) (bo_hashFnsSeeds ?o), bo_bpe := be_bpe_read be (bo_errorRate ?o)\<rparr>,
      bf_bitset = bf_bitset b @ replicate n 0, bf_cnt = bf_cnt b\<rparr>)" (is "_ = Ret (Inr ?b1)")
    using bloom_read [OF assms(3) idx assms(4) ne] by blast
  let ?c = "bloom_DeepCopy b"
  have c: "8 * length (bo_hashFnsSeeds (bf_opts ?c)) \<le> 2 ^ 48" "8 * length (bo_indexes (bf_opts ?c)) \<le> 2 ^ 48"
    "unat (bo_bits (bf_opts ?c)) \<le> 2 ^ 48" "bf_bitset ?c \<noteq> []" "length (bf_bitset ?c) \<le> unat (bo_bits (bf_opts ?c))"
    using idx assms(4) ne by (simp_all add: bloom_DeepCopy_def)
  obtain m where 2: "DeserializeBloom be (bloom_Serialize ?c []) = Ret (Inr \<lparr>bf_opts = (bf_opts ?c)\<lparr>
      bo_hashFns := map (be_murmur3 be) (bo_hashFnsSeeds (bf_opts ?c)), bo_bpe := be_bpe_read be (bo_errorRate (bf_opts ?c))\<rparr>,
      bf_bitset = bf_bitset ?c @ replicate m 0, bf_cnt = bf_cnt ?c\<rparr>)" (is "_ = Ret (Inr ?b2)")
    using bloom_read [OF c] by blast
  have same: "map_outcome fst (bloom_exists v ?b1) = map_outcome fst (bloom_exists v b)" for v
    using assms(1,2) by (auto simp: bloom_exists_def updateIndexes_def bloom_ok_def isBitSet_padded)
  have stale: "map_outcome fst (bloom_exists v ?b2) =
      Ret (Inr (if list_all (isBitSet (bf_bitset b)) (bo_indexes ?o) then 1 else 0))" if "v \<noteq> []" for v
    using that by (auto simp: bloom_exists_def updateIndexes_def bloom_DeepCopy_def isBitSet_padded)
  show ?thesis
    by (rule exI [of _ ?b1], rule exI [of _ ?b2]) (use 1 2 same stale in blast)
qed

section \<open>Instances\<close>

text \<open>An environment with two hash functions over sixteen bits.\<close>

definition small_env :: bloom_env where
  "small_env = \<lparr>fe_ParseFloat = (\<lambda>s. Some 0), fe_le_0 = (\<lambda>x. False), fe_ge_1 = (\<lambda>x. False), fe_ceil_e_div = id, fe_ceil_log_inv = id,
     be_bpe = id, be_k = (\<lambda>x. 2), be_bits = (\<lambda>k c. 16), be_bpe_read = id, be_defaultErrorRate = 0,
     be_murmur3 = (\<lambda>seed v. seed + of_nat (length v)), be_rand = of_nat\<rparr>"

definition small_filter :: Bloom where
  "small_filter = \<lparr>bf_opts = \<lparr>bo_errorRate = 0, bo_capacity = 1024, bo_bits = 16, bo_hashFns = [be_murmur3 small_env 0, be_murmur3 small_env 1],
     bo_bpe = 0, bo_indexes = [0, 0], bo_hashFnsSeeds = [0, 1]\<rparr>, bf_bitset = [0, 0], bf_cnt = 0\<rparr>"

lemma small_new: "NewBloomFilter small_env (defaultBloomOpts small_env) = Ret small_filter"
proof -
  have "replicate 2 x = [x, x]" for x :: "8 word" by (simp add: numeral_eq_Suc)
  moreover have "replicate 2 x = [x, x]" for x :: "64 word" by (simp add: numeral_eq_Suc)
  moreover have "[0..<2] = [0, 1]" by (simp add: upt_rec)
  ultimately show ?thesis
    by (simp add: NewBloomFilter_def defaultBloomOpts_def raw_opts_def small_env_def small_filter_def alloc_ok_def Let_def)
qed

theorem bloom_no_false_negatives_witness:
  "\<exists>b. add_all [''a'', ''bc''] small_filter = Ret b \<and> (\<exists>b'. bloom_exists ''a'' b = Ret (Inr 1, b'))"
proof -
  have "be_bits small_env (nat (be_k small_env (be_bpe small_env (bo_errorRate (defaultBloomOpts small_env)))))
      (bo_capacity (defaultBloomOpts small_env)) \<noteq> 0" by (simp add: small_env_def)
  from bloom_no_false_negatives [OF small_new this, of "[''a'', ''bc'']"] show ?thesis by auto
qed

theorem bloom_dump_restore_witness:
  "\<exists>b2. DeserializeBloom small_env (bloom_Serialize (bloom_DeepCopy small_filter) []) = Ret (Inr b2) \<and>
    map_outcome fst (bloom_exists ''a'' b2) = Ret (Inr 0)"
proof -
  have h: "bloom_ok small_filter" "bo_hashFns (bf_opts small_filter) = map (be_murmur3 small_env) (bo_hashFnsSeeds (bf_opts small_filter))"
    "8 * length (bo_hashFnsSeeds (bf_opts small_filter)) \<le> 2 ^ 48" "unat (bo_bits (bf_opts small_filter)) \<le> 2 ^ 48"
    "unat (bo_bits (bf_opts small_filter)) = 8 * length (bf_bitset small_filter)"
    by (simp_all add: bloom_ok_def small_filter_def)
  have "\<not> list_all (isBitSet (bf_bitset small_filter)) (bo_indexes (bf_opts small_filter))"
    by (simp add: small_filter_def isBitSet_def)
  with bloom_dump_restore [OF h] show ?thesis by fastforce
qed

end
