(* ===== verification/Spec2Isabelle.thy ===== *)
theory Spec2Isabelle
  imports Varint SystemProps Delivery WalTheorems DashboardProps Monitor Auth DequeProps BloomProps
begin

text \<open>
  A model of DiceDB, an in-memory key-value server written in Go, and the theorems that make it correct.

  \<^bold>\<open>The program.\<close> A client's command arrives at an I/O thread (\<^verbatim>\<open>internal/server/ironhawk/iothread.go\<close>),
  which looks it up in the command registry and executes it (\<^verbatim>\<open>internal/cmd\<close>). The execution picks the
  shard of the command's key (\<^verbatim>\<open>internal/shardmanager\<close>, \<^verbatim>\<open>internal/shardthread\<close>) and evaluates the command
  on that shard's store (\<^verbatim>\<open>internal/store\<close>, \<^verbatim>\<open>internal/object\<close>, \<^verbatim>\<open>internal/types\<close>); a few commands visit
  all shards. A shard's timer deletes expired keys. A successful command is appended to the write-ahead log
  (\<^verbatim>\<open>internal/wal\<close>), answered, and its key's subscribers are notified by goroutines of the watch manager
  (\<^verbatim>\<open>internal/server/ironhawk/watch_manager.go\<close>). At start-up the log is replayed.

  \<^bold>\<open>The theories.\<close>
  \<^item> Prelude: Go's integers, panics as \<^verbatim>\<open>outcome\<close>, generic lemmas. GoStrings: \<^verbatim>\<open>strconv\<close> and \<^verbatim>\<open>strings\<close>.
  \<^item> Varint: \<^verbatim>\<open>internal/dencoding/int.go\<close>, with its round trips.
  \<^item> RegMap: \<^verbatim>\<open>internal/common/regmap.go\<close>. EvictionHeap: the bounded heap of \<^verbatim>\<open>batchevictionlru.go\<close>.
  \<^item> Errors: \<^verbatim>\<open>internal/errors/errors.go\<close>, every error and its text.
  \<^item> Store: \<^verbatim>\<open>store.go\<close>, \<^verbatim>\<open>expire.go\<close>, \<^verbatim>\<open>store_options.go\<close> on an explicit heap of objects, since the expiry
    table is keyed by object identity. StoreInv has its invariant and what each operation does to the abstract
    map from keys to typed values with deadlines (\<^verbatim>\<open>db\<close>, and \<^verbatim>\<open>view\<close> for the unexpired part); StoreProps
    and StoreTheorems the refinements of these abstractions.
  \<^item> CmdCore, CmdString, CmdKeys, CmdHash, SortedSet, CmdZset: the evaluation of every command. CmdInv and the
    theories named Props have the invariant (each value has the type of its tag) and the commands' effects.
  \<^item> Shards, Exec: shards, routing, the execution of every command on them and the registry. ExecProps,
    MultiShard, SystemProps: the invariant of the whole system, the commands that visit all shards as commands
    on one store, and end-to-end properties.
  \<^item> Watch, Server: subscriptions, the handling of one received command, pending goroutines and their
    interleaving as a step relation. ServerProps, Delivery: safety of every reachable state, who is notified,
    and what the order of goroutines decides.
  \<^item> Wal, WalProps, WalTheorems: the write-ahead log on an abstract file system, replay after stop and crash.

  \<^bold>\<open>Conventions.\<close> A Go \<^verbatim>\<open>int64\<close> is an integer with \<^verbatim>\<open>i64\<close> after each operation that can wrap; \<^verbatim>\<open>uint\<close>s and bit
  patterns are words. A panic is a value. What a Go program leaves open (the order of map iteration, the clock,
  hash functions, floating point, glob matching) is a field of the record \<^verbatim>\<open>env\<close>; the theorems quantify over
  it, with \<^verbatim>\<open>env_ok\<close> and \<^verbatim>\<open>range_ok\<close> naming what is assumed. An operation that holds a lock, and an execution
  on a shard, is one step. Loops are structural recursions or have a termination proof; the only fuel is that of
  the heap's drain, which the heap's size bounds.

  \<^bold>\<open>Not modelled.\<close> Sockets and the wire format (the library \<^verbatim>\<open>dicedb-go\<close>), logging, metrics and configuration
  parsing carry no state of the database.
\<close>

end
